(* ===== verification/Prelude.thy ===== *)
theory Prelude
  imports Main "HOL-Library.Word"
begin

text \<open>
  What the components share. Go error values (\<open>goerror\<close>) and the text they print; the sequencing
  of Go code that may panic and that acts on a state (\<open>go\<close>, \<open>ret\<close>, \<open>throw\<close>, \<open>bnd\<close>) with its
  weakest-precondition calculus (\<open>wp\<close>, the collection \<open>wp_simps\<close>); \<open>time.Duration\<close> at its width
  (\<open>dur\<close>, \<open>time_sub\<close>); and generic lemmas on lists used by several components.
\<close>

section \<open>Hint collections\<close>

named_theorems wp_simps \<open>equations that push a postcondition through Go code\<close>

section \<open>Go errors\<close>

text \<open>
  An \<open>error\<close> value of the program. \<open>Errorf\<close> is an error made by \<open>xerrors.Errorf\<close> or
  \<open>xerrors.New\<close>, \<open>ApiError\<close> one that the Kubernetes API returned, with the reason the client
  libraries test for, \<open>CodeExitError\<close> the exit code of a remote command, and \<open>EOF\<close> is \<open>io.EOF\<close>.
  \<open>goerror option\<close> is a Go \<open>error\<close> result, with \<open>None\<close> for \<open>nil\<close>.
\<close>

datatype api_reason = NotFound | Conflict | OtherReason

datatype goerror =
    Errorf string
  | ApiError api_reason string
  | CodeExitError int string
  | EOF

fun ErrorText :: "goerror \<Rightarrow> string" where
  "ErrorText (Errorf s) = s"
| "ErrorText (ApiError r s) = s"
| "ErrorText (CodeExitError c s) = s"
| "ErrorText EOF = ''EOF''"

text \<open>\<open>client.IgnoreNotFound\<close> and \<open>errors.IsConflict\<close>, as documented.\<close>

fun IgnoreNotFound :: "goerror \<Rightarrow> goerror option" where
  "IgnoreNotFound (ApiError NotFound s) = None"
| "IgnoreNotFound e = Some e"

fun IsConflict :: "goerror \<Rightarrow> bool" where
  "IsConflict (ApiError Conflict s) = True"
| "IsConflict e = False"

section \<open>Go code: state, results and panics\<close>

text \<open>
  A piece of Go code is a function from a state to an outcome and the new state. \<open>Panic\<close> stops
  the code; what was done to the state before stays done.
\<close>

datatype 'a outcome = Done 'a | Panic string

type_synonym ('s, 'a) go = "'s \<Rightarrow> 'a outcome \<times> 's"

definition ret :: "'a \<Rightarrow> ('s, 'a) go" where
  "ret x = (\<lambda>s. (Done x, s))"

definition throw :: "string \<Rightarrow> ('s, 'a) go" where
  "throw p = (\<lambda>s. (Panic p, s))"

definition bnd :: "('s, 'a) go \<Rightarrow> ('a \<Rightarrow> ('s, 'b) go) \<Rightarrow> ('s, 'b) go" where
  "bnd m k = (\<lambda>s. case m s of (Done x, s') \<Rightarrow> k x s' | (Panic p, s') \<Rightarrow> (Panic p, s'))"

text \<open>
  \<open>wp m Q E s\<close>: started in \<open>s\<close>, the code \<open>m\<close> either returns and \<open>Q\<close> holds of the result and
  the new state, or panics and \<open>E\<close> holds of the panic value and the new state.
\<close>

definition wp ::
  "('s, 'a) go \<Rightarrow> ('a \<Rightarrow> 's \<Rightarrow> bool) \<Rightarrow> (string \<Rightarrow> 's \<Rightarrow> bool) \<Rightarrow> 's \<Rightarrow> bool" where
  "wp m Q E s = (case m s of (Done x, s') \<Rightarrow> Q x s' | (Panic p, s') \<Rightarrow> E p s')"

lemma wp_ret [wp_simps, simp]: "wp (ret x) Q E s = Q x s"
  by (simp add: wp_def ret_def)

lemma wp_throw [wp_simps, simp]: "wp (throw p) Q E s = E p s"
  by (simp add: wp_def throw_def)

lemma wp_bnd [wp_simps, simp]: "wp (bnd m k) Q E s = wp m (\<lambda>x. wp (k x) Q E) E s"
  by (auto simp: wp_def bnd_def split: prod.splits outcome.splits)

lemma wp_if [wp_simps]: "wp (if b then m else n) Q E s = (if b then wp m Q E s else wp n Q E s)"
  by simp

lemma wp_mono:
  assumes "wp m Q E s"
    and "\<And>x t. Q x t \<Longrightarrow> Q' x t"
    and "\<And>p t. E p t \<Longrightarrow> E' p t"
  shows "wp m Q' E' s"
  using assms by (auto simp: wp_def split: prod.splits outcome.splits)

lemma wp_final: "wp m (\<lambda>_. P) (\<lambda>_. P) s \<Longrightarrow> P (snd (m s))"
  by (auto simp: wp_def split: prod.splits outcome.splits)

lemma wp_no_panic: "wp m Q (\<lambda>p t. False) s \<Longrightarrow> \<exists>x t. m s = (Done x, t) \<and> Q x t"
  by (auto simp: wp_def split: prod.splits outcome.splits)

text \<open>A \<open>for\<close> loop over a slice whose body updates the loop's variables \<open>a\<close>.\<close>

fun for_each :: "'x list \<Rightarrow> 'a \<Rightarrow> ('x \<Rightarrow> 'a \<Rightarrow> ('s, 'a) go) \<Rightarrow> ('s, 'a) go" where
  "for_each [] a body = ret a"
| "for_each (x # xs) a body = bnd (body x a) (\<lambda>a'. for_each xs a' body)"

text \<open>
  \<open>retry.RetryOnConflict\<close>, as documented: the function runs up to \<open>n\<close> times, as long as it fails
  with a conflict; the last error is the result. \<open>a\<close> holds the variables that the function assigns.
\<close>

fun RetryOnConflict ::
  "nat \<Rightarrow> ('a \<Rightarrow> ('s, goerror option \<times> 'a) go) \<Rightarrow> 'a \<Rightarrow> ('s, goerror option \<times> 'a) go" where
  "RetryOnConflict 0 f a = ret (None, a)"
| "RetryOnConflict (Suc n) f a =
     bnd (f a) (\<lambda>(err, a').
     case err of
       None \<Rightarrow> ret (None, a')
     | Some e \<Rightarrow> if IsConflict e \<and> n > 0 then RetryOnConflict n f a' else ret (Some e, a'))"

text \<open>
  \<open>triple I E m R\<close>: from every state \<open>s\<close>, the code \<open>m\<close> ends in a state that \<open>I\<close> relates to \<open>s\<close>;
  what it returns satisfies \<open>R\<close>, and if it panics then \<open>E\<close> holds of the state it ends in and of the panic value.
  The locale \<open>go_rules\<close> says what a relation \<open>I\<close> must satisfy for triples to compose;
  its instances are the kinds of facts proved of the whole reconciler.
\<close>

definition triple ::
  "('s \<Rightarrow> 's \<Rightarrow> bool) \<Rightarrow> ('s \<Rightarrow> string \<Rightarrow> bool) \<Rightarrow> ('s, 'a) go \<Rightarrow> ('a \<Rightarrow> bool) \<Rightarrow> bool" where
  "triple I E m R \<longleftrightarrow> (\<forall>s. wp m (\<lambda>x t. I s t \<and> R x) (\<lambda>p t. I s t \<and> E t p) s)"

named_theorems triple_intros \<open>rules of triples that follow the code\<close>

locale go_rules =
  fixes I :: "'s \<Rightarrow> 's \<Rightarrow> bool"
    and E :: "'s \<Rightarrow> string \<Rightarrow> bool"
  assumes I_refl: "I s s"
    and I_trans: "I s t \<Longrightarrow> I t u \<Longrightarrow> I s u"
begin

lemma triple_ret [triple_intros]: "R x \<Longrightarrow> triple I E (ret x) R"
  by (simp add: triple_def I_refl)

lemma triple_throw: "(\<And>s. E s p) \<Longrightarrow> triple I E (throw p) R"
  by (simp add: triple_def I_refl)

lemma triple_bnd:
  assumes m: "triple I E m S" and k: "\<And>x. S x \<Longrightarrow> triple I E (k x) R"
  shows "triple I E (bnd m k) R"
  unfolding triple_def wp_bnd
proof
  fix s
  from m have "wp m (\<lambda>x t. I s t \<and> S x) (\<lambda>p t. I s t \<and> E t p) s"
    by (simp add: triple_def)
  then show "wp m (\<lambda>x. wp (k x) (\<lambda>y u. I s u \<and> R y) (\<lambda>p u. I s u \<and> E u p))
      (\<lambda>p t. I s t \<and> E t p) s"
  proof (rule wp_mono)
    fix x t assume x: "I s t \<and> S x"
    with k have "wp (k x) (\<lambda>y u. I t u \<and> R y) (\<lambda>p u. I t u \<and> E u p) t"
      by (simp add: triple_def)
    then show "wp (k x) (\<lambda>y u. I s u \<and> R y) (\<lambda>p u. I s u \<and> E u p) t"
      by (rule wp_mono) (use x in \<open>auto intro: I_trans\<close>)
  qed
qed

lemma triple_RetryOnConflict:
  assumes step: "\<And>a. J a \<Longrightarrow> triple I E (f a) (\<lambda>(err, a'). (err \<noteq> None \<longrightarrow> J a') \<and> R (err, a'))"
    and "J a" and "n = 0 \<Longrightarrow> R (None, a)"
  shows "triple I E (RetryOnConflict n f a) R"
  using assms(2,3)
proof (induction n arbitrary: a)
  case (Suc n)
  show ?case
    unfolding RetryOnConflict.simps
    by (rule triple_bnd [OF step [OF Suc.prems(1)]])
      (auto intro!: triple_ret Suc.IH split: option.splits prod.splits)
qed (simp add: triple_ret)

lemma triple_for_each:
  assumes "\<And>x a. x \<in> set xs \<Longrightarrow> triple I E (body x a) (\<lambda>_. True)"
  shows "triple I E (for_each xs a body) (\<lambda>_. True)"
  using assms
proof (induction xs arbitrary: a)
  case (Cons x xs)
  then show ?case by (auto intro!: triple_bnd)
qed (simp add: triple_ret)

end

lemma triple_mono:
  "triple I E m R \<Longrightarrow> (\<And>s t. I s t \<Longrightarrow> I' s t) \<Longrightarrow> (\<And>s p. E s p \<Longrightarrow> E' s p) \<Longrightarrow>
     (\<And>x. R x \<Longrightarrow> R' x) \<Longrightarrow> triple I' E' m R'"
  unfolding triple_def by (blast intro: wp_mono)

lemma tripleD:
  assumes "triple I E m R" and "m s = (out, t)"
  shows "I s t" and "out = Done x \<Longrightarrow> R x" and "out = Panic p \<Longrightarrow> E t p"
proof -
  have h: "wp m (\<lambda>x t. I s t \<and> R x) (\<lambda>p t. I s t \<and> E t p) s"
    using assms(1) by (simp add: triple_def)
  show "I s t" using h assms(2) by (cases out) (auto simp: wp_def)
  show "R x" if "out = Done x" using h assms(2) that by (simp add: wp_def)
  show "E t p" if "out = Panic p" using h assms(2) that by (simp add: wp_def)
qed

lemma triple_if [triple_intros]:
  "(b \<Longrightarrow> triple I E m R) \<Longrightarrow> (\<not> b \<Longrightarrow> triple I E n R) \<Longrightarrow> triple I E (if b then m else n) R"
  by simp

lemma triple_sum [triple_intros]:
  "(\<And>e. x = Inl e \<Longrightarrow> triple I E (f e) R) \<Longrightarrow> (\<And>y. x = Inr y \<Longrightarrow> triple I E (g y) R) \<Longrightarrow>
     triple I E (case x of Inl e \<Rightarrow> f e | Inr y \<Rightarrow> g y) R"
  by (cases x) auto

lemma triple_option [triple_intros]:
  "(x = None \<Longrightarrow> triple I E m R) \<Longrightarrow> (\<And>y. x = Some y \<Longrightarrow> triple I E (f y) R) \<Longrightarrow>
     triple I E (case x of None \<Rightarrow> m | Some y \<Rightarrow> f y) R"
  by (cases x) auto

lemma triple_prod [triple_intros]:
  "(\<And>a b. x = (a, b) \<Longrightarrow> triple I E (f a b) R) \<Longrightarrow> triple I E (case x of (a, b) \<Rightarrow> f a b) R"
  by (cases x) auto

lemma triple_Let [triple_intros]:
  "triple I E (f v) R \<Longrightarrow> triple I E (let x = v in f x) R"
  by simp

section \<open>Durations\<close>

text \<open>
  \<open>time.Duration\<close> is an \<open>int64\<close> count of nanoseconds: sums and differences wrap, comparisons are
  signed. A \<open>time.Time\<close> is a count of nanoseconds (an \<open>int\<close>; the zero time is \<open>0\<close>), and
  \<open>Time.Sub\<close> clamps the difference to the range of a duration.
\<close>

type_synonym dur = "64 word"

definition dur_min :: int where [simp]: "dur_min = - 9223372036854775808"
definition dur_max :: int where [simp]: "dur_max = 9223372036854775807"

definition dur_less :: "dur \<Rightarrow> dur \<Rightarrow> bool" where
  "dur_less a b = (sint a < sint b)"

definition time_sub :: "int \<Rightarrow> int \<Rightarrow> dur" where
  "time_sub t u = word_of_int (max dur_min (min dur_max (t - u)))"

lemma sint_dur_of_int: "dur_min \<le> i \<Longrightarrow> i \<le> dur_max \<Longrightarrow> sint (word_of_int i :: dur) = i"
  by (simp add: sint_sbintrunc' signed_take_bit_int_eq_self)

lemma sint_time_sub: "sint (time_sub t u) = max dur_min (min dur_max (t - u))"
  unfolding time_sub_def by (rule sint_dur_of_int) auto

lemma sint_dur_bounds: "dur_min \<le> sint (d :: dur)" "sint (d :: dur) \<le> dur_max"
  using sint_ge [of d] sint_lt [of d] by simp_all

lemma sint_dur_diff:
  fixes a b :: dur
  assumes "dur_min \<le> sint a - sint b" "sint a - sint b \<le> dur_max"
  shows "sint (a - b) = sint a - sint b"
proof -
  have "a - b = word_of_int (sint a - sint b)"
    by (simp only: of_int_diff of_int_sint scast_id)
  then show ?thesis by (simp only: sint_dur_of_int [OF assms])
qed

definition Second :: dur where [simp]: "Second = 1000000000"

section \<open>Transition systems\<close>

text \<open>
  The states that a system can be in: those that some number of steps leads to from an initial
  state. The locale is the contract between a system's steps and an invariant: what the steps
  keep holds in every reachable state.
\<close>

definition reachable :: "('s \<Rightarrow> bool) \<Rightarrow> ('s \<Rightarrow> 's \<Rightarrow> bool) \<Rightarrow> 's \<Rightarrow> bool" where
  "reachable ini step t \<longleftrightarrow> (\<exists>s. ini s \<and> rtranclp step s t)"

lemma reachable_init: "ini s \<Longrightarrow> reachable ini step s"
  by (auto simp: reachable_def)

lemma reachable_step: "reachable ini step s \<Longrightarrow> step s t \<Longrightarrow> reachable ini step t"
  by (auto simp: reachable_def intro: rtranclp.rtrancl_into_rtrancl)

locale kept_invariant =
  fixes ini :: "'s \<Rightarrow> bool"
    and step :: "'s \<Rightarrow> 's \<Rightarrow> bool"
    and inv :: "'s \<Rightarrow> bool"
  assumes inv_ini: "ini s \<Longrightarrow> inv s"
    and inv_step: "inv s \<Longrightarrow> step s t \<Longrightarrow> inv t"
begin

lemma inv_steps: "rtranclp step s t \<Longrightarrow> inv s \<Longrightarrow> inv t"
  by (induction rule: rtranclp_induct) (auto intro: inv_step)

lemma inv_reachable: "reachable ini step t \<Longrightarrow> inv t"
  by (auto simp: reachable_def intro: inv_steps inv_ini)

end

end
