(* ===== verification/ApiTypes.thy ===== *)
theory ApiTypes
  imports GoStrings
begin

text \<open>
  The CliApp API (pkg/apis/cliapp/v1/cliapp_types.go): the spec, the status and the object, with
  one record field for each Go field, and the named string constants. A nil slice and an empty
  one are both the empty list. Of \<open>TypeMeta\<close> and \<open>ObjectMeta\<close> the fields the program reads
  are kept.
\<close>

section \<open>Named string types\<close>

type_synonym CliAppDistro = string
type_synonym CliAppShell = string
type_synonym CliAppPhase = string

definition CliAppDistroAlpine :: CliAppDistro where [simp]: "CliAppDistroAlpine = ''alpine''"
definition CliAppDistroUbuntu :: CliAppDistro where [simp]: "CliAppDistroUbuntu = ''ubuntu''"

definition CliAppShellBash :: CliAppShell where [simp]: "CliAppShellBash = ''bash''"
definition CliAppShellZsh :: CliAppShell where [simp]: "CliAppShellZsh = ''zsh''"

definition CliAppPhaseRest :: CliAppPhase where
  [simp]: "CliAppPhaseRest = ''Rest''"
definition CliAppPhaseRecovering :: CliAppPhase where
  [simp]: "CliAppPhaseRecovering = ''Recovering''"
definition CliAppPhaseBuilding :: CliAppPhase where
  [simp]: "CliAppPhaseBuilding = ''Building''"
definition CliAppPhaseLive :: CliAppPhase where
  [simp]: "CliAppPhaseLive = ''Live''"
definition CliAppPhaseWaitingForSessions :: CliAppPhase where
  [simp]: "CliAppPhaseWaitingForSessions = ''WaitingForSessions''"
definition CliAppPhaseShuttingDown :: CliAppPhase where
  [simp]: "CliAppPhaseShuttingDown = ''ShuttingDown''"

text \<open>The phases the API declares, and the empty phase of an app that was never reconciled.\<close>

definition declared_phases :: "CliAppPhase set" where
  "declared_phases = {CliAppPhaseRest, CliAppPhaseRecovering, CliAppPhaseBuilding,
     CliAppPhaseLive, CliAppPhaseWaitingForSessions, CliAppPhaseShuttingDown}"

section \<open>The object\<close>

record ForkObject =
  fork_Object :: string
  fork_Container :: string
  fork_WithEnvs :: bool

record CliAppSpec =
  spec_Fork :: "ForkObject option"
  spec_Image :: string
  spec_Dockerfile :: string
  spec_Command :: "string list"
  spec_HostPath :: "string list"
  spec_Env :: "string list"
  spec_Distro :: CliAppDistro
  spec_Shell :: CliAppShell
  spec_TargetPhase :: CliAppPhase
  spec_UninstallUnlessLive :: bool

record CliAppStatus =
  status_Phase :: CliAppPhase
  status_LastPhaseTransition :: int
  status_PodName :: string
  status_Error :: string

record CliApp =
  app_APIVersion :: string
  app_Kind :: string
  app_Name :: string
  app_Namespace :: string
  app_UID :: string
  app_Spec :: CliAppSpec
  app_Status :: CliAppStatus

text \<open>The assignments \<open>app.Status.X = v\<close> and \<open>app.Spec.X = v\<close> of the program.\<close>

abbreviation set_Phase :: "CliAppPhase \<Rightarrow> CliApp \<Rightarrow> CliApp" where
  "set_Phase p app \<equiv> app\<lparr>app_Status := (app_Status app)\<lparr>status_Phase := p\<rparr>\<rparr>"

abbreviation set_LastPhaseTransition :: "int \<Rightarrow> CliApp \<Rightarrow> CliApp" where
  "set_LastPhaseTransition t app \<equiv>
     app\<lparr>app_Status := (app_Status app)\<lparr>status_LastPhaseTransition := t\<rparr>\<rparr>"

abbreviation set_PodName :: "string \<Rightarrow> CliApp \<Rightarrow> CliApp" where
  "set_PodName n app \<equiv> app\<lparr>app_Status := (app_Status app)\<lparr>status_PodName := n\<rparr>\<rparr>"

abbreviation set_Error :: "string \<Rightarrow> CliApp \<Rightarrow> CliApp" where
  "set_Error e app \<equiv> app\<lparr>app_Status := (app_Status app)\<lparr>status_Error := e\<rparr>\<rparr>"

abbreviation set_Image :: "string \<Rightarrow> CliApp \<Rightarrow> CliApp" where
  "set_Image i app \<equiv> app\<lparr>app_Spec := (app_Spec app)\<lparr>spec_Image := i\<rparr>\<rparr>"

abbreviation set_TargetPhase :: "CliAppPhase \<Rightarrow> CliApp \<Rightarrow> CliApp" where
  "set_TargetPhase p app \<equiv> app\<lparr>app_Spec := (app_Spec app)\<lparr>spec_TargetPhase := p\<rparr>\<rparr>"

abbreviation Phase :: "CliApp \<Rightarrow> CliAppPhase" where
  "Phase app \<equiv> status_Phase (app_Status app)"

abbreviation TargetPhase :: "CliApp \<Rightarrow> CliAppPhase" where
  "TargetPhase app \<equiv> spec_TargetPhase (app_Spec app)"

abbreviation PodName :: "CliApp \<Rightarrow> string" where
  "PodName app \<equiv> status_PodName (app_Status app)"

end
