(* ===== verification/KubeTypes.thy ===== *)
theory KubeTypes
  imports ApiTypes
begin

text \<open>
  The Kubernetes objects the program handles, with the fields it reads or writes; what else a
  container or a pod spec holds is carried along in an opaque field (\<open>c_other\<close>, \<open>ps_other\<close>, ...),
  so that a copy keeps it. A Go map that may be nil is an \<open>option\<close> of a map.
\<close>

type_synonym labels = "string \<rightharpoonup> string"

record EnvVar =
  env_Name :: string
  env_Value :: string
  env_ValueFrom :: "string option"

datatype VolumeSource =
    HostPathSource string
  | CSISource string labels
  | OtherSource string

record Volume =
  vol_Name :: string
  vol_Source :: VolumeSource

record VolumeMount =
  vm_Name :: string
  vm_MountPath :: string
  vm_other :: string

record Capabilities =
  cap_Add :: "string list"
  cap_Drop :: "string list"

record SecurityContext =
  sc_Capabilities :: "Capabilities option"
  sc_other :: string

record Container =
  c_Name :: string
  c_Image :: string
  c_Env :: "EnvVar list"
  c_WorkingDir :: string
  c_Stdin :: bool
  c_VolumeMounts :: "VolumeMount list"
  c_SecurityContext :: "SecurityContext option"
  c_StartupProbe :: "string option"
  c_LivenessProbe :: "string option"
  c_ReadinessProbe :: "string option"
  c_other :: string

record PodSpec =
  ps_Containers :: "Container list"
  ps_Volumes :: "Volume list"
  ps_other :: string

record OwnerReference =
  or_APIVersion :: string
  or_Kind :: string
  or_Name :: string
  or_UID :: string
  or_Controller :: bool
  or_BlockOwnerDeletion :: bool

record PodCondition =
  pc_Type :: string
  pc_Status :: string

record PodStatus =
  pst_Phase :: string
  pst_Conditions :: "PodCondition list"

record Pod =
  pod_Name :: string
  pod_Namespace :: string
  pod_Labels :: "labels option"
  pod_Annotations :: "labels option"
  pod_OwnerReferences :: "OwnerReference list"
  pod_DeletionTimestamp :: "int option"
  pod_Spec :: PodSpec
  pod_Status :: PodStatus

text \<open>The zero values that a Go composite literal starts from.\<close>

definition zero_EnvVar :: EnvVar where
  "zero_EnvVar = \<lparr>env_Name = [], env_Value = [], env_ValueFrom = None\<rparr>"

definition zero_Container :: Container where
  "zero_Container = \<lparr>c_Name = [], c_Image = [], c_Env = [], c_WorkingDir = [], c_Stdin = False,
     c_VolumeMounts = [], c_SecurityContext = None, c_StartupProbe = None,
     c_LivenessProbe = None, c_ReadinessProbe = None, c_other = []\<rparr>"

definition zero_PodSpec :: PodSpec where
  "zero_PodSpec = \<lparr>ps_Containers = [], ps_Volumes = [], ps_other = []\<rparr>"

definition zero_Pod :: Pod where
  "zero_Pod = \<lparr>pod_Name = [], pod_Namespace = [], pod_Labels = None, pod_Annotations = None,
     pod_OwnerReferences = [], pod_DeletionTimestamp = None, pod_Spec = zero_PodSpec,
     pod_Status = \<lparr>pst_Phase = [], pst_Conditions = []\<rparr>\<rparr>"

text \<open>Reading a string map: a nil map and a missing key both give the empty string.\<close>

definition map_get :: "labels option \<Rightarrow> string \<Rightarrow> string" where
  "map_get m k = (case m of None \<Rightarrow> [] | Some f \<Rightarrow> (case f k of None \<Rightarrow> [] | Some v \<Rightarrow> v))"

definition map_is_empty :: "labels option \<Rightarrow> bool" where
  "map_is_empty m = (case m of None \<Rightarrow> True | Some f \<Rightarrow> f = Map.empty)"

lemma map_get_simps [simp]:
  "map_get None k = []"
  "map_get (Some f) k = (case f k of None \<Rightarrow> [] | Some v \<Rightarrow> v)"
  by (simp_all add: map_get_def)

lemma map_is_empty_get: "map_is_empty m \<Longrightarrow> map_get m k = []"
  by (auto simp: map_is_empty_def split: option.splits)

abbreviation annotation :: "Pod \<Rightarrow> string \<Rightarrow> string" where
  "annotation pod k \<equiv> map_get (pod_Annotations pod) k"

end
