(* ===== verification/Utils.thy ===== *)
theory Utils
  imports KubeTypes
begin

text \<open>
  pkg/utils/utils.go: the readiness of a pod. \<open>GetPodConditionFromList\<close> is the loop over the
  conditions, the other functions the wrappers around it.
\<close>

definition PodReady :: string where [simp]: "PodReady = ''Ready''"
definition ConditionTrue :: string where [simp]: "ConditionTrue = ''True''"

text \<open>The loop of \<open>GetPodConditionFromList\<close>, from index \<open>i\<close> on.\<close>

fun condition_loop ::
  "int \<Rightarrow> PodCondition list \<Rightarrow> string \<Rightarrow> int \<times> PodCondition option" where
  "condition_loop i [] t = (-1, None)"
| "condition_loop i (c # cs) t =
     (if pc_Type c = t then (i, Some c) else condition_loop (i + 1) cs t)"

definition GetPodConditionFromList ::
  "PodCondition list \<Rightarrow> string \<Rightarrow> int \<times> PodCondition option" where
  "GetPodConditionFromList conditions t = condition_loop 0 conditions t"

definition GetPodCondition :: "PodStatus option \<Rightarrow> string \<Rightarrow> int \<times> PodCondition option" where
  "GetPodCondition status t =
     (case status of None \<Rightarrow> (-1, None) | Some st \<Rightarrow> GetPodConditionFromList (pst_Conditions st) t)"

definition GetPodReadyCondition :: "PodStatus \<Rightarrow> PodCondition option" where
  "GetPodReadyCondition status = snd (GetPodCondition (Some status) PodReady)"

definition IsPodReadyConditionTrue :: "PodStatus \<Rightarrow> bool" where
  "IsPodReadyConditionTrue status =
     (case GetPodReadyCondition status of None \<Rightarrow> False | Some c \<Rightarrow> pc_Status c = ConditionTrue)"

definition IsPodReady :: "Pod \<Rightarrow> bool" where
  "IsPodReady pod = IsPodReadyConditionTrue (pod_Status pod)"

text \<open>
  \<open>GetCurrentNamespace\<close>: the file's content (\<open>Inl\<close> when it cannot be read) trimmed, and a panic
  when there is none.
\<close>

definition GetCurrentNamespace :: "goerror + string \<Rightarrow> string outcome" where
  "GetCurrentNamespace file =
     (case file of
        Inr data \<Rightarrow>
          (let ns = TrimSpace data
           in if length ns > 0 then Done ns else Panic ''can't fetch the current namespace'')
      | Inl e \<Rightarrow> Panic ''can't fetch the current namespace'')"

section \<open>Properties\<close>

text \<open>The loop finds the first condition of the type, and its index.\<close>

lemma condition_loop_find:
  "condition_loop i cs t =
     (case find (\<lambda>c. pc_Type c = t) cs of
        None \<Rightarrow> (-1, None)
      | Some c \<Rightarrow> (i + int (length (takeWhile (\<lambda>c. pc_Type c \<noteq> t) cs)), Some c))"
  by (induction cs arbitrary: i) (auto split: option.splits)

lemma IsPodReady_find:
  "IsPodReady pod \<longleftrightarrow>
     (\<exists>c. find (\<lambda>c. pc_Type c = PodReady) (pst_Conditions (pod_Status pod)) = Some c
        \<and> pc_Status c = ConditionTrue)"
  by (auto simp: IsPodReady_def IsPodReadyConditionTrue_def GetPodReadyCondition_def
      GetPodCondition_def GetPodConditionFromList_def condition_loop_find split: option.splits)

end
