(* ===== verification/Cluster.thy ===== *)
theory Cluster
  imports Utils
begin

text \<open>
  The outside world of the reconciler. Every call that leaves the program (to the Kubernetes API,
  the container runtime, the clock, the random source) is recorded in the world's list of calls,
  in order, and answered by the environment: an \<open>env\<close> gives, for each kind of call, the answer as
  a function of the calls made so far, the current one last. Nothing is assumed of these
  functions, so a theorem about all environments covers every behaviour of the cluster, other
  clients of the API included. What happened in the cluster because of the program is what the
  list of calls says.
\<close>

section \<open>Calls\<close>

datatype GroupKind = GroupKind (gk_Group: string) (gk_Kind: string)

text \<open>
  What \<open>resource.Builder\<close> found for \<open>fork.Object\<close>: the kind and group of its mapping, the text
  that its \<open>GroupVersionKind\<close> prints, and the object's namespace and name.
\<close>

record ResourceInfo =
  info_GK :: GroupKind
  info_GVKText :: string
  info_Namespace :: string
  info_Name :: string

text \<open>The typed API through which a workload is fetched.\<close>

datatype WorkloadApi =
    ExtV1beta1Deployments | AppsV1Deployments | AppsV1StatefulSets | BatchV1Jobs
  | BatchV1beta1CronJobs | ExtV1beta1DaemonSets | AppsV1DaemonSets
  | ExtV1beta1ReplicaSets | AppsV1ReplicaSets | CoreV1Pods

datatype call =
    CGetApp string string                 \<comment> \<open>\<open>r.Get\<close> of the app: namespace, name\<close>
  | CStatusUpdate CliApp                  \<comment> \<open>\<open>r.Status().Update\<close>\<close>
  | CUpdate CliApp                        \<comment> \<open>\<open>r.Update\<close>\<close>
  | CDeleteApp CliApp                     \<comment> \<open>\<open>r.Delete\<close> of the app\<close>
  | CListPods string string               \<comment> \<open>\<open>r.List\<close>: namespace, value of the app label\<close>
  | CDeletePod Pod                        \<comment> \<open>\<open>r.Delete\<close> of a pod\<close>
  | CCreatePod Pod                        \<comment> \<open>\<open>r.Create\<close>\<close>
  | CGetConfigMap string string           \<comment> \<open>\<open>r.Get\<close> of a ConfigMap\<close>
  | CNewClientset                         \<comment> \<open>\<open>kubernetes.NewForConfig\<close>\<close>
  | CClientListPods string string         \<comment> \<open>\<open>Pods(ns).List\<close>: namespace, label selector\<close>
  | CClientDeletePod string string        \<comment> \<open>\<open>Pods(ns).Delete\<close>: namespace, name\<close>
  | CResolve string string                \<comment> \<open>\<open>resource.Builder\<close>: namespace, object\<close>
  | CGetWorkload WorkloadApi string string
  | CImageStatus string                   \<comment> \<open>the CRI's \<open>ImageStatus\<close>: image\<close>
  | CNow                                  \<comment> \<open>\<open>metav1.Now\<close>\<close>
  | CRandString nat                       \<comment> \<open>\<open>rand.String\<close>\<close>
  | CWatchApp string string               \<comment> \<open>\<open>CliApps(ns).Watch\<close> of one app (the session gate only)\<close>

text \<open>The builder's answer: an error of \<open>result.Err()\<close>, one of \<open>result.Infos()\<close>, or the infos.\<close>

datatype resolved = ResolveErr goerror | InfosErr goerror | Infos "ResourceInfo list"

text \<open>
  What a build uses of the outside: \<open>ioutil.WriteFile\<close> and buildkit's \<open>Solve\<close>, which is given the options and whether
  its context is cancelled.
\<close>

record SolveOpt =
  so_Frontend :: string
  so_FrontendAttrs :: labels
  so_LocalDirs :: "labels option"
  so_ExportImage :: string

record build_env =
  be_writeFile :: "string \<Rightarrow> string \<Rightarrow> goerror option"
  be_solve :: "bool \<Rightarrow> SolveOpt \<Rightarrow> goerror option"

text \<open>
  Besides the answers, the environment holds the functions of third-party packages that the
  reconciler calls without effect: the \<open>spew\<close> dump of a spec, \<open>rand.SafeEncodeString\<close>,
  the error with which \<open>json.Unmarshal\<close> refuses a text, \<open>%#v\<close> of a string, and how often \<open>retry.RetryOnConflict\<close> tries with
  \<open>retry.DefaultRetry\<close>. And it decides a race: \<open>e_early\<close> is the outside that the goroutine of a new build has met if it was so fast that it
  had its result before the poll that started it read the build's error.
\<close>

record env =
  e_getApp :: "call list \<Rightarrow> goerror + CliApp"
  e_statusUpdate :: "call list \<Rightarrow> goerror + CliApp"
  e_update :: "call list \<Rightarrow> goerror + CliApp"
  e_deleteApp :: "call list \<Rightarrow> goerror option"
  e_listPods :: "call list \<Rightarrow> goerror + Pod list"
  e_deletePod :: "call list \<Rightarrow> goerror option"
  e_createPod :: "call list \<Rightarrow> goerror + Pod"
  e_getConfigMap :: "call list \<Rightarrow> goerror + labels"
  e_newClientset :: "call list \<Rightarrow> goerror option"
  e_clientListPods :: "call list \<Rightarrow> goerror + Pod list"
  e_clientDeletePod :: "call list \<Rightarrow> goerror option"
  e_resolve :: "call list \<Rightarrow> resolved"
  e_getWorkload :: "call list \<Rightarrow> goerror + (PodSpec \<times> labels option)"
  e_imageStatus :: "call list \<Rightarrow> goerror + labels option"
  e_now :: "call list \<Rightarrow> int"
  e_rand :: "call list \<Rightarrow> string"
  e_spewDump :: "CliAppSpec \<Rightarrow> string"
  e_safeEncode :: "string \<Rightarrow> string"
  e_jsonError :: "string \<Rightarrow> goerror"
  e_sharpV :: "string \<Rightarrow> string"
  e_retrySteps :: nat
  e_early :: "call list \<Rightarrow> build_env option"

section \<open>The image builder's memory\<close>

text \<open>
  \<open>imageBuilderContext\<close> (controllers/cliapp_build.go) less its logger, client and output buffer;
  \<open>bc_Cancelled\<close> says whether the context behind \<open>ctx\<close> and \<open>cancel\<close> is cancelled. The contexts
  are shared between the reconciler's map and the goroutines that run them, so they live in a
  store, and the map holds their addresses; a nil map is \<open>None\<close>. \<open>ib_running\<close> gives the progress of the
  goroutine of a context: it builds; it has set the error, in \<open>finish\<close>; it has set \<open>Done\<close> and is about to run the deferred cancellation. A goroutine
  that has ended is not there.
\<close>

datatype build_stage = Working | ErrorSet | DoneSet

record imageBuilderContext =
  bc_Cancelled :: bool
  bc_Name :: string
  bc_Dockerfile :: string
  bc_Image :: string
  bc_Error :: "goerror option"
  bc_Done :: bool

record ImageBuilder =
  ib_appMap :: "(string \<rightharpoonup> nat) option"
  ib_store :: "nat \<rightharpoonup> imageBuilderContext"
  ib_next :: nat
  ib_running :: "nat \<rightharpoonup> build_stage"

record world =
  w_calls :: "call list"
  w_builder :: ImageBuilder

section \<open>Making a call\<close>

definition ask :: "call \<Rightarrow> (call list \<Rightarrow> 'a) \<Rightarrow> (world, 'a) go" where
  "ask c answer = (\<lambda>w. let h = w_calls w @ [c] in (Done (answer h), w\<lparr>w_calls := h\<rparr>))"

lemma wp_ask [wp_simps, simp]:
  "wp (ask c f) Q E w =
     Q (f (w_calls w @ [c])) (w\<lparr>w_calls := w_calls w @ [c]\<rparr>)"
  by (simp add: wp_def ask_def Let_def)

section \<open>Which calls a piece of code makes\<close>

text \<open>
  \<open>emits P w w'\<close>: between \<open>w\<close> and \<open>w'\<close> calls were made, each of which satisfies \<open>P\<close>.
  \<open>calls_only P m R\<close>: from every world, the code \<open>m\<close> makes only calls that satisfy \<open>P\<close>, whether it
  returns or panics, and \<open>R\<close> holds of what it returns.
\<close>

definition emits :: "(call \<Rightarrow> bool) \<Rightarrow> world \<Rightarrow> world \<Rightarrow> bool" where
  "emits P w w' \<longleftrightarrow> (\<exists>new. w_calls w' = w_calls w @ new \<and> list_all P new)"

abbreviation calls_only :: "(call \<Rightarrow> bool) \<Rightarrow> (world, 'a) go \<Rightarrow> ('a \<Rightarrow> bool) \<Rightarrow> bool" where
  "calls_only P \<equiv> triple (emits P) (\<lambda>_ _. True)"

interpretation emitting: go_rules "emits P" "\<lambda>_ _. True" for P
  by unfold_locales (auto simp: emits_def)

lemma calls_ask [triple_intros]: "P c \<Longrightarrow> (\<And>x. R x) \<Longrightarrow> calls_only P (ask c f) R"
  by (simp add: triple_def emits_def)

text \<open>After a call the code goes on with some answer.\<close>

lemma calls_bnd_ask [triple_intros]:
  "P c \<Longrightarrow> (\<And>h. calls_only P (k (f h)) R) \<Longrightarrow> calls_only P (bnd (ask c f) k) R"
  by (rule emitting.triple_bnd [where S = "\<lambda>x. \<exists>h. x = f h"]) (auto simp: triple_def emits_def)

lemma calls_throw [triple_intros]: "calls_only P (throw p) R"
  by (simp add: emitting.triple_throw)

lemma calls_mono:
  "calls_only P m R \<Longrightarrow> (\<And>c. P c \<Longrightarrow> P' c) \<Longrightarrow> (\<And>x. R x \<Longrightarrow> R' x) \<Longrightarrow> calls_only P' m R'"
  by (erule triple_mono) (auto simp: emits_def list_all_iff)

text \<open>The answer of \<open>resource.Builder\<close>.\<close>

lemma triple_resolved [triple_intros]:
  "(\<And>e. x = ResolveErr e \<Longrightarrow> triple I E (f e) R) \<Longrightarrow> (\<And>e. x = InfosErr e \<Longrightarrow> triple I E (g e) R) \<Longrightarrow>
     (\<And>is. x = Infos is \<Longrightarrow> triple I E (h is) R) \<Longrightarrow>
     triple I E (case x of ResolveErr e \<Rightarrow> f e | InfosErr e \<Rightarrow> g e | Infos is \<Rightarrow> h is) R"
  by (cases x) auto

section \<open>The reconciler's configuration\<close>

text \<open>\<open>CliAppReconciler\<close>, less the clients and the logger.\<close>

record CliAppReconciler =
  r_ToRESTConfig :: "unit \<Rightarrow> goerror + string"
  r_BuilderEndpoint :: string
  r_DurationIdleLiveLasts :: dur
  r_ControllerNamespace :: string
  r_DefaultAppContextImage :: string
  r_DefaultShell :: CliAppShell
  r_DefaultDistro :: CliAppDistro

text \<open>\<open>ctrl.Result\<close>.\<close>

record Result =
  res_Requeue :: bool
  res_RequeueAfter :: dur

definition zero_Result :: Result where
  "zero_Result = \<lparr>res_Requeue = False, res_RequeueAfter = 0\<rparr>"

end
