(* ===== verification/Common.thy ===== *)
theory Common
  imports Cluster
begin

text \<open>
  controllers/cliapp_common.go: grouping the pods of an app, the phase transition that every
  handler uses, and the validation of a spec.
\<close>

section \<open>groupPods\<close>

record PodGroups =
  g_terminating :: "Pod list"
  g_ready :: "Pod list"
  g_starting :: "Pod list"
  g_terminatingDesc :: "string list"
  g_readyDesc :: "string list"
  g_startingDesc :: "string list"

definition pod_desc :: "Pod \<Rightarrow> string" where
  "pod_desc pod = pod_Name pod @ ''|'' @ pst_Phase (pod_Status pod)"

text \<open>The body of the loop.\<close>

definition group_pod :: "PodGroups \<Rightarrow> Pod \<Rightarrow> PodGroups" where
  "group_pod g pod =
     (if pod_DeletionTimestamp pod \<noteq> None then
        g\<lparr>g_terminating := g_terminating g @ [pod],
          g_terminatingDesc := g_terminatingDesc g @ [pod_desc pod]\<rparr>
      else if IsPodReady pod then
        g\<lparr>g_ready := g_ready g @ [pod], g_readyDesc := g_readyDesc g @ [pod_desc pod]\<rparr>
      else
        g\<lparr>g_starting := g_starting g @ [pod], g_startingDesc := g_startingDesc g @ [pod_desc pod]\<rparr>)"

definition groupPods :: "Pod list \<Rightarrow> PodGroups" where
  "groupPods items =
     foldl group_pod
       \<lparr>g_terminating = [], g_ready = [], g_starting = [],
        g_terminatingDesc = [], g_readyDesc = [], g_startingDesc = []\<rparr> items"

section \<open>Validation\<close>

text \<open>\<open>%q\<close> of the constants that the messages print.\<close>

definition quoted :: "string \<Rightarrow> string" where
  "quoted s = CHR 0x22 # s @ [CHR 0x22]"

definition ValidateDistro :: "CliAppDistro \<Rightarrow> goerror option" where
  "ValidateDistro d =
     (if d = CliAppDistroAlpine \<or> d = CliAppDistroUbuntu then None
      else Some (Errorf (''Spec.Distro must be either '' @ quoted CliAppDistroAlpine @ '' or '' @
                   quoted CliAppDistroUbuntu)))"

definition ValidateShell :: "CliAppShell \<Rightarrow> goerror option" where
  "ValidateShell s =
     (if s = CliAppShellZsh \<or> s = CliAppShellBash then None
      else Some (Errorf (''Spec.Shell must be either '' @ quoted CliAppShellZsh @ '' or '' @
                   quoted CliAppShellBash)))"

definition validateApp :: "CliApp \<Rightarrow> goerror option" where
  "validateApp app =
     (let spec = app_Spec app in
      if length (spec_Image spec) = 0 \<and> length (spec_Dockerfile spec) = 0 \<and> spec_Fork spec = None
      then Some (Errorf ''specify either image, dockerfile, or Fork for the app'')
      else if spec_TargetPhase spec = [] then Some (Errorf ''TargetPhase is not set'')
      else if spec_TargetPhase spec \<noteq> CliAppPhaseRest \<and> spec_TargetPhase spec \<noteq> CliAppPhaseLive
      then Some (Errorf (''TargetPhase must be '' @ quoted CliAppPhaseRest @ '' or '' @
                   quoted CliAppPhaseLive))
      else
        case (if length (spec_Distro spec) > 0 then ValidateDistro (spec_Distro spec) else None) of
          Some e \<Rightarrow> Some e
        | None \<Rightarrow>
            (if length (spec_Shell spec) > 0 then ValidateShell (spec_Shell spec) else None))"

section \<open>transitPhaseTo\<close>

definition transitPhaseTo ::
  "env \<Rightarrow> CliApp \<Rightarrow> CliAppPhase \<Rightarrow> (world, goerror option \<times> CliApp) go" where
  "transitPhaseTo env app phase =
     bnd (ask CNow (e_now env)) (\<lambda>now.
     let app = set_LastPhaseTransition now (set_Phase phase app) in
     if phase = CliAppPhaseLive \<and> length (PodName app) = 0 then
       throw ''set Pod name along with phase Live''
     else if phase = CliAppPhaseLive \<and> length (spec_Image (app_Spec app)) = 0
         \<and> spec_Fork (app_Spec app) = None then
       throw ''set Image along with phase Live''
     else
       let app = (if phase = CliAppPhaseRest then set_PodName [] app else app) in
       bnd (ask (CStatusUpdate app) (e_statusUpdate env)) (\<lambda>resp.
       case resp of
         Inl err \<Rightarrow> ret (Some err, app)
       | Inr stored \<Rightarrow> ret (None, stored)))"

section \<open>Properties\<close>

text \<open>The app that \<open>transitPhaseTo\<close> writes, at time \<open>t\<close>.\<close>

definition transited :: "CliApp \<Rightarrow> CliAppPhase \<Rightarrow> int \<Rightarrow> CliApp" where
  "transited app phase t =
     (let app = set_LastPhaseTransition t (set_Phase phase app)
      in if phase = CliAppPhaseRest then set_PodName [] app else app)"

lemma transited_simps [simp]:
  "app_Spec (transited app p t) = app_Spec app"
  "app_Name (transited app p t) = app_Name app"
  "app_Namespace (transited app p t) = app_Namespace app"
  "Phase (transited app p t) = p"
  "status_LastPhaseTransition (app_Status (transited app p t)) = t"
  "PodName (transited app p t) = (if p = CliAppPhaseRest then [] else PodName app)"
  "status_Error (app_Status (transited app p t)) = status_Error (app_Status app)"
  by (simp_all add: transited_def Let_def)

text \<open>
  The calls of a transition: the clock, then one status update, and the app afterwards is what
  the server stored. The panics are those of an app that becomes live with no pod or no image.
\<close>

definition transit_ok :: "CliApp \<Rightarrow> CliAppPhase \<Rightarrow> bool" where
  "transit_ok app phase \<longleftrightarrow>
     (phase = CliAppPhaseLive \<longrightarrow>
        PodName app \<noteq> [] \<and> (spec_Image (app_Spec app) \<noteq> [] \<or> spec_Fork (app_Spec app) \<noteq> None))"

lemma wp_transitPhaseTo [wp_simps]:
  "wp (transitPhaseTo env app phase) Q E w =
    (let t = e_now env (w_calls w @ [CNow]);
         app1 = transited app phase t;
         w1 = w\<lparr>w_calls := w_calls w @ [CNow]\<rparr>;
         w2 = w\<lparr>w_calls := w_calls w @ [CNow, CStatusUpdate app1]\<rparr>
     in if phase = CliAppPhaseLive \<and> PodName app = [] then E ''set Pod name along with phase Live'' w1
        else if \<not> transit_ok app phase then E ''set Image along with phase Live'' w1
        else (case e_statusUpdate env (w_calls w2) of
                Inl err \<Rightarrow> Q (Some err, app1) w2
              | Inr stored \<Rightarrow> Q (None, stored) w2))"
  by (simp add: transitPhaseTo_def transited_def transit_ok_def Let_def split: sum.splits)

text \<open>\<open>groupPods\<close> is three filters and their descriptions.\<close>

lemma foldl_group_pod:
  "foldl group_pod g items =
     \<lparr>g_terminating = g_terminating g @ filter (\<lambda>p. pod_DeletionTimestamp p \<noteq> None) items,
      g_ready = g_ready g @
        filter (\<lambda>p. pod_DeletionTimestamp p = None \<and> IsPodReady p) items,
      g_starting = g_starting g @
        filter (\<lambda>p. pod_DeletionTimestamp p = None \<and> \<not> IsPodReady p) items,
      g_terminatingDesc = g_terminatingDesc g @
        map pod_desc (filter (\<lambda>p. pod_DeletionTimestamp p \<noteq> None) items),
      g_readyDesc = g_readyDesc g @
        map pod_desc (filter (\<lambda>p. pod_DeletionTimestamp p = None \<and> IsPodReady p) items),
      g_startingDesc = g_startingDesc g @
        map pod_desc (filter (\<lambda>p. pod_DeletionTimestamp p = None \<and> \<not> IsPodReady p) items)\<rparr>"
  by (induction items arbitrary: g) (auto simp: group_pod_def)

lemma groupPods_simps [simp]:
  "g_terminating (groupPods items) = filter (\<lambda>p. pod_DeletionTimestamp p \<noteq> None) items"
  "g_ready (groupPods items) = filter (\<lambda>p. pod_DeletionTimestamp p = None \<and> IsPodReady p) items"
  "g_starting (groupPods items) =
     filter (\<lambda>p. pod_DeletionTimestamp p = None \<and> \<not> IsPodReady p) items"
  by (simp_all add: groupPods_def foldl_group_pod)

lemma validateApp_spec: "app_Spec a = app_Spec b \<Longrightarrow> validateApp a = validateApp b"
  by (simp add: validateApp_def)

lemma validateApp_status [simp]: "validateApp (a\<lparr>app_Status := st\<rparr>) = validateApp a"
  by (rule validateApp_spec) simp

lemma validateApp_None_target:
  "validateApp app = None \<Longrightarrow>
     TargetPhase app = CliAppPhaseRest \<or> TargetPhase app = CliAppPhaseLive"
  by (auto simp: validateApp_def Let_def split: if_splits option.splits)

lemma validateApp_None_shell:
  "validateApp app = None \<Longrightarrow> spec_Shell (app_Spec app) \<noteq> [] \<Longrightarrow>
     spec_Shell (app_Spec app) = CliAppShellZsh \<or> spec_Shell (app_Spec app) = CliAppShellBash"
  by (auto simp: validateApp_def ValidateShell_def Let_def split: if_splits option.splits)

end
