(* ===== verification/UrlParse.thy ===== *)
theory UrlParse
  imports GoStrings
begin

text \<open>
  \<open>url.Parse\<close> of package net/url (Go 1.15), as far as the image builder looks at its result: whether it fails, and the scheme. A
  URL is a list of bytes. The parts of the URL are not decoded, but whether they can be is checked in the order of the package.
\<close>

section \<open>Escapes\<close>

definition byte_in :: "char \<Rightarrow> nat \<Rightarrow> nat \<Rightarrow> bool" where
  "byte_in c lo hi \<longleftrightarrow> lo \<le> (of_char c :: nat) \<and> (of_char c :: nat) \<le> hi"

definition is_letter :: "char \<Rightarrow> bool" where
  "is_letter c \<longleftrightarrow> byte_in c 97 122 \<or> byte_in c 65 90"

definition is_decimal :: "char \<Rightarrow> bool" where
  "is_decimal c \<longleftrightarrow> byte_in c 48 57"

definition ishex :: "char \<Rightarrow> bool" where
  "ishex c \<longleftrightarrow> is_decimal c \<or> byte_in c 97 102 \<or> byte_in c 65 70"

definition unhex :: "char \<Rightarrow> nat" where
  "unhex c =
     (if is_decimal c then of_char c - 48 else if byte_in c 97 102 then of_char c - 97 + 10
      else if byte_in c 65 70 then of_char c - 65 + 10 else 0)"

datatype encoding = EncodePath | EncodeHost | EncodeZone | EncodeUserPassword | EncodeFragment

text \<open>\<open>shouldEscape\<close> in a host.\<close>

definition escape_in_host :: "char \<Rightarrow> bool" where
  "escape_in_host c \<longleftrightarrow>
     \<not> (is_letter c \<or> is_decimal c \<or> c \<in> set ''!$&()*+,;=:[]<>-_.~'' \<or> c = CHR 0x27 \<or> c = CHR 0x22)"

text \<open>\<open>unescape\<close> returns no error.\<close>

fun unescape_ok :: "encoding \<Rightarrow> string \<Rightarrow> bool" where
  "unescape_ok mode [] = True"
| "unescape_ok mode (c # s) =
     (if c = CHR ''%'' then
        2 \<le> length s \<and> ishex (s ! 0) \<and> ishex (s ! 1)
        \<and> \<not> (mode = EncodeHost \<and> unhex (s ! 0) < 8 \<and> take 2 s \<noteq> ''25'')
        \<and> \<not> (mode = EncodeZone \<and> take 2 s \<noteq> ''25'' \<and> unhex (s ! 0) * 16 + unhex (s ! 1) \<noteq> 32
             \<and> escape_in_host (char_of (unhex (s ! 0) * 16 + unhex (s ! 1))))
        \<and> unescape_ok mode (drop 2 s)
      else
        \<not> ((mode = EncodeHost \<or> mode = EncodeZone) \<and> (of_char c :: nat) < 128 \<and> escape_in_host c)
        \<and> unescape_ok mode s)"

section \<open>Scheme\<close>

text \<open>
  \<open>getscheme\<close>: the scheme and the rest, or an error; \<open>pre\<close> is what the loop has passed, all of it letters, digits and signs.
\<close>

fun getscheme_loop :: "string \<Rightarrow> string \<Rightarrow> string \<Rightarrow> (string \<times> string) option" where
  "getscheme_loop rawurl pre [] = Some ([], rawurl)"
| "getscheme_loop rawurl pre (c # cs) =
     (if is_letter c then getscheme_loop rawurl (pre @ [c]) cs
      else if is_decimal c \<or> c \<in> set ''+-.'' then
        (if pre = [] then Some ([], rawurl) else getscheme_loop rawurl (pre @ [c]) cs)
      else if c = CHR '':'' then (if pre = [] then None else Some (pre, cs))
      else Some ([], rawurl))"

definition getscheme :: "string \<Rightarrow> (string \<times> string) option" where
  "getscheme rawurl = getscheme_loop rawurl [] rawurl"

section \<open>Authority\<close>

text \<open>What comes before the last \<open>c\<close> of a string that has one, and what comes after it; \<open>before\<close> and \<open>after\<close> are for the first one.\<close>

definition after_last :: "char \<Rightarrow> string \<Rightarrow> string" where
  "after_last c s = rev (takeWhile (\<lambda>x. x \<noteq> c) (rev s))"

definition before_last :: "char \<Rightarrow> string \<Rightarrow> string" where
  "before_last c s = rev (tl (dropWhile (\<lambda>x. x \<noteq> c) (rev s)))"

definition before :: "char \<Rightarrow> string \<Rightarrow> string" where
  "before c s = takeWhile (\<lambda>x. x \<noteq> c) s"

definition after :: "char \<Rightarrow> string \<Rightarrow> string" where
  "after c s = tl (dropWhile (\<lambda>x. x \<noteq> c) s)"

definition validOptionalPort :: "string \<Rightarrow> bool" where
  "validOptionalPort port \<longleftrightarrow> (case port of [] \<Rightarrow> True | c # cs \<Rightarrow> c = CHR '':'' \<and> list_all is_decimal cs)"

text \<open>The index of the first \<open>%25\<close>, where a zone begins.\<close>

fun zone_index :: "string \<Rightarrow> nat option" where
  "zone_index [] = None"
| "zone_index (c # cs) = (if take 3 (c # cs) = ''%25'' then Some 0 else map_option Suc (zone_index cs))"

definition parseHost_ok :: "string \<Rightarrow> bool" where
  "parseHost_ok host \<longleftrightarrow>
     (if take 1 host = ''['' then
        CHR '']'' \<in> set host \<and> validOptionalPort (after_last CHR '']'' host)
        \<and> (case zone_index (before_last CHR '']'' host) of
             Some z \<Rightarrow>
               let i = length (before_last CHR '']'' host)
               in unescape_ok EncodeHost (take z host) \<and> unescape_ok EncodeZone (drop z (take i host))
                \<and> unescape_ok EncodeHost (drop i host)
           | None \<Rightarrow> unescape_ok EncodeHost host)
      else
        (CHR '':'' \<in> set host \<longrightarrow> validOptionalPort (CHR '':'' # after_last CHR '':'' host))
        \<and> unescape_ok EncodeHost host)"

definition validUserinfo :: "string \<Rightarrow> bool" where
  "validUserinfo s = list_all (\<lambda>c. is_letter c \<or> is_decimal c \<or> c \<in> set ''-._:~!$&()*+,;=%@'' \<or> c = CHR 0x27) s"

definition parseAuthority_ok :: "string \<Rightarrow> bool" where
  "parseAuthority_ok authority \<longleftrightarrow>
     (if CHR ''@'' \<notin> set authority then parseHost_ok authority
      else
        let userinfo = before_last CHR ''@'' authority
        in parseHost_ok (after_last CHR ''@'' authority) \<and> validUserinfo userinfo
         \<and> (if CHR '':'' \<notin> set userinfo then unescape_ok EncodeUserPassword userinfo
            else unescape_ok EncodeUserPassword (before CHR '':'' userinfo)
               \<and> unescape_ok EncodeUserPassword (after CHR '':'' userinfo)))"

section \<open>Parse\<close>

text \<open>\<open>parse\<close> of a URL without its fragment; both ways in which it cuts the query off leave what is before the first question mark.\<close>

definition has_control :: "string \<Rightarrow> bool" where
  "has_control s \<longleftrightarrow> list_ex (\<lambda>c. (of_char c :: nat) < 32 \<or> (of_char c :: nat) = 127) s"

definition parse_url :: "string \<Rightarrow> string option" where
  "parse_url rawurl =
     (if has_control rawurl then None
      else if rawurl = ''*'' then Some []
      else
        (case getscheme rawurl of
           None \<Rightarrow> None
         | Some (raw_scheme, rest) \<Rightarrow>
             let scheme = ToLower raw_scheme;
                 rest = before CHR ''?'' rest
             in if take 1 rest \<noteq> ''/'' \<and> scheme \<noteq> [] then Some scheme
                else if take 1 rest \<noteq> ''/'' \<and> CHR '':'' \<in> set (before CHR ''/'' rest) then None
                else if (scheme \<noteq> [] \<or> take 3 rest \<noteq> ''///'') \<and> take 2 rest = ''//'' then
                  let authority = before CHR ''/'' (drop 2 rest);
                      rest = drop (length authority) (drop 2 rest)
                  in if parseAuthority_ok authority \<and> unescape_ok EncodePath rest then Some scheme else None
                else if unescape_ok EncodePath rest then Some scheme else None))"

text \<open>\<open>url.Parse\<close>: the scheme, or \<open>None\<close> for an error.\<close>

definition url_Parse :: "string \<Rightarrow> string option" where
  "url_Parse rawurl =
     (case parse_url (before CHR ''#'' rawurl) of
        None \<Rightarrow> None
      | Some scheme \<Rightarrow>
          let frag = after CHR ''#'' rawurl
          in if frag = [] \<or> unescape_ok EncodeFragment frag then Some scheme else None)"

section \<open>Properties\<close>

lemma parse_examples:
  "url_Parse ''http://example.com:8080/a%20b?q#f'' = Some ''http''"
  "url_Parse ''HTTPS://user:pw@[fe80::1%25en0]:443/'' = Some ''https''"
  "url_Parse ''http://exa mple.com/'' = None"
  "url_Parse ''http://example.com/%zz'' = None"
  "url_Parse ''mailto:me@example.com'' = Some ''mailto''"
  "url_Parse ''http://[::1'' = None"
  "url_Parse ''http://a:b/'' = None"
  "url_Parse '':'' = None"
  by code_simp+

lemma unescape_plain: "CHR ''%'' \<notin> set s \<Longrightarrow> mode \<notin> {EncodeHost, EncodeZone} \<Longrightarrow> unescape_ok mode s"
  by (induction s) auto

lemma before_id: "c \<notin> set s \<Longrightarrow> before c s = s"
  unfolding before_def by (rule takeWhile_eq_all_conv [THEN iffD2]) auto

lemma after_none: "c \<notin> set s \<Longrightarrow> after c s = []"
  unfolding after_def by (induction s) auto

lemma set_before: "set (before c s) \<subseteq> set s"
  by (auto simp: before_def dest: set_takeWhileD)

lemma getscheme_no_colon: "CHR '':'' \<notin> set s \<Longrightarrow> getscheme_loop rawurl pre s = Some ([], rawurl)"
  by (induction s arbitrary: pre) auto

text \<open>A control character before any \<open>#\<close> is an error.\<close>

lemma Parse_control: "has_control (before CHR ''#'' s) \<Longrightarrow> url_Parse s = None"
  by (simp add: url_Parse_def parse_url_def)

text \<open>What comes after a leading \<open>#\<close> is a fragment, whatever it is, as long as no per cent sign makes it a wrong escape.\<close>

lemma Parse_comment: "CHR ''%'' \<notin> set s \<Longrightarrow> url_Parse (CHR ''#'' # s) = Some []"
  by (simp add: url_Parse_def parse_url_def before_def after_def has_control_def getscheme_def ToLower_def unescape_plain)

text \<open>A line without colon, per cent sign and \<open>#\<close> is a relative path: no error and no scheme.\<close>

lemma Parse_line:
  assumes "set s \<inter> set '':#%'' = {}" and "\<not> has_control s" and "take 2 s \<noteq> ''//''"
  shows "url_Parse s = Some []"
proof -
  have plain: "CHR '':'' \<notin> set s" "CHR ''#'' \<notin> set s" "CHR ''%'' \<notin> set s" using assms(1) by auto
  have "take 2 (before CHR ''?'' s) \<noteq> ''//''"
  proof
    assume "take 2 (before CHR ''?'' s) = ''//''"
    then have "take 2 s = ''//''"
      by (cases s; cases "tl s") (auto simp: before_def numeral_2_eq_2 split: if_splits)
    with assms(3) show False by simp
  qed
  moreover have "CHR '':'' \<notin> set (before CHR ''/'' (before CHR ''?'' s))" "CHR ''%'' \<notin> set (before CHR ''?'' s)"
    using plain set_before [of "CHR ''?''" s] set_before [of "CHR ''/''" "before CHR ''?'' s"] by auto
  ultimately have "parse_url s = Some []"
    using assms(2) plain by (simp add: parse_url_def getscheme_def getscheme_no_colon ToLower_def unescape_plain Let_def)
  with plain show ?thesis by (simp add: url_Parse_def before_id after_none)
qed

end
