(* ===== verification/Builder.thy ===== *)
theory Builder
  imports Cluster UrlParse
begin

text \<open>
  controllers/cliapp_build.go: the image builder. The reconciler polls it with \<open>testImage\<close> and stops
  it with \<open>cancel\<close>; each build runs in a goroutine of its own (\<open>start\<close>). A build is a context in the
  store; the builder's map holds the address of the last build of each app. No lock protects a context: the goroutine writes its error, then
  \<open>Done\<close>, then cancels it, and the reconciler reads and cancels it at any time. \<open>builder_step\<close> interleaves the reconciler's calls with these writes, each a step of its own.
\<close>

section \<open>The operations\<close>

definition underBuild :: goerror where
  "underBuild = Errorf ''image is under build''"

text \<open>
  \<open>InitImageBuilderOrDie\<close>: \<open>buildkit.New\<close> answers \<open>dial\<close>; the answer of \<open>ListWorkers\<close> is assigned
  and not looked at.
\<close>

definition InitImageBuilderOrDie ::
  "string \<Rightarrow> goerror option \<Rightarrow> goerror option \<Rightarrow> ImageBuilder outcome" where
  "InitImageBuilderOrDie endpoint dial workers =
     (if length endpoint = 0 then
        Done \<lparr>ib_appMap = None, ib_store = Map.empty, ib_next = 0, ib_running = Map.empty\<rparr>
      else case dial of
        Some err \<Rightarrow> Panic (ErrorText err)
      | None \<Rightarrow> Done \<lparr>ib_appMap = Some Map.empty, ib_store = Map.empty, ib_next = 0, ib_running = Map.empty\<rparr>)"

definition build_image_name :: "string \<Rightarrow> string" where
  "build_image_name name = ''docker.io/warmmetal/'' @ name @ '':v1''"

definition finish :: "goerror option \<Rightarrow> imageBuilderContext \<Rightarrow> imageBuilderContext" where
  "finish err b = b\<lparr>bc_Error := err, bc_Done := True\<rparr>"

definition fallback :: "imageBuilderContext \<Rightarrow> imageBuilderContext" where
  "fallback b = b\<lparr>bc_Cancelled := True\<rparr>"

definition base_SolveOpt :: "imageBuilderContext \<Rightarrow> SolveOpt" where
  "base_SolveOpt b =
     \<lparr>so_Frontend = ''dockerfile.v0'', so_FrontendAttrs = Map.empty, so_LocalDirs = None,
      so_ExportImage = bc_Image b\<rparr>"

text \<open>The error with which the body of \<open>start\<close> calls \<open>finish\<close>, on each of its ways.\<close>

definition solve :: "build_env \<Rightarrow> SolveOpt \<Rightarrow> imageBuilderContext \<Rightarrow> goerror option" where
  "solve be opt b =
     (case be_solve be (bc_Cancelled b) opt of Some err \<Rightarrow> Some (Errorf (ErrorText err)) | None \<Rightarrow> None)"

definition start_body :: "build_env \<Rightarrow> imageBuilderContext \<Rightarrow> goerror option" where
  "start_body be b =
     (let opt = base_SolveOpt b in
      case url_Parse (bc_Dockerfile b) of
        None \<Rightarrow>
          (let dockerfile = bc_Name b @ ''.dockerfile'' in
           case be_writeFile be dockerfile (bc_Dockerfile b) of
             Some err \<Rightarrow> Some err
           | None \<Rightarrow>
               solve be
                 (opt\<lparr>so_FrontendAttrs := (so_FrontendAttrs opt)(''filename'' \<mapsto> dockerfile),
                      so_LocalDirs := Some [''context'' \<mapsto> ''.'', ''dockerfile'' \<mapsto> ''.'']\<rparr>) b)
      | Some scheme \<Rightarrow>
          (if scheme = ''http'' \<or> scheme = ''https'' then
             solve be
               (opt\<lparr>so_FrontendAttrs := (so_FrontendAttrs opt)(''context'' \<mapsto> bc_Dockerfile b)\<rparr>) b
           else Some (Errorf ''invalid dockerfile'')))"

text \<open>The goroutine as a whole, if nothing comes between: the deferred \<open>b.cancel()\<close> runs last.\<close>

definition start :: "build_env \<Rightarrow> imageBuilderContext \<Rightarrow> imageBuilderContext" where
  "start be b = fallback (finish (start_body be b) b)"

text \<open>And step by step: \<open>Solve\<close> has returned, and \<open>finish\<close> sets the error; it sets \<open>Done\<close>; the context is cancelled and the goroutine is over.\<close>

definition goroutine_step :: "build_env \<Rightarrow> nat \<Rightarrow> ImageBuilder \<Rightarrow> ImageBuilder" where
  "goroutine_step be a b =
     (case ib_store b a of
        None \<Rightarrow> b
      | Some c \<Rightarrow>
          (case ib_running b a of
             None \<Rightarrow> b
           | Some Working \<Rightarrow>
               b\<lparr>ib_store := (ib_store b)(a \<mapsto> c\<lparr>bc_Error := start_body be c\<rparr>), ib_running := (ib_running b)(a \<mapsto> ErrorSet)\<rparr>
           | Some ErrorSet \<Rightarrow>
               b\<lparr>ib_store := (ib_store b)(a \<mapsto> c\<lparr>bc_Done := True\<rparr>), ib_running := (ib_running b)(a \<mapsto> DoneSet)\<rparr>
           | Some DoneSet \<Rightarrow>
               b\<lparr>ib_store := (ib_store b)(a \<mapsto> fallback c), ib_running := (ib_running b)(a := None)\<rparr>))"

text \<open>The address and the context that the map holds for an app, if any.\<close>

definition lookup_build :: "ImageBuilder \<Rightarrow> string \<Rightarrow> (nat \<times> imageBuilderContext) option" where
  "lookup_build b name =
     (case ib_appMap b of
        None \<Rightarrow> None
      | Some m \<Rightarrow>
          (case m name of
             None \<Rightarrow> None
           | Some a \<Rightarrow> (case ib_store b a of None \<Rightarrow> None | Some c \<Rightarrow> Some (a, c))))"

definition new_build :: "string \<Rightarrow> string \<Rightarrow> imageBuilderContext" where
  "new_build name dockerfile =
     \<lparr>bc_Cancelled = False, bc_Name = name, bc_Dockerfile = dockerfile,
      bc_Image = build_image_name name, bc_Error = Some underBuild, bc_Done = False\<rparr>"

text \<open>
  \<open>b.appMap[app.Name] = ctx; go ctx.start()\<close>: a new context, its address in the map and its
  goroutine running. Storing into a nil map panics.
\<close>

definition begin_build :: "imageBuilderContext \<Rightarrow> (ImageBuilder, nat) go" where
  "begin_build c =
     (\<lambda>b. case ib_appMap b of
            None \<Rightarrow> (Panic ''assignment to entry in nil map'', b)
          | Some m \<Rightarrow>
              (Done (ib_next b),
               b\<lparr>ib_appMap := Some (m(bc_Name c \<mapsto> ib_next b)),
                 ib_store := (ib_store b)(ib_next b \<mapsto> c),
                 ib_running := (ib_running b)(ib_next b \<mapsto> Working),
                 ib_next := Suc (ib_next b)\<rparr>))"

text \<open>
  \<open>return ctx.Image, ctx.Error\<close>, which races with the new goroutine: by then this may have set the error (\<open>early\<close>). What else it may have
  done by then does not change what is read.
\<close>

definition read_new_build :: "build_env option \<Rightarrow> nat \<Rightarrow> (ImageBuilder, string \<times> goerror option) go" where
  "read_new_build early a =
     (\<lambda>b. let b = (case early of None \<Rightarrow> b | Some be \<Rightarrow> goroutine_step be a b)
          in (case ib_store b a of
                None \<Rightarrow> (Panic ''nil pointer dereference'', b)
              | Some ctx \<Rightarrow> (Done (bc_Image ctx, bc_Error ctx), b)))"

definition testImage ::
  "build_env option \<Rightarrow> string \<Rightarrow> string \<Rightarrow> (ImageBuilder, string \<times> goerror option) go" where
  "testImage early name dockerfile =
     (\<lambda>b. let build = bnd (begin_build (new_build name dockerfile)) (read_new_build early)
          in case lookup_build b name of
               Some (a, ctx) \<Rightarrow> if bc_Done ctx then (Done (bc_Image ctx, bc_Error ctx), b) else build b
             | None \<Rightarrow> build b)"

definition cancel :: "string \<Rightarrow> ImageBuilder \<Rightarrow> ImageBuilder" where
  "cancel name b =
     (case lookup_build b name of
        None \<Rightarrow> b
      | Some (a, ctx) \<Rightarrow>
          b\<lparr>ib_store := (ib_store b)(a \<mapsto> fallback ctx),
            ib_appMap := map_option (\<lambda>m. m(name := None)) (ib_appMap b)\<rparr>)"

section \<open>Interleaving with the goroutines\<close>

inductive builder_step :: "ImageBuilder \<Rightarrow> ImageBuilder \<Rightarrow> bool" where
  poll: "testImage early name dockerfile b = (r, b') \<Longrightarrow> builder_step b b'"
| stop: "builder_step b (cancel name b)"
| goroutine: "ib_running b a \<noteq> None \<Longrightarrow> builder_step b (goroutine_step be a b)"

inductive_cases builder_stepE: "builder_step b b'"

definition builder_init :: "ImageBuilder \<Rightarrow> bool" where
  "builder_init b \<longleftrightarrow>
     (\<exists>endpoint dial workers. InitImageBuilderOrDie endpoint dial workers = Done b)"

section \<open>Properties\<close>

text \<open>
  The builder is well formed when every address in the map belongs to a context of that app in the
  store, the goroutines belong to contexts, and each context says what its goroutine has done.
\<close>

definition context_ok :: "imageBuilderContext \<Rightarrow> build_stage option \<Rightarrow> bool" where
  "context_ok c st \<longleftrightarrow>
     bc_Image c = build_image_name (bc_Name c)
   \<and> (bc_Done c \<longleftrightarrow> st \<in> {None, Some DoneSet})
   \<and> (st = Some Working \<longrightarrow> bc_Error c = Some underBuild)
   \<and> (st = None \<longrightarrow> bc_Cancelled c)"

definition builder_inv :: "ImageBuilder \<Rightarrow> bool" where
  "builder_inv b \<longleftrightarrow>
     (\<forall>m n a. ib_appMap b = Some m \<longrightarrow> m n = Some a \<longrightarrow>
        (\<exists>c. ib_store b a = Some c \<and> bc_Name c = n))
   \<and> (\<forall>a c. ib_store b a = Some c \<longrightarrow> a < ib_next b \<and> context_ok c (ib_running b a))
   \<and> (\<forall>a. ib_running b a \<noteq> None \<longrightarrow> ib_store b a \<noteq> None)"

lemma builder_invI:
  assumes "\<And>m n a. ib_appMap b = Some m \<Longrightarrow> m n = Some a \<Longrightarrow>
        (\<exists>c. ib_store b a = Some c \<and> bc_Name c = n)"
    and "\<And>a c. ib_store b a = Some c \<Longrightarrow> a < ib_next b \<and> context_ok c (ib_running b a)"
    and "\<And>a. ib_running b a \<noteq> None \<Longrightarrow> ib_store b a \<noteq> None"
  shows "builder_inv b"
  using assms by (simp add: builder_inv_def)

lemma builder_inv_map:
  "builder_inv b \<Longrightarrow> ib_appMap b = Some m \<Longrightarrow> m n = Some a \<Longrightarrow>
     \<exists>c. ib_store b a = Some c \<and> bc_Name c = n"
  by (simp add: builder_inv_def)

lemma builder_inv_ctx:
  "builder_inv b \<Longrightarrow> ib_store b a = Some c \<Longrightarrow> a < ib_next b \<and> context_ok c (ib_running b a)"
  by (simp add: builder_inv_def)

lemma builder_inv_running: "builder_inv b \<Longrightarrow> ib_running b a \<noteq> None \<Longrightarrow> ib_store b a \<noteq> None"
  unfolding builder_inv_def by blast

lemma start_simps [simp]:
  "bc_Done (start be b)"
  "bc_Cancelled (start be b)"
  "bc_Error (start be b) = start_body be b"
  "bc_Name (start be b) = bc_Name b"
  "bc_Image (start be b) = bc_Image b"
  "bc_Dockerfile (start be b) = bc_Dockerfile b"
  by (simp_all add: start_def finish_def fallback_def)

text \<open>The steps of a goroutine that is left alone add up to \<open>start\<close>.\<close>

lemma goroutine_alone:
  assumes "ib_store b a = Some c" and "ib_running b a = Some Working"
  shows "goroutine_step be3 a (goroutine_step be2 a (goroutine_step be a b)) =
    b\<lparr>ib_store := (ib_store b)(a \<mapsto> start be c), ib_running := (ib_running b)(a := None)\<rparr>"
  using assms by (simp add: goroutine_step_def start_def finish_def)

lemma builder_init_inv: "builder_init b \<Longrightarrow> builder_inv b"
  by (auto simp: builder_init_def builder_inv_def InitImageBuilderOrDie_def split: if_splits option.splits)

lemma lookup_build_Some:
  "lookup_build b name = Some (a, c) \<longleftrightarrow>
     (\<exists>m. ib_appMap b = Some m \<and> m name = Some a \<and> ib_store b a = Some c)"
  by (auto simp: lookup_build_def split: option.splits)

lemma goroutine_step_simps [simp]:
  "ib_appMap (goroutine_step be a b) = ib_appMap b"
  "ib_next (goroutine_step be a b) = ib_next b"
  by (simp_all add: goroutine_step_def split: option.split build_stage.split)

text \<open>What a poll does, in the three situations the builder can be in.\<close>

definition with_new_build :: "(string \<rightharpoonup> nat) \<Rightarrow> string \<Rightarrow> string \<Rightarrow> ImageBuilder \<Rightarrow> ImageBuilder" where
  "with_new_build m name d b =
     b\<lparr>ib_appMap := Some (m(name \<mapsto> ib_next b)),
       ib_store := (ib_store b)(ib_next b \<mapsto> new_build name d),
       ib_running := (ib_running b)(ib_next b \<mapsto> Working),
       ib_next := Suc (ib_next b)\<rparr>"

definition early_steps :: "build_env option \<Rightarrow> nat \<Rightarrow> ImageBuilder \<Rightarrow> ImageBuilder" where
  "early_steps early a b = (case early of None \<Rightarrow> b | Some be \<Rightarrow> goroutine_step be a b)"

lemma new_build_simps [simp]:
  "ib_appMap (with_new_build m name d b) = Some (m(name \<mapsto> ib_next b))"
  "ib_appMap (early_steps early a b) = ib_appMap b"
  by (simp_all add: with_new_build_def early_steps_def split: option.split)

text \<open>The error that a poll reads of the build that it started.\<close>

definition early_error :: "build_env option \<Rightarrow> string \<Rightarrow> string \<Rightarrow> goerror option" where
  "early_error early name d = (case early of None \<Rightarrow> Some underBuild | Some be \<Rightarrow> start_body be (new_build name d))"

lemma testImage_done:
  "lookup_build b name = Some (a, c) \<Longrightarrow> bc_Done c \<Longrightarrow>
     testImage early name d b = (Done (bc_Image c, bc_Error c), b)"
  by (simp add: testImage_def)

lemma testImage_cases:
  obtains (finished) a c where "lookup_build b name = Some (a, c)" "bc_Done c"
      "testImage early name d b = (Done (bc_Image c, bc_Error c), b)"
  | (nil_map) "ib_appMap b = None"
      "testImage early name d b = (Panic ''assignment to entry in nil map'', b)"
  | (started) m where "ib_appMap b = Some m"
      "\<And>a c. lookup_build b name = Some (a, c) \<Longrightarrow> \<not> bc_Done c"
      "testImage early name d b =
         (Done (build_image_name name, early_error early name d), early_steps early (ib_next b) (with_new_build m name d b))"
proof (cases "\<exists>a c. lookup_build b name = Some (a, c) \<and> bc_Done c")
  case True
  then show thesis using finished testImage_done by blast
next
  case False
  then have t: "testImage early name d b = bnd (begin_build (new_build name d)) (read_new_build early) b"
    by (auto simp: testImage_def Let_def split: option.splits)
  show thesis
  proof (cases "ib_appMap b")
    case None
    then show thesis using nil_map t by (simp add: bnd_def begin_build_def)
  next
    case (Some m)
    then have "testImage early name d b =
        (Done (build_image_name name, early_error early name d), early_steps early (ib_next b) (with_new_build m name d b))"
      unfolding t
      by (simp add: bnd_def begin_build_def read_new_build_def new_build_def with_new_build_def early_steps_def early_error_def
          goroutine_step_def Let_def split: option.split)
    then show thesis using started [OF Some] False by blast
  qed
qed

lemma with_new_build_inv:
  assumes inv: "builder_inv b" and m: "ib_appMap b = Some m"
  shows "builder_inv (with_new_build m name d b)"
proof (rule builder_invI, goal_cases)
  case (1 m' n a)
  with m builder_inv_map [OF inv m] builder_inv_ctx [OF inv, of a] show ?case
    by (fastforce simp: with_new_build_def new_build_def split: if_splits)
next
  case (2 a c)
  with builder_inv_ctx [OF inv, of a] show ?case
    by (auto simp: with_new_build_def new_build_def context_ok_def split: if_splits)
next
  case (3 a)
  with builder_inv_running [OF inv, of a] show ?case by (auto simp: with_new_build_def split: if_splits)
qed

lemma goroutine_step_inv:
  assumes inv: "builder_inv b"
  shows "builder_inv (goroutine_step be a b)"
proof (cases "ib_store b a")
  case (Some c)
  show ?thesis
  proof (cases "ib_running b a")
    case st: (Some st)
    have c: "a < ib_next b \<and> context_ok c (Some st)" using builder_inv_ctx [OF inv Some] st by simp
    show ?thesis
    proof (rule builder_invI, goal_cases)
      case (1 m n a')
      with builder_inv_map [OF inv, of m n a'] Some st show ?case
        by (cases st) (auto simp: goroutine_step_def fallback_def)
    next
      case (2 a' c')
      with builder_inv_ctx [OF inv, of a' c'] c Some st show ?case
        by (cases st) (auto simp: goroutine_step_def fallback_def context_ok_def split: if_splits)
    next
      case (3 a')
      with builder_inv_running [OF inv, of a'] Some st show ?case
        by (cases st) (auto simp: goroutine_step_def split: if_splits)
    qed
  qed (use inv in \<open>simp add: goroutine_step_def Some\<close>)
qed (use inv in \<open>simp add: goroutine_step_def\<close>)

lemma testImage_inv: "builder_inv b \<Longrightarrow> testImage early name d b = (r, b') \<Longrightarrow> builder_inv b'"
proof (cases rule: testImage_cases [of b name early d])
  case (started m)
  assume inv: "builder_inv b" and r: "testImage early name d b = (r, b')"
  with started have "b' = early_steps early (ib_next b) (with_new_build m name d b)" by simp
  moreover have "builder_inv (with_new_build m name d b)" by (rule with_new_build_inv [OF inv started(1)])
  ultimately show "builder_inv b'" by (auto simp: early_steps_def intro: goroutine_step_inv split: option.split)
qed auto

lemma cancel_inv:
  assumes inv: "builder_inv b"
  shows "builder_inv (cancel name b)"
proof (cases "lookup_build b name")
  case None
  with inv show ?thesis by (simp add: cancel_def)
next
  case (Some r)
  then obtain a c m where r: "r = (a, c)" and m: "ib_appMap b = Some m" "m name = Some a"
    and c: "ib_store b a = Some c"
    by (cases r) (auto simp: lookup_build_Some)
  from inv have "builder_inv (b\<lparr>ib_store := (ib_store b)(a \<mapsto> fallback c),
      ib_appMap := Some (m(name := None))\<rparr>)"
    using m c
    by (intro builder_invI)
      (fastforce simp: fallback_def context_ok_def dest: builder_inv_map builder_inv_ctx builder_inv_running
        split: if_splits)+
  with Some r m show ?thesis by (simp add: cancel_def)
qed

interpretation builder: kept_invariant builder_init builder_step builder_inv
proof
  show "builder_inv s" if "builder_init s" for s
    using that by (rule builder_init_inv)
  show "builder_inv t" if "builder_inv s" "builder_step s t" for s t
    using that(2,1) by (auto elim!: builder_stepE intro: testImage_inv cancel_inv goroutine_step_inv)
qed

end
