(* ===== verification/Rest.thy ===== *)
theory Rest
  imports Common Builder
begin

text \<open>
  controllers/cliapp_rest.go: \<open>makeAppRest\<close>, the handler of an app whose target phase is Rest.
\<close>

definition DefaultRequeueDuration :: dur where [simp]: "DefaultRequeueDuration = 5 * Second"

text \<open>Running a builder operation on the world's builder.\<close>

definition with_builder :: "(ImageBuilder, 'a) go \<Rightarrow> (world, 'a) go" where
  "with_builder m = (\<lambda>w. case m (w_builder w) of (r, b) \<Rightarrow> (r, w\<lparr>w_builder := b\<rparr>))"

definition builder_cancel :: "string \<Rightarrow> (world, unit) go" where
  "builder_cancel name = with_builder (\<lambda>b. (Done (), cancel name b))"

text \<open>The loop that deletes the pods; \<open>err\<close> is the error of the last deletion.\<close>

definition delete_pods :: "env \<Rightarrow> Pod list \<Rightarrow> goerror option \<Rightarrow> (world, goerror option) go" where
  "delete_pods env pods err = for_each pods err (\<lambda>pod _. ask (CDeletePod pod) (e_deletePod env))"

definition shut_down ::
  "env \<Rightarrow> CliApp \<Rightarrow> Result \<Rightarrow> (world, Result \<times> goerror option \<times> CliApp) go" where
  "shut_down env app result =
     bnd (ask (CListPods (app_Namespace app) (app_Name app)) (e_listPods env)) (\<lambda>resp.
     case resp of
       Inl err \<Rightarrow> ret (result, Some err, app)
     | Inr items \<Rightarrow>
         if length items = 0 then
           (if spec_UninstallUnlessLive (app_Spec app) then
              bnd (ask (CDeleteApp app) (e_deleteApp env)) (\<lambda>err. ret (result, err, app))
            else
              bnd (transitPhaseTo env app CliAppPhaseRest) (\<lambda>(err, app). ret (result, err, app)))
         else
           let result = result\<lparr>res_RequeueAfter := DefaultRequeueDuration\<rparr>;
               groups = groupPods items
           in if length (g_terminating groups) > 0 then ret (result, None, app)
              else bnd (delete_pods env (g_ready groups @ g_starting groups) None) (\<lambda>err.
                   ret (result, err, app)))"

definition makeAppRest ::
  "env \<Rightarrow> CliAppReconciler \<Rightarrow> CliApp \<Rightarrow> (world, Result \<times> goerror option \<times> CliApp) go" where
  "makeAppRest env r app =
     (let result = zero_Result;
          to_shutting_down =
            bnd (transitPhaseTo env app CliAppPhaseShuttingDown) (\<lambda>(err, app).
            ret (result\<lparr>res_Requeue := True\<rparr>, err, app))
      in
      if TargetPhase app \<noteq> CliAppPhaseRest then throw (app_Name app)
      else if Phase app = CliAppPhaseLive then
        (let result = result\<lparr>res_Requeue := True\<rparr>
         in if \<not> spec_UninstallUnlessLive (app_Spec app) then
              bnd (transitPhaseTo env app CliAppPhaseWaitingForSessions) (\<lambda>(err, app).
              ret (result\<lparr>res_RequeueAfter := r_DurationIdleLiveLasts r\<rparr>, err, app))
            else
              bnd (transitPhaseTo env (set_PodName [] app) CliAppPhaseShuttingDown) (\<lambda>(err, app).
              ret (result, err, app)))
      else if Phase app = CliAppPhaseWaitingForSessions then
        bnd (ask CNow (e_now env)) (\<lambda>now.
        let elapse = time_sub now (status_LastPhaseTransition (app_Status app))
        in if dur_less elapse (r_DurationIdleLiveLasts r) then
             ret (result\<lparr>res_RequeueAfter := r_DurationIdleLiveLasts r - elapse\<rparr>, None, app)
           else to_shutting_down)
      else if Phase app = [] \<or> Phase app = CliAppPhaseRecovering then to_shutting_down
      else if Phase app = CliAppPhaseShuttingDown then shut_down env app result
      else if Phase app = CliAppPhaseBuilding then
        bnd (builder_cancel (app_Name app)) (\<lambda>_.
        bnd (transitPhaseTo env app CliAppPhaseShuttingDown) (\<lambda>(err, app).
        ret (if err = None then result\<lparr>res_Requeue := True\<rparr> else result, err, app)))
      else throw (Phase app))"

section \<open>Weakest preconditions of the parts\<close>

lemma wp_with_builder [wp_simps, simp]:
  "wp (with_builder m) Q E w =
     wp m (\<lambda>x b. Q x (w\<lparr>w_builder := b\<rparr>)) (\<lambda>p b. E p (w\<lparr>w_builder := b\<rparr>)) (w_builder w)"
  by (simp add: wp_def with_builder_def split: prod.splits outcome.splits)

lemma wp_builder_cancel [wp_simps, simp]:
  "wp (builder_cancel name) Q E w = Q () (w\<lparr>w_builder := cancel name (w_builder w)\<rparr>)"
  unfolding builder_cancel_def wp_with_builder by (simp add: wp_def)

text \<open>The deletions are the calls for the pods, in order; nothing else changes.\<close>

lemma delete_pods_calls:
  "\<exists>err'. delete_pods env pods err w =
     (Done err', w\<lparr>w_calls := w_calls w @ map CDeletePod pods\<rparr>) \<and> (pods = [] \<longrightarrow> err' = err)"
proof (induction pods arbitrary: err w)
  case Nil
  then show ?case by (simp add: delete_pods_def ret_def)
next
  case (Cons p ps)
  let ?w = "w\<lparr>w_calls := w_calls w @ [CDeletePod p]\<rparr>"
  from Cons [of "e_deletePod env (w_calls ?w)" ?w] show ?case
    by (auto simp: delete_pods_def bnd_def ask_def Let_def)
qed

lemma wp_delete_pods:
  assumes "\<And>err'. Q err' (w\<lparr>w_calls := w_calls w @ map CDeletePod pods\<rparr>)"
  shows "wp (delete_pods env pods err) Q E w"
proof -
  obtain err' where "delete_pods env pods err w =
     (Done err', w\<lparr>w_calls := w_calls w @ map CDeletePod pods\<rparr>)"
    using delete_pods_calls by blast
  with assms show ?thesis by (simp add: wp_def)
qed

end
