(* ===== verification/Fork.thy ===== *)
theory Fork
  imports Common
begin

text \<open>
  controllers/cliapp_fork.go: \<open>fetchForkTargetPod\<close>, which turns the workload that an app forks into
  a pod manifest and picks the container that becomes the app's workspace.
\<close>

section \<open>Which API fetches the workload\<close>

text \<open>
  The \<open>switch\<close> on kind and group: the API to ask, a panic for an unexpected group, or the error
  for a kind that is not supported. \<open>"extensions"\<close>, \<open>"apps"\<close>, \<open>"batch"\<close> and the empty string are the
  group names of the API packages.
\<close>

datatype dispatch = Fetch WorkloadApi | PanicOnGroup | Unsupported

definition workload_dispatch :: "GroupKind \<Rightarrow> dispatch" where
  "workload_dispatch gk =
     (let k = gk_Kind gk; g = gk_Group gk in
      if k = ''Deployment'' then
        (if g = ''extensions'' then Fetch ExtV1beta1Deployments
         else if g = ''apps'' then Fetch AppsV1Deployments else PanicOnGroup)
      else if k = ''StatefulSet'' then
        (if g \<noteq> ''apps'' then PanicOnGroup else Fetch AppsV1StatefulSets)
      else if k = ''Job'' then (if g \<noteq> ''batch'' then PanicOnGroup else Fetch BatchV1Jobs)
      else if k = ''CronJob'' then (if g \<noteq> ''batch'' then PanicOnGroup else Fetch BatchV1beta1CronJobs)
      else if k = ''DaemonSet'' then
        (if g = ''extensions'' then Fetch ExtV1beta1DaemonSets
         else if g = ''apps'' then Fetch AppsV1DaemonSets else PanicOnGroup)
      else if k = ''ReplicaSet'' then
        (if g = ''extensions'' then Fetch ExtV1beta1ReplicaSets
         else if g = ''apps'' then Fetch AppsV1ReplicaSets else PanicOnGroup)
      else if k = ''Pod'' then (if g \<noteq> '''' then PanicOnGroup else Fetch CoreV1Pods)
      else Unsupported)"

text \<open>\<open>%s\<close> of a nil error.\<close>

definition nil_text :: string where
  "nil_text = ''%!s(<nil>)''"

text \<open>The CronJob branch prints \<open>err\<close>, which is nil there, the others the error of the call.\<close>

definition fetch_failed :: "WorkloadApi \<Rightarrow> ResourceInfo \<Rightarrow> goerror \<Rightarrow> goerror" where
  "fetch_failed api info failed =
     Errorf (''unable to fetch '' @ info_GVKText info @ ''/'' @ info_Name info @ '': '' @
       (if api = BatchV1beta1CronJobs then nil_text else ErrorText failed))"

section \<open>From the template to the pod\<close>

definition strip_probes :: "Container \<Rightarrow> Container" where
  "strip_probes c =
     c\<lparr>c_StartupProbe := None, c_LivenessProbe := None, c_ReadinessProbe := None\<rparr>"

definition fork_pod :: "ForkObject \<Rightarrow> PodSpec \<Rightarrow> labels option \<Rightarrow> Pod" where
  "fork_pod fork tmpl lbls =
     (let spec = tmpl\<lparr>ps_Containers := map strip_probes (ps_Containers tmpl)\<rparr>;
          pod = zero_Pod\<lparr>pod_Spec := spec\<rparr>
      in if fork_WithEnvs fork then pod\<lparr>pod_Labels := lbls\<rparr> else pod)"

text \<open>The loop over the containers: the first index with the name, from \<open>i\<close> on.\<close>

fun container_index :: "nat \<Rightarrow> Container list \<Rightarrow> string \<Rightarrow> nat option" where
  "container_index i [] name = None"
| "container_index i (c # cs) name =
     (if c_Name c = name then Some i else container_index (Suc i) cs name)"

definition select_target :: "ForkObject \<Rightarrow> Pod \<Rightarrow> goerror + nat" where
  "select_target fork pod =
     (let cs = ps_Containers (pod_Spec pod) in
      if length (fork_Container fork) > 1 then
        (case container_index 0 cs (fork_Container fork) of
           None \<Rightarrow> Inl (Errorf (''container '' @ fork_Container fork @ '' doesn't found in '' @ fork_Object fork))
         | Some i \<Rightarrow> Inr i)
      else if length cs > 1 then
        Inl (Errorf (fork_Object fork @ '' has more than 1 container. Specify one of ['' @
               join_with '' '' (map c_Name cs) @ '']''))
      else Inr 0)"

section \<open>fetchForkTargetPod\<close>

definition fetch_workload ::
  "env \<Rightarrow> ResourceInfo \<Rightarrow> ForkObject \<Rightarrow> (world, goerror + Pod \<times> nat) go" where
  "fetch_workload env info fork =
     (case workload_dispatch (info_GK info) of
        PanicOnGroup \<Rightarrow> throw (info_GVKText info)
      | Unsupported \<Rightarrow>
          ret (Inl (Errorf (''object '' @ info_GVKText info @ ''/'' @ info_Name info @ '' is not supported'')))
      | Fetch api \<Rightarrow>
          bnd (ask (CGetWorkload api (info_Namespace info) (info_Name info)) (e_getWorkload env)) (\<lambda>resp.
          case resp of
            Inl failed \<Rightarrow> ret (Inl (fetch_failed api info failed))
          | Inr (tmpl, lbls) \<Rightarrow>
              (let pod = fork_pod fork tmpl lbls in
               case select_target fork pod of
                 Inl err \<Rightarrow> ret (Inl err)
               | Inr target \<Rightarrow> ret (Inr (pod, target)))))"

text \<open>\<open>Infos\<close> of a result keeps the error that it returns, so the message, which prints \<open>result.Err()\<close>, has the same text.\<close>

definition fetchForkTargetPod ::
  "env \<Rightarrow> CliAppReconciler \<Rightarrow> string \<Rightarrow> ForkObject \<Rightarrow> (world, goerror + Pod \<times> nat) go" where
  "fetchForkTargetPod env r namespace fork =
     bnd (ask (CResolve namespace (fork_Object fork)) (e_resolve env)) (\<lambda>result.
     case result of
       ResolveErr e \<Rightarrow>
         ret (Inl (Errorf (''unable to fetch '' @ quoted (fork_Object fork) @ '': '' @ ErrorText e)))
     | InfosErr e \<Rightarrow>
         ret (Inl (Errorf (''unable to fetch result of '' @ quoted (fork_Object fork) @ '': '' @ ErrorText e)))
     | Infos infos \<Rightarrow>
         if length infos = 0 then
           ret (Inl (Errorf (''no '' @ quoted (e_sharpV env (fork_Object fork)) @ '' found'')))
         else if length infos > 1 then throw ''infos''
         else case r_ToRESTConfig r () of
           Inl err \<Rightarrow> throw (ErrorText err)
         | Inr config \<Rightarrow>
             bnd (ask CNewClientset (e_newClientset env)) (\<lambda>err.
             case err of
               Some e \<Rightarrow> ret (Inl e)
             | None \<Rightarrow> fetch_workload env (hd infos) fork))"

section \<open>Properties\<close>

lemma container_index_Some:
  "container_index i cs name = Some j \<Longrightarrow>
     i \<le> j \<and> j - i < length cs \<and> c_Name (cs ! (j - i)) = name
     \<and> (\<forall>k < j - i. c_Name (cs ! k) \<noteq> name)"
proof (induction cs arbitrary: i)
  case (Cons c cs)
  show ?case
  proof (cases "c_Name c = name")
    case False
    with Cons have "Suc i \<le> j \<and> j - Suc i < length cs \<and> c_Name (cs ! (j - Suc i)) = name
       \<and> (\<forall>k < j - Suc i. c_Name (cs ! k) \<noteq> name)" by simp
    moreover from this obtain d where "j = Suc i + d" by (auto simp: le_iff_add)
    ultimately show ?thesis using False by (auto simp: nth_Cons split: nat.splits)
  qed (use Cons.prems in simp)
qed simp

lemma select_target_Inr:
  assumes "select_target fork pod = Inr t"
  shows "ps_Containers (pod_Spec pod) = [] \<and> t = 0 \<or> t < length (ps_Containers (pod_Spec pod))"
  using assms
  by (auto simp: select_target_def Let_def dest!: container_index_Some
      split: if_splits option.splits)

lemma fork_pod_simps [simp]:
  "pod_Spec (fork_pod fork tmpl lbls) = tmpl\<lparr>ps_Containers := map strip_probes (ps_Containers tmpl)\<rparr>"
  "pod_Labels (fork_pod fork tmpl lbls) = (if fork_WithEnvs fork then lbls else None)"
  "pod_Annotations (fork_pod fork tmpl lbls) = None"
  by (simp_all add: fork_pod_def zero_Pod_def Let_def)

lemma strip_probes_simps [simp]:
  "c_Name (strip_probes c) = c_Name c"
  "c_Image (strip_probes c) = c_Image c"
  "c_Env (strip_probes c) = c_Env c"
  by (simp_all add: strip_probes_def)

end
