(* ===== verification/Json.thy ===== *)
theory Json
  imports GoStrings
begin

text \<open>
  What encoding/json writes, as far as the program uses it: strings, booleans, arrays and objects, without any white space.
  A Go string is a list of bytes; the encoder escapes it byte by byte below 128 and rune by rune above. The text of a
  value delimits itself, so that different values, whose strings are proper UTF-8, never have the same text.
\<close>

section \<open>UTF-8\<close>

text \<open>
  \<open>utf8.DecodeRuneInString\<close>, for a first byte of 128 and above: the width of the rune that the bytes begin with, or 0 if they
  do not begin with one.
\<close>

definition cont_byte :: "nat \<Rightarrow> bool" where
  "cont_byte b \<longleftrightarrow> 128 \<le> b \<and> b \<le> 191"

definition second_byte :: "nat \<Rightarrow> nat \<Rightarrow> bool" where
  "second_byte b0 b1 \<longleftrightarrow>
     (if b0 = 224 then 160 else if b0 = 240 then 144 else 128) \<le> b1
   \<and> b1 \<le> (if b0 = 237 then 159 else if b0 = 244 then 143 else 191)"

definition rune_len :: "nat \<Rightarrow> nat" where
  "rune_len b0 =
     (if 194 \<le> b0 \<and> b0 \<le> 223 then 2 else if 224 \<le> b0 \<and> b0 \<le> 239 then 3
      else if 240 \<le> b0 \<and> b0 \<le> 244 then 4 else 0)"

fun rune_width :: "nat list \<Rightarrow> nat" where
  "rune_width (b0 # b1 # bs) =
     (if rune_len b0 \<le> length bs + 2 \<and> second_byte b0 b1 \<and> list_all cont_byte (take (rune_len b0 - 2) bs)
      then rune_len b0 else 0)"
| "rune_width bs = 0"

definition byte :: "char \<Rightarrow> nat" where
  "byte c = of_char c"

abbreviation width :: "string \<Rightarrow> nat" where
  "width s \<equiv> rune_width (map byte s)"

lemma rune_len_cases: "rune_len b = 0 \<or> 2 \<le> rune_len b"
  by (simp add: rune_len_def)

lemma rune_width_bytes:
  assumes "rune_width bs \<noteq> 0" and "128 \<le> hd bs"
  shows "2 \<le> rune_width bs \<and> rune_width bs \<le> length bs \<and> (\<forall>b \<in> set (take (rune_width bs) bs). 128 \<le> b)"
proof -
  from assms(1) obtain b0 b1 cs where bs: "bs = b0 # b1 # cs" by (cases bs rule: rune_width.cases) auto
  let ?n = "rune_len b0"
  have n: "rune_width bs = ?n" "?n \<le> length bs" "second_byte b0 b1" "\<forall>b \<in> set (take (?n - 2) cs). cont_byte b"
    using assms(1) by (auto simp: bs list_all_iff split: if_splits)
  have two: "2 \<le> ?n" using assms(1) n(1) rune_len_cases [of b0] by simp
  then obtain k where k: "?n = Suc (Suc k)" by (metis add_2_eq_Suc le_Suc_ex)
  have "128 \<le> b1" using n(3) by (simp add: second_byte_def split: if_splits)
  moreover have "\<forall>b \<in> set (take k cs). 128 \<le> b" using n(4) k by (auto simp: cont_byte_def)
  ultimately show ?thesis using n(1,2) two assms(2) by (auto simp: bs k)
qed

lemma width_bytes:
  assumes "width s \<noteq> 0" and "128 \<le> byte (hd s)"
  shows "2 \<le> width s \<and> width s \<le> length s \<and> (\<forall>c \<in> set (take (width s) s). 128 \<le> byte c)"
proof -
  have "s \<noteq> []" using assms(1) by auto
  with rune_width_bytes [of "map byte s"] assms show ?thesis by (simp add: hd_map take_map)
qed

function valid_utf8 :: "string \<Rightarrow> bool" where
  "valid_utf8 [] = True"
| "valid_utf8 (c # cs) =
     (if byte c < 128 then valid_utf8 cs
      else width (c # cs) \<noteq> 0 \<and> valid_utf8 (drop (width (c # cs) - 1) cs))"
  by pat_completeness auto
termination by (relation "measure length") auto

lemma valid_utf8_ascii: "list_all (\<lambda>c. byte c < 128) s \<Longrightarrow> valid_utf8 s"
  by (induction s) auto

section \<open>Strings\<close>

definition hex_digit :: "nat \<Rightarrow> char" where
  "hex_digit n = ''0123456789abcdef'' ! n"

text \<open>
  The quote, the backslash and \<open>\<u>\<close> as characters. \<open>esc_ascii\<close> is the escape of a byte below 128 by the table
  \<open>htmlSafeSet\<close>: the quote, the backslash, the control characters, and \<open><\<close>, \<open>>\<close> and \<open>&\<close> are escaped.
\<close>

abbreviation dquote :: char where "dquote \<equiv> CHR 0x22"
abbreviation bslash :: char where "bslash \<equiv> CHR 0x5C"

definition esc_ascii :: "char \<Rightarrow> string" where
  "esc_ascii c =
     (if c = dquote \<or> c = bslash then [bslash, c]
      else if c = CHR 0x0A then [bslash, CHR ''n'']
      else if c = CHR 0x0D then [bslash, CHR ''r'']
      else if c = CHR 0x09 then [bslash, CHR ''t'']
      else if byte c < 32 \<or> c = CHR ''<'' \<or> c = CHR ''>'' \<or> c = CHR ''&'' then
        bslash # ''u00'' @ [hex_digit (byte c div 16), hex_digit (byte c mod 16)]
      else [c])"

text \<open>The line separators U+2028 and U+2029 are escaped, bytes that are not UTF-8 are replaced.\<close>

definition esc_rune :: "string \<Rightarrow> string" where
  "esc_rune r =
     (if r = [CHR 0xE2, CHR 0x80, CHR 0xA8] then bslash # ''u2028''
      else if r = [CHR 0xE2, CHR 0x80, CHR 0xA9] then bslash # ''u2029'' else r)"

function escape :: "string \<Rightarrow> string" where
  "escape [] = []"
| "escape (c # cs) =
     (if byte c < 128 then esc_ascii c @ escape cs
      else if width (c # cs) = 0 then (bslash # ''ufffd'') @ escape cs
      else esc_rune (take (width (c # cs)) (c # cs)) @ escape (drop (width (c # cs) - 1) cs))"
  by pat_completeness auto
termination by (relation "measure length") auto

definition json_string :: "string \<Rightarrow> string" where
  "json_string s = dquote # escape s @ [dquote]"

section \<open>Values\<close>

datatype json = JStr string | JBool bool | JArr "json list" | JObj "(string \<times> json) list"

fun json_text :: "json \<Rightarrow> string" where
  "json_text (JStr s) = json_string s"
| "json_text (JBool b) = (if b then ''true'' else ''false'')"
| "json_text (JArr js) = ''['' @ join_with '','' (map json_text js) @ '']''"
| "json_text (JObj ms) = ''{'' @ join_with '','' (map (\<lambda>(k, v). json_string k @ '':'' @ json_text v) ms) @ ''}''"

fun valid_json :: "json \<Rightarrow> bool" where
  "valid_json (JStr s) = valid_utf8 s"
| "valid_json (JBool b) = True"
| "valid_json (JArr js) = (\<forall>j \<in> set js. valid_json j)"
| "valid_json (JObj ms) = (\<forall>(k, v) \<in> set ms. valid_utf8 k \<and> valid_json v)"

section \<open>Reading a string back\<close>

definition unhex :: "char \<Rightarrow> nat" where
  "unhex c = (if byte c < 58 then byte c - 48 else byte c - 87)"

text \<open>What the bytes after a backslash stand for, and how many of them.\<close>

definition esc_value :: "string \<Rightarrow> string \<times> nat" where
  "esc_value cs =
     (let c = hd cs in
      if c = CHR ''n'' then ([CHR 0x0A], 1)
      else if c = CHR ''r'' then ([CHR 0x0D], 1)
      else if c = CHR ''t'' then ([CHR 0x09], 1)
      else if c \<noteq> CHR ''u'' then ([c], 1)
      else if cs ! 1 = CHR ''0'' then ([char_of (16 * unhex (cs ! 3) + unhex (cs ! 4))], 5)
      else ([CHR 0xE2, CHR 0x80, char_of (160 + unhex (cs ! 4))], 5))"

function unescape :: "string \<Rightarrow> string \<times> string" where
  "unescape [] = ([], [])"
| "unescape (c # cs) =
     (if c = dquote then ([], cs)
      else let (p, n) = (if c = bslash then esc_value cs else ([c], 0))
           in (p @ fst (unescape (drop n cs)), snd (unescape (drop n cs))))"
  by pat_completeness auto
termination by (relation "measure length") auto

lemma unescape_raw:
  "\<forall>c \<in> set p. c \<noteq> dquote \<and> c \<noteq> bslash \<Longrightarrow> unescape (p @ t) = (p @ fst (unescape t), snd (unescape t))"
  by (induction p) (auto simp del: unescape.simps(1))

lemma byte_lt: "byte c < 256"
  by (simp add: byte_def)

lemma unhex_hex: "n < 16 \<Longrightarrow> unhex (hex_digit n) = n"
proof -
  have "\<forall>n \<in> set [0..<16]. unhex (hex_digit n) = n" by (simp add: unhex_def hex_digit_def byte_def upt_rec)
  then show "n < 16 \<Longrightarrow> unhex (hex_digit n) = n" by simp
qed

lemma esc_value_control:
  assumes "n < 128"
  shows "esc_value (''u00'' @ [hex_digit (n div 16), hex_digit (n mod 16)] @ t) = ([char_of n], 5)"
proof -
  have "n div 16 < 16" "n mod 16 < 16" using assms by simp_all
  then have "unhex (hex_digit (n div 16)) = n div 16" "unhex (hex_digit (n mod 16)) = n mod 16"
    by (simp_all only: unhex_hex)
  then show ?thesis by (simp add: esc_value_def)
qed

lemma char_of_byte [simp]: "char_of (byte c) = c"
  by (simp add: byte_def)

lemma unescape_ascii:
  assumes "byte c < 128"
  shows "unescape (esc_ascii c @ t) = (c # fst (unescape t), snd (unescape t))"
proof (cases "c \<in> {dquote, bslash, CHR 0x0A, CHR 0x0D, CHR 0x09}")
  case True
  then show ?thesis by (auto simp: esc_ascii_def esc_value_def)
next
  case False
  let ?u = "bslash # ''u00'' @ [hex_digit (byte c div 16), hex_digit (byte c mod 16)]"
  from False have "esc_ascii c = ?u \<or> esc_ascii c = [c]" by (simp add: esc_ascii_def)
  then show ?thesis
  proof
    assume u: "esc_ascii c = ?u"
    show ?thesis using esc_value_control [OF assms, of t] by (simp add: u)
  qed (use False in simp)
qed

lemma unescape_rune:
  assumes "\<forall>c \<in> set r. 128 \<le> byte c"
  shows "unescape (esc_rune r @ t) = (r @ fst (unescape t), snd (unescape t))"
proof -
  have hex: "char_of (160 + unhex CHR ''8'') = CHR 0xA8" "char_of (160 + unhex CHR ''9'') = CHR 0xA9"
    using char_of_byte [of "CHR 0xA8"] char_of_byte [of "CHR 0xA9"] by (simp_all add: unhex_def byte_def)
  have "c \<noteq> dquote \<and> c \<noteq> bslash" if "c \<in> set r" for c using assms that by (auto simp: byte_def)
  then have raw: "unescape (r @ t) = (r @ fst (unescape t), snd (unescape t))"
    by (intro unescape_raw) blast
  show ?thesis
    by (cases "r = [CHR 0xE2, CHR 0x80, CHR 0xA8] \<or> r = [CHR 0xE2, CHR 0x80, CHR 0xA9]")
      (auto simp: esc_rune_def esc_value_def hex raw)
qed

lemma unescape_escape: "valid_utf8 s \<Longrightarrow> unescape (escape s @ dquote # t) = (s, t)"
proof (induction s rule: escape.induct)
  case (2 c cs)
  show ?case
  proof (cases "byte c < 128")
    case True
    with 2 show ?thesis by (simp add: unescape_ascii)
  next
    case False
    let ?w = "width (c # cs)"
    have w: "?w \<noteq> 0" "valid_utf8 (drop (?w - 1) cs)" using 2(4) False by simp_all
    with 2(3) False have IH: "unescape (escape (drop (?w - 1) cs) @ dquote # t) = (drop (?w - 1) cs, t)"
      by (simp del: list.map)
    have "\<forall>b \<in> set (take ?w (c # cs)). 128 \<le> byte b" "2 \<le> ?w"
      using width_bytes [OF w(1)] False by simp_all
    moreover have "take ?w (c # cs) @ drop (?w - 1) cs = c # cs"
      using \<open>2 \<le> ?w\<close> by (cases ?w) simp_all
    ultimately show ?thesis
      using w(1) False by (simp add: unescape_rune IH del: list.map One_nat_def)
  qed
qed simp

lemma json_string_delimits:
  assumes "json_string s @ r = json_string t @ u" and "valid_utf8 s" and "valid_utf8 t"
  shows "s = t \<and> r = u"
proof -
  have "unescape (escape s @ dquote # r) = unescape (escape t @ dquote # u)"
    using assms(1) by (simp add: json_string_def)
  then show ?thesis by (simp add: unescape_escape assms(2,3))
qed

section \<open>Texts delimit themselves\<close>

text \<open>An element of \<open>A\<close> delimits itself if no other text that continues its own can be read as one of \<open>A\<close>.\<close>

definition delimits :: "('a \<Rightarrow> string) \<Rightarrow> 'a set \<Rightarrow> 'a \<Rightarrow> bool" where
  "delimits f A x \<longleftrightarrow> (\<forall>y \<in> A. \<forall>r u. f x @ r = f y @ u \<longrightarrow> x = y \<and> r = u)"

lemma delimitsD: "delimits f A x \<Longrightarrow> y \<in> A \<Longrightarrow> f x @ r = f y @ u \<Longrightarrow> x = y \<and> r = u"
  unfolding delimits_def by blast

lemma join_with_Cons: "join_with sep (x # xs) = x @ (if xs = [] then [] else sep @ join_with sep xs)"
  by (cases xs) auto

lemma join_delimits:
  assumes "\<forall>x \<in> set xs. delimits f A x" and "set ys \<subseteq> A"
    and heads: "\<forall>x \<in> A \<union> set xs. f x \<noteq> [] \<and> hd (f x) \<noteq> e"
    and e: "e \<noteq> CHR '',''"
    and eq: "join_with '','' (map f xs) @ e # r = join_with '','' (map f ys) @ e # u"
  shows "xs = ys \<and> r = u"
  using assms
proof (induction xs arbitrary: ys)
  case Nil
  show ?case
  proof (cases ys)
    case (Cons y zs)
    with Nil.prems(2,3) obtain c s where "f y = c # s" "c \<noteq> e" by (cases "f y") auto
    with Nil.prems(5) Cons show ?thesis by (simp add: join_with_Cons)
  qed (use Nil.prems(5) in simp)
next
  case (Cons x xs)
  show ?case
  proof (cases ys)
    case Nil
    from Cons.prems(3) obtain c s where "f x = c # s" "c \<noteq> e" by (cases "f x") auto
    with Nil Cons.prems(5) show ?thesis by (simp add: join_with_Cons)
  next
    case (Cons y zs)
    let ?tail = "\<lambda>ws. if map f ws = [] then [] else '','' @ join_with '','' (map f ws)"
    have d: "delimits f A x" and y: "y \<in> A" using Cons.prems(1,2) Cons by simp_all
    have "f x @ (?tail xs @ e # r) = f y @ (?tail zs @ e # u)"
      using Cons.prems(5) Cons by (simp only: list.map join_with_Cons append_assoc)
    from delimitsD [OF d y this] have xy: "x = y" and tails: "?tail xs @ e # r = ?tail zs @ e # u" by simp_all
    have "xs = [] \<longleftrightarrow> zs = []"
      using tails Cons.prems(4) by (cases xs; cases zs) auto
    with tails have rest: "join_with '','' (map f xs) @ e # r = join_with '','' (map f zs) @ e # u"
      by (cases "xs = []") simp_all
    have "xs = zs \<and> r = u"
      by (rule Cons.IH [OF _ _ _ Cons.prems(4) rest]) (use Cons.prems(1-3) Cons in simp_all)
    with xy Cons show ?thesis by simp
  qed
qed

lemma json_text_head: "json_text j \<noteq> [] \<and> hd (json_text j) \<notin> {CHR '','', CHR '']'', CHR ''}''}"
  by (cases j) (simp_all add: json_string_def)

abbreviation member_text :: "string \<times> json \<Rightarrow> string" where
  "member_text \<equiv> \<lambda>(k, v). json_string k @ '':'' @ json_text v"

lemma json_text_delimits: "valid_json j \<Longrightarrow> delimits json_text {j. valid_json j} j"
proof (induction j rule: json_text.induct)
  case (1 s)
  show ?case
    unfolding delimits_def
  proof (intro ballI allI impI)
    fix y r u assume y: "y \<in> {j. valid_json j}" and eq: "json_text (JStr s) @ r = json_text y @ u"
    then show "JStr s = y \<and> r = u"
      using 1 json_string_delimits [of s r _ u] by (cases y) (simp_all add: json_string_def split: if_splits)
  qed
next
  case (2 b)
  show ?case
    unfolding delimits_def
  proof (intro ballI allI impI)
    fix y r u assume y: "y \<in> {j. valid_json j}" and eq: "json_text (JBool b) @ r = json_text y @ u"
    then show "JBool b = y \<and> r = u"
      by (cases y) (auto simp: json_string_def split: if_splits)
  qed
next
  case (3 js)
  show ?case
    unfolding delimits_def
  proof (intro ballI allI impI)
    fix y r u assume y: "y \<in> {j. valid_json j}" and eq: "json_text (JArr js) @ r = json_text y @ u"
    then obtain ks where ks: "y = JArr ks" "\<forall>k \<in> set ks. valid_json k"
      by (cases y) (auto simp: json_string_def split: if_splits)
    have "js = ks \<and> r = u"
    proof (rule join_delimits [of js json_text "{j. valid_json j}" ks "CHR '']''"])
      show "\<forall>x \<in> set js. delimits json_text {j. valid_json j} x" using 3 by simp
      show "join_with '','' (map json_text js) @ CHR '']'' # r = join_with '','' (map json_text ks) @ CHR '']'' # u"
        using eq by (simp add: ks)
    qed (use ks json_text_head in auto)
    then show "JArr js = y \<and> r = u" by (simp add: ks)
  qed
next
  case (4 ms)
  let ?M = "{(k, v). valid_utf8 k \<and> valid_json v}"
  have member: "delimits member_text ?M m" if "m \<in> set ms" for m
  proof -
    obtain k v where m: "m = (k, v)" by (cases m)
    have v: "delimits json_text {j. valid_json j} v" "valid_utf8 k" using 4 that m by auto
    show ?thesis
      unfolding delimits_def
    proof (intro ballI allI impI)
      fix y r u assume y: "y \<in> ?M" and eq: "member_text m @ r = member_text y @ u"
      obtain l w where lw: "y = (l, w)" by (cases y)
      with eq m have "json_string k @ (CHR '':'' # json_text v @ r) = json_string l @ (CHR '':'' # json_text w @ u)"
        by simp
      with json_string_delimits [OF this] v(2) y lw have "k = l" "json_text v @ r = json_text w @ u" by auto
      with delimitsD [OF v(1), of w r u] y lw m show "m = y \<and> r = u" by auto
    qed
  qed
  show ?case
    unfolding delimits_def
  proof (intro ballI allI impI)
    fix y r u assume y: "y \<in> {j. valid_json j}" and eq: "json_text (JObj ms) @ r = json_text y @ u"
    then obtain ns where "y = JObj ns"
      by (cases y) (auto simp: json_string_def split: if_splits)
    then have ns: "y = JObj ns" "set ns \<subseteq> ?M" using y by auto
    have "ms = ns \<and> r = u"
    proof (rule join_delimits [of ms member_text ?M ns "CHR ''}''"])
      show "join_with '','' (map member_text ms) @ CHR ''}'' # r = join_with '','' (map member_text ns) @ CHR ''}'' # u"
        using eq by (simp add: ns)
    qed (use ns member in \<open>auto simp: json_string_def\<close>)
    then show "JObj ms = y \<and> r = u" by (simp add: ns)
  qed
qed

lemma json_text_inject:
  assumes "json_text i = json_text j" and "valid_json i" and "valid_json j"
  shows "i = j"
  using delimitsD [OF json_text_delimits [OF assms(2)], of j "[]" "[]"] assms by simp

end
