(* ===== verification/JsonDecode.thy ===== *)
theory JsonDecode
  imports Json
begin

text \<open>
  What \<open>json.Unmarshal\<close> of encoding/json (Go 1.15) accepts, and the value that it reads: a lexer, a pushdown automaton over the tokens
  that follows the parse states of the package's scanner, and the decoding of strings. \<open>json_parse\<close> is \<open>None\<close> for a
  syntax error. The text that the encoder writes for a value (theory Json) is read back as that value.
\<close>

section \<open>Strings\<close>

text \<open>\<open>getu4\<close> after the \<open>\<u>\<close>: four hexadecimal digits.\<close>

definition hex_value :: "char \<Rightarrow> nat option" where
  "hex_value c =
     (if 48 \<le> byte c \<and> byte c \<le> 57 then Some (byte c - 48)
      else if 97 \<le> byte c \<and> byte c \<le> 102 then Some (byte c - 87)
      else if 65 \<le> byte c \<and> byte c \<le> 70 then Some (byte c - 55) else None)"

fun read_u4 :: "string \<Rightarrow> (nat \<times> string) option" where
  "read_u4 (a # b # c # d # s) =
     (case (hex_value a, hex_value b, hex_value c, hex_value d) of
        (Some w, Some x, Some y, Some z) \<Rightarrow> Some (4096 * w + 256 * x + 16 * y + z, s)
      | _ \<Rightarrow> None)"
| "read_u4 s = None"

text \<open>\<open>utf8.EncodeRune\<close>.\<close>

definition encode_rune :: "nat \<Rightarrow> string" where
  "encode_rune r =
     map char_of
       (if r < 128 then [r]
        else if r < 2048 then [192 + r div 64, 128 + r mod 64]
        else if r < 65536 then [224 + r div 4096, 128 + r div 64 mod 64, 128 + r mod 64]
        else [240 + r div 262144, 128 + r div 4096 mod 64, 128 + r div 64 mod 64, 128 + r mod 64])"

definition replacement :: string where
  "replacement = [CHR 0xEF, CHR 0xBF, CHR 0xBD]"

text \<open>
  The rune of an escape and what follows it: a high surrogate takes the escape of a low one along, any other surrogate is
  replaced.
\<close>

definition escaped_rune :: "nat \<Rightarrow> string \<Rightarrow> string \<times> string" where
  "escaped_rune r s =
     (if 55296 \<le> r \<and> r < 57344 then
        (case (if take 2 s = [bslash, CHR ''u''] then read_u4 (drop 2 s) else None) of
           Some (r2, s2) \<Rightarrow>
             if r < 56320 \<and> 56320 \<le> r2 \<and> r2 < 57344
             then (encode_rune ((r - 55296) * 1024 + (r2 - 56320) + 65536), s2) else (replacement, s)
         | None \<Rightarrow> (replacement, s))
      else (encode_rune r, s))"

lemma read_u4_shorter: "read_u4 s = Some (r, t) \<Longrightarrow> length t < length s"
  by (cases s rule: read_u4.cases) (auto split: option.splits)

lemma escaped_rune_shorter: "length (snd (escaped_rune r s)) \<le> length s"
proof -
  have "read_u4 (drop 2 s) = Some (r2, s2) \<Longrightarrow> length s2 \<le> length s" for r2 s2
    using read_u4_shorter [of "drop 2 s" r2 s2] by simp
  then show ?thesis by (auto simp: escaped_rune_def split: option.splits)
qed

text \<open>What the characters after a backslash stand for, and the rest.\<close>

definition unquote_escape :: "string \<Rightarrow> (string \<times> string) option" where
  "unquote_escape s =
     (case s of
        [] \<Rightarrow> None
      | e # es \<Rightarrow>
          if e = dquote \<or> e = bslash \<or> e = CHR ''/'' then Some ([e], es)
          else if e = CHR ''b'' then Some ([CHR 0x08], es)
          else if e = CHR ''f'' then Some ([CHR 0x0C], es)
          else if e = CHR ''n'' then Some ([CHR 0x0A], es)
          else if e = CHR ''r'' then Some ([CHR 0x0D], es)
          else if e = CHR ''t'' then Some ([CHR 0x09], es)
          else if e = CHR ''u'' then
            (case read_u4 es of None \<Rightarrow> None | Some (r, rest) \<Rightarrow> Some (escaped_rune r rest))
          else None)"

lemma unquote_escape_shorter: "unquote_escape s = Some (p, t) \<Longrightarrow> length t < length s"
proof (cases s)
  case (Cons e es)
  have "read_u4 es = Some (r, u) \<Longrightarrow> length (snd (escaped_rune r u)) \<le> length es" for r u
    using read_u4_shorter [of es r u] escaped_rune_shorter [of r u] by linarith
  then show "unquote_escape s = Some (p, t) \<Longrightarrow> length t < length s"
    using Cons by (fastforce simp: unquote_escape_def split: if_splits option.splits)
qed (simp add: unquote_escape_def)

text \<open>A string up to its closing quote, and the rest.\<close>

function json_unquote :: "string \<Rightarrow> (string \<times> string) option" where
  "json_unquote [] = None"
| "json_unquote (c # cs) =
     (if c = dquote then Some ([], cs)
      else if byte c < 32 then None
      else
        (case (if c = bslash then unquote_escape cs
               else if byte c < 128 then Some ([c], cs)
               else if width (c # cs) = 0 then Some (replacement, cs)
               else Some (take (width (c # cs)) (c # cs), drop (width (c # cs) - 1) cs)) of
           None \<Rightarrow> None
         | Some (p, rest) \<Rightarrow> map_option (\<lambda>(s, t). (p @ s, t)) (json_unquote rest)))"
  by pat_completeness auto
termination
  by (relation "measure length") (auto split: if_splits dest: unquote_escape_shorter)

lemma json_unquote_shorter: "json_unquote s = Some (p, t) \<Longrightarrow> length t < length s"
proof (induction s arbitrary: p t rule: json_unquote.induct)
  case (2 c cs)
  let ?next = "if c = bslash then unquote_escape cs
               else if byte c < 128 then Some ([c], cs)
               else if width (c # cs) = 0 then Some (replacement, cs)
               else Some (take (width (c # cs)) (c # cs), drop (width (c # cs) - 1) cs)"
  show ?case
  proof (cases "c = dquote")
    case False
    with "2.prems" have "\<not> byte c < 32" by (auto split: if_splits)
    with False "2.prems" obtain q rest u where r: "?next = Some (q, rest)" "json_unquote rest = Some (u, t)"
      by (auto simp: del: list.map split: option.splits)
    from "2.IH" [OF False \<open>\<not> byte c < 32\<close> r(1) refl r(2)] have "length t < length rest" .
    moreover have "length rest \<le> length cs"
      using r(1) unquote_escape_shorter [of cs q rest] by (auto split: if_splits)
    ultimately show ?thesis by simp
  qed (use "2.prems" in simp)
qed simp

section \<open>Tokens\<close>

datatype token =
    TBeginObj | TEndObj | TBeginArr | TEndArr | TColon | TComma | TStr string | TNum | TTrue | TFalse | TNull

definition is_num :: "char \<Rightarrow> bool" where
  "is_num c \<longleftrightarrow> 48 \<le> byte c \<and> byte c \<le> 57"

text \<open>At least one digit, and all that follow.\<close>

definition digits :: "string \<Rightarrow> string option" where
  "digits s = (case s of [] \<Rightarrow> None | c # cs \<Rightarrow> if is_num c then Some (dropWhile is_num cs) else None)"

text \<open>The parts of a number, and what follows them: an integer without leading zeros, a fraction, an exponent.\<close>

definition number_int :: "string \<Rightarrow> string option" where
  "number_int s =
     (let s = (if take 1 s = ''-'' then tl s else s)
      in if take 1 s = ''0'' then Some (tl s) else digits s)"

definition number_frac :: "string \<Rightarrow> string option" where
  "number_frac s = (if take 1 s = ''.'' then digits (tl s) else Some s)"

definition number_exp :: "string \<Rightarrow> string option" where
  "number_exp s =
     (if take 1 s = ''e'' \<or> take 1 s = ''E'' then
        digits (if take 1 (tl s) = ''+'' \<or> take 1 (tl s) = ''-'' then tl (tl s) else tl s)
      else Some s)"

definition scan_number :: "string \<Rightarrow> string option" where
  "scan_number s = Option.bind (Option.bind (number_int s) number_frac) number_exp"

lemma digits_shorter: "digits s = Some t \<Longrightarrow> length t < length s"
  by (auto simp: digits_def length_dropWhile_le less_Suc_eq_le split: list.splits if_splits)

lemma number_int_shorter: "number_int s = Some t \<Longrightarrow> length t < length s"
  by (cases s; cases "tl s") (auto simp: number_int_def Let_def dest!: digits_shorter split: if_splits)

lemma number_frac_shorter: "number_frac s = Some t \<Longrightarrow> length t \<le> length s"
  by (cases s) (auto simp: number_frac_def dest!: digits_shorter split: if_splits)

lemma number_exp_shorter: "number_exp s = Some t \<Longrightarrow> length t \<le> length s"
  by (cases s; cases "tl s") (auto simp: number_exp_def dest!: digits_shorter split: if_splits)

lemma scan_number_shorter: "scan_number s = Some t \<Longrightarrow> length t < length s"
  unfolding scan_number_def bind_eq_Some_conv
  by (elim exE conjE) (drule number_int_shorter, drule number_frac_shorter, drule number_exp_shorter, linarith)

text \<open>One token: the characters of a literal are read off, what may follow a value is the automaton's to say.\<close>

definition lex_token :: "string \<Rightarrow> (token \<times> string) option" where
  "lex_token s =
     (case s of
        [] \<Rightarrow> None
      | c # cs \<Rightarrow>
          if c = CHR ''{'' then Some (TBeginObj, cs)
          else if c = CHR ''}'' then Some (TEndObj, cs)
          else if c = CHR ''['' then Some (TBeginArr, cs)
          else if c = CHR '']'' then Some (TEndArr, cs)
          else if c = CHR '':'' then Some (TColon, cs)
          else if c = CHR '','' then Some (TComma, cs)
          else if c = dquote then map_option (\<lambda>(t, r). (TStr t, r)) (json_unquote cs)
          else if take 4 s = ''true'' then Some (TTrue, drop 4 s)
          else if take 5 s = ''false'' then Some (TFalse, drop 5 s)
          else if take 4 s = ''null'' then Some (TNull, drop 4 s)
          else map_option (\<lambda>r. (TNum, r)) (scan_number s))"

lemma lex_token_shorter: "lex_token s = Some (t, r) \<Longrightarrow> length r < length s"
  by (cases s) (auto simp: lex_token_def split: if_splits dest: json_unquote_shorter scan_number_shorter)

definition is_space :: "char \<Rightarrow> bool" where
  "is_space c \<longleftrightarrow> c = CHR '' '' \<or> c = CHR 0x09 \<or> c = CHR 0x0D \<or> c = CHR 0x0A"

function json_lex :: "string \<Rightarrow> token list option" where
  "json_lex s =
     (case s of
        [] \<Rightarrow> Some []
      | c # cs \<Rightarrow>
          if is_space c then json_lex cs
          else
            (case lex_token s of
               None \<Rightarrow> None
             | Some (t, r) \<Rightarrow> map_option (Cons t) (json_lex r)))"
  by pat_completeness auto
termination
  by (relation "measure length") (auto dest: lex_token_shorter)

declare json_lex.simps [simp del]

section \<open>Values\<close>

datatype jvalue = VNull | VBool bool | VNum | VStr string | VArr "jvalue list" | VObj "(string \<times> jvalue) list"

text \<open>
  The automaton: what it expects, and the arrays and objects that are open, the innermost first. \<open>FKey\<close> is an object with
  the key of the value that comes next.
\<close>

datatype frame = FArr "jvalue list" | FObj "(string \<times> jvalue) list" | FKey "(string \<times> jvalue) list" string

datatype mode = WantValue | WantValueOrEnd | WantKey | WantKeyOrEnd | WantColon | WantComma | Finished jvalue

definition maxNestingDepth :: nat where
  "maxNestingDepth = 10000"

text \<open>A value is complete: it belongs to what is open, or it is the result.\<close>

fun emit :: "jvalue \<Rightarrow> frame list \<Rightarrow> (mode \<times> frame list) option" where
  "emit v [] = Some (Finished v, [])"
| "emit v (FArr vs # st) = Some (WantComma, FArr (vs @ [v]) # st)"
| "emit v (FKey kvs k # st) = Some (WantComma, FObj (kvs @ [(k, v)]) # st)"
| "emit v (FObj kvs # st) = None"

definition begin_frame :: "mode \<Rightarrow> frame \<Rightarrow> frame list \<Rightarrow> (mode \<times> frame list) option" where
  "begin_frame m f st = (if length st < maxNestingDepth then Some (m, f # st) else None)"

fun begin_value :: "token \<Rightarrow> frame list \<Rightarrow> (mode \<times> frame list) option" where
  "begin_value (TStr s) st = emit (VStr s) st"
| "begin_value TNum st = emit VNum st"
| "begin_value TTrue st = emit (VBool True) st"
| "begin_value TFalse st = emit (VBool False) st"
| "begin_value TNull st = emit VNull st"
| "begin_value TBeginArr st = begin_frame WantValueOrEnd (FArr []) st"
| "begin_value TBeginObj st = begin_frame WantKeyOrEnd (FObj []) st"
| "begin_value t st = None"

text \<open>A token after a value, or the one that closes an array or object that has none yet.\<close>

fun after_value :: "token \<Rightarrow> frame list \<Rightarrow> (mode \<times> frame list) option" where
  "after_value t (FArr vs # st) =
     (if t = TComma then Some (WantValue, FArr vs # st) else if t = TEndArr then emit (VArr vs) st else None)"
| "after_value t (FObj kvs # st) =
     (if t = TComma then Some (WantKey, FObj kvs # st) else if t = TEndObj then emit (VObj kvs) st else None)"
| "after_value t st = None"

fun object_key :: "token \<Rightarrow> frame list \<Rightarrow> (mode \<times> frame list) option" where
  "object_key (TStr k) (FObj kvs # st) = Some (WantColon, FKey kvs k # st)"
| "object_key t st = None"

definition parse_step :: "mode \<times> frame list \<Rightarrow> token \<Rightarrow> (mode \<times> frame list) option" where
  "parse_step p t =
     (case p of (m, st) \<Rightarrow>
       case m of
         WantValue \<Rightarrow> begin_value t st
       | WantValueOrEnd \<Rightarrow> if t = TEndArr then after_value t st else begin_value t st
       | WantKey \<Rightarrow> object_key t st
       | WantKeyOrEnd \<Rightarrow> if t = TEndObj then after_value t st else object_key t st
       | WantColon \<Rightarrow> if t = TColon then Some (WantValue, st) else None
       | WantComma \<Rightarrow> after_value t st
       | Finished v \<Rightarrow> None)"

fun parse_tokens :: "mode \<times> frame list \<Rightarrow> token list \<Rightarrow> (mode \<times> frame list) option" where
  "parse_tokens p [] = Some p"
| "parse_tokens p (t # ts) = (case parse_step p t of None \<Rightarrow> None | Some q \<Rightarrow> parse_tokens q ts)"

definition json_parse :: "string \<Rightarrow> jvalue option" where
  "json_parse s =
     (case json_lex s of
        None \<Rightarrow> None
      | Some ts \<Rightarrow> (case parse_tokens (WantValue, []) ts of Some (Finished v, st) \<Rightarrow> Some v | _ \<Rightarrow> None))"

section \<open>Reading back what was written\<close>

lemma rune_width_prefix:
  assumes "rune_width bs \<noteq> 0"
  shows "rune_width (take (rune_width bs) bs @ cs) = rune_width bs"
proof -
  from assms obtain b0 b1 ds where bs: "bs = b0 # b1 # ds" by (cases bs rule: rune_width.cases) auto
  let ?n = "rune_len b0"
  have n: "rune_width bs = ?n" "?n \<le> length ds + 2" "second_byte b0 b1" "list_all cont_byte (take (?n - 2) ds)"
    using assms by (auto simp: bs split: if_splits)
  have two: "2 \<le> ?n" using assms n(1) rune_len_cases [of b0] by simp
  then obtain k where k: "?n = Suc (Suc k)" by (metis add_2_eq_Suc le_Suc_ex)
  with n show ?thesis by (simp add: bs)
qed

lemma width_prefix: "width s \<noteq> 0 \<Longrightarrow> width (take (width s) s @ t) = width s"
  using rune_width_prefix [of "map byte s" "map byte t"] by (simp add: take_map)

abbreviation cons_fst :: "string \<Rightarrow> (string \<times> string) option \<Rightarrow> (string \<times> string) option" where
  "cons_fst p \<equiv> map_option (\<lambda>(s, t). (p @ s, t))"

lemma hex_value_digit: "n < 16 \<Longrightarrow> hex_value (hex_digit n) = Some n"
proof -
  have "\<forall>n \<in> set [0..<16]. hex_value (hex_digit n) = Some n" by (simp add: hex_value_def hex_digit_def byte_def upt_rec)
  then show "n < 16 \<Longrightarrow> hex_value (hex_digit n) = Some n" by simp
qed

lemma unquote_control:
  assumes "n < 128"
  shows "unquote_escape (''u00'' @ [hex_digit (n div 16), hex_digit (n mod 16)] @ t) = Some ([char_of n], t)"
proof -
  have "n div 16 < 16" "n mod 16 < 16" using assms by simp_all
  then have "hex_value (hex_digit (n div 16)) = Some (n div 16)" "hex_value (hex_digit (n mod 16)) = Some (n mod 16)"
    by (simp_all only: hex_value_digit)
  moreover have "hex_value CHR ''0'' = Some 0" by (simp add: hex_value_def byte_def)
  ultimately show ?thesis
    using assms by (simp add: unquote_escape_def escaped_rune_def encode_rune_def mult.commute [of 16])
qed

lemma unquote_ascii:
  assumes "byte c < 128"
  shows "json_unquote (esc_ascii c @ t) = cons_fst [c] (json_unquote t)"
proof (cases "c \<in> {dquote, bslash, CHR 0x0A, CHR 0x0D, CHR 0x09}")
  case True
  have "\<not> byte bslash < 32" by (simp add: byte_def)
  with True show ?thesis by (auto simp: esc_ascii_def unquote_escape_def)
next
  case False
  let ?u = "bslash # ''u00'' @ [hex_digit (byte c div 16), hex_digit (byte c mod 16)]"
  from False have "esc_ascii c = ?u \<or> esc_ascii c = [c] \<and> \<not> byte c < 32" by (simp add: esc_ascii_def)
  then show ?thesis
  proof
    assume u: "esc_ascii c = ?u"
    have "\<not> byte bslash < 32" by (simp add: byte_def)
    with unquote_control [OF assms, of t] show ?thesis by (simp add: u)
  qed (use False assms in simp)
qed

lemma unquote_separators:
  "unquote_escape (''u2028'' @ t) = Some ([CHR 0xE2, CHR 0x80, CHR 0xA8], t)"
  "unquote_escape (''u2029'' @ t) = Some ([CHR 0xE2, CHR 0x80, CHR 0xA9], t)"
proof -
  have "encode_rune 8232 = [CHR 0xE2, CHR 0x80, CHR 0xA8]" "encode_rune 8233 = [CHR 0xE2, CHR 0x80, CHR 0xA9]"
    using char_of_byte [of "CHR 0xE2"] char_of_byte [of "CHR 0x80"] char_of_byte [of "CHR 0xA8"]
      char_of_byte [of "CHR 0xA9"]
    by (simp_all add: encode_rune_def byte_def)
  then show "unquote_escape (''u2028'' @ t) = Some ([CHR 0xE2, CHR 0x80, CHR 0xA8], t)"
    "unquote_escape (''u2029'' @ t) = Some ([CHR 0xE2, CHR 0x80, CHR 0xA9], t)"
    by (simp_all add: unquote_escape_def hex_value_def byte_def escaped_rune_def)
qed

lemma unquote_rune:
  assumes "128 \<le> byte c" and "width (c # cs) \<noteq> 0"
  shows "json_unquote (esc_rune (take (width (c # cs)) (c # cs)) @ t) =
    cons_fst (take (width (c # cs)) (c # cs)) (json_unquote t)"
proof -
  let ?r = "take (width (c # cs)) (c # cs)"
  have plain: "c \<noteq> dquote" "c \<noteq> bslash" "\<not> byte c < 32" using assms(1) by (auto simp: byte_def)
  obtain w where w: "width (c # cs) = Suc w" using assms(2) by (cases "width (c # cs)") auto
  have "width (c # take w cs @ t) = Suc w"
    using width_prefix [OF assms(2), of t] by (simp add: w del: list.map)
  moreover have "length (take w cs) = w"
    using width_bytes [of "c # cs"] assms w by simp
  ultimately have raw: "json_unquote (?r @ t) = cons_fst ?r (json_unquote t)"
    using plain assms(1) by (simp add: w del: list.map)
  have "\<not> byte bslash < 32" by (simp add: byte_def)
  with raw show ?thesis
    using unquote_separators [of t] by (cases "?r = [CHR 0xE2, CHR 0x80, CHR 0xA8] \<or> ?r = [CHR 0xE2, CHR 0x80, CHR 0xA9]")
      (auto simp: esc_rune_def simp del: list.map take_Suc_Cons)
qed

lemma json_unquote_escape: "valid_utf8 s \<Longrightarrow> json_unquote (escape s @ dquote # t) = Some (s, t)"
proof (induction s rule: escape.induct)
  case (2 c cs)
  show ?case
  proof (cases "byte c < 128")
    case True
    with 2 show ?thesis by (simp add: unquote_ascii)
  next
    case False
    let ?w = "width (c # cs)"
    have w: "?w \<noteq> 0" "valid_utf8 (drop (?w - 1) cs)" using 2(4) False by simp_all
    with 2(3) False have IH: "json_unquote (escape (drop (?w - 1) cs) @ dquote # t) = Some (drop (?w - 1) cs, t)"
      by (simp del: list.map)
    have "2 \<le> ?w" using width_bytes [OF w(1)] False by simp
    then have "take ?w (c # cs) @ drop (?w - 1) cs = c # cs" by (cases ?w) simp_all
    with IH unquote_rune [of c cs] w(1) False show ?thesis by (simp del: list.map One_nat_def json_unquote.simps)
  qed
qed simp

text \<open>The tokens of a text, and the value that they stand for.\<close>

fun comma_sep :: "token list list \<Rightarrow> token list" where
  "comma_sep [] = []"
| "comma_sep [x] = x"
| "comma_sep (x # y # ys) = x @ TComma # comma_sep (y # ys)"

fun tokens_of :: "json \<Rightarrow> token list" where
  "tokens_of (JStr s) = [TStr s]"
| "tokens_of (JBool b) = [if b then TTrue else TFalse]"
| "tokens_of (JArr js) = TBeginArr # comma_sep (map tokens_of js) @ [TEndArr]"
| "tokens_of (JObj ms) = TBeginObj # comma_sep (map (\<lambda>(k, v). TStr k # TColon # tokens_of v) ms) @ [TEndObj]"

fun value_of :: "json \<Rightarrow> jvalue" where
  "value_of (JStr s) = VStr s"
| "value_of (JBool b) = VBool b"
| "value_of (JArr js) = VArr (map value_of js)"
| "value_of (JObj ms) = VObj (map (\<lambda>(k, v). (k, value_of v)) ms)"

fun json_depth :: "json \<Rightarrow> nat" where
  "json_depth (JStr s) = 0"
| "json_depth (JBool b) = 0"
| "json_depth (JArr js) = Suc (foldr max (map json_depth js) 0)"
| "json_depth (JObj ms) = Suc (foldr max (map (\<lambda>(k, v). json_depth v) ms) 0)"

lemma foldr_max_le: "foldr max ns 0 \<le> (d :: nat) \<longleftrightarrow> (\<forall>n \<in> set ns. n \<le> d)"
  by (induction ns) auto

lemma lex_punct:
  "json_lex (CHR ''{'' # t) = map_option (Cons TBeginObj) (json_lex t)" "json_lex (CHR ''}'' # t) = map_option (Cons TEndObj) (json_lex t)"
  "json_lex (CHR ''['' # t) = map_option (Cons TBeginArr) (json_lex t)" "json_lex (CHR '']'' # t) = map_option (Cons TEndArr) (json_lex t)"
  "json_lex (CHR '':'' # t) = map_option (Cons TColon) (json_lex t)" "json_lex (CHR '','' # t) = map_option (Cons TComma) (json_lex t)"
  by (subst json_lex.simps, simp add: is_space_def lex_token_def)+

lemma lex_bool:
  "json_lex (''true'' @ t) = map_option (Cons TTrue) (json_lex t)" "json_lex (''false'' @ t) = map_option (Cons TFalse) (json_lex t)"
  by (subst json_lex.simps, simp add: is_space_def lex_token_def)+

lemma lex_string: "valid_utf8 s \<Longrightarrow> json_lex (json_string s @ t) = map_option (Cons (TStr s)) (json_lex t)"
  by (subst json_lex.simps) (simp add: json_string_def is_space_def lex_token_def json_unquote_escape)

lemma lex_commas:
  assumes "\<And>x t. x \<in> set xs \<Longrightarrow> json_lex (f x @ t) = map_option ((@) (g x)) (json_lex t)"
  shows "json_lex (join_with '','' (map f xs) @ t) = map_option ((@) (comma_sep (map g xs))) (json_lex t)"
  using assms
proof (induction xs arbitrary: t rule: induct_list012)
  case 1
  show ?case by (cases "json_lex t") simp_all
next
  case (3 x y zs)
  have "json_lex (join_with '','' (map f (y # zs)) @ t) = map_option ((@) (comma_sep (map g (y # zs)))) (json_lex t)"
    by (rule "3.IH"(2)) (use "3.prems" in simp)
  then show ?case using "3.prems" [of x] by (simp add: lex_punct option.map_comp comp_def)
qed simp

lemma lex_text: "valid_json j \<Longrightarrow> json_lex (json_text j @ t) = map_option ((@) (tokens_of j)) (json_lex t)"
proof (induction j arbitrary: t rule: json_text.induct)
  case (1 s)
  then show ?case by (simp add: lex_string)
next
  case (2 b)
  then show ?case using lex_bool [of t] by simp
next
  case (3 js)
  have "json_lex (join_with '','' (map json_text js) @ u) = map_option ((@) (comma_sep (map tokens_of js))) (json_lex u)" for u
    by (rule lex_commas) (use 3 in simp)
  then show ?case by (simp add: lex_punct option.map_comp comp_def)
next
  case (4 ms)
  let ?f = "\<lambda>(k, v). json_string k @ '':'' @ json_text v" and ?g = "\<lambda>(k, v). TStr k # TColon # tokens_of v"
  have "json_lex (join_with '','' (map ?f ms) @ u) = map_option ((@) (comma_sep (map ?g ms))) (json_lex u)" for u
  proof (rule lex_commas)
    fix m :: "string \<times> json" and v
    assume m: "m \<in> set ms"
    obtain k w where kw: "m = (k, w)" by (cases m)
    with 4 m have "valid_utf8 k" "json_lex (json_text w @ v) = map_option ((@) (tokens_of w)) (json_lex v)" by auto
    then show "json_lex (?f m @ v) = map_option ((@) (?g m)) (json_lex v)"
      using lex_string [of k "'':'' @ json_text w @ v"] by (cases "json_lex v") (simp_all add: kw lex_punct)
  qed
  then show ?case by (simp add: lex_punct option.map_comp comp_def)
qed

lemma tokens_head: "tokens_of j \<noteq> [] \<and> hd (tokens_of j) \<noteq> TEndArr"
  by (cases j) auto

text \<open>Where a value may begin an array, it is parsed as anywhere else.\<close>

lemma parse_first: "parse_tokens (WantValueOrEnd, st) (tokens_of j @ ts) = parse_tokens (WantValue, st) (tokens_of j @ ts)"
  using tokens_head [of j] by (cases "tokens_of j") (simp_all add: parse_step_def)

abbreviation parse_on :: "(mode \<times> frame list) option \<Rightarrow> token list \<Rightarrow> (mode \<times> frame list) option" where
  "parse_on p ts \<equiv> Option.bind p (\<lambda>q. parse_tokens q ts)"

lemma parse_elements:
  assumes "\<And>j st ts. j \<in> set (i # js) \<Longrightarrow> json_depth j + length st \<le> maxNestingDepth \<Longrightarrow>
      parse_tokens (WantValue, st) (tokens_of j @ ts) = parse_on (emit (value_of j) st) ts"
    and "\<And>j. j \<in> set (i # js) \<Longrightarrow> Suc (json_depth j + length st) \<le> maxNestingDepth"
  shows "parse_tokens (WantValue, FArr vs # st) (comma_sep (map tokens_of (i # js)) @ TEndArr # ts) =
    parse_on (emit (VArr (vs @ map value_of (i # js))) st) ts"
  using assms
proof (induction js arbitrary: i vs)
  case Nil
  then show ?case by (simp add: parse_step_def split: option.split)
next
  case (Cons k js)
  have "parse_tokens (WantValue, FArr (vs @ [value_of i]) # st) (comma_sep (map tokens_of (k # js)) @ TEndArr # ts) =
    parse_on (emit (VArr ((vs @ [value_of i]) @ map value_of (k # js))) st) ts"
    by (rule Cons.IH) (use Cons.prems in simp_all)
  then show ?case using Cons.prems by (simp add: parse_step_def)
qed

lemma parse_members:
  assumes "\<And>k j st ts. (k, j) \<in> set (m # ms) \<Longrightarrow> json_depth j + length st \<le> maxNestingDepth \<Longrightarrow>
      parse_tokens (WantValue, st) (tokens_of j @ ts) = parse_on (emit (value_of j) st) ts"
    and "\<And>k j. (k, j) \<in> set (m # ms) \<Longrightarrow> Suc (json_depth j + length st) \<le> maxNestingDepth"
    and "md = WantKey \<or> md = WantKeyOrEnd"
  shows "parse_tokens (md, FObj kvs # st) (comma_sep (map (\<lambda>(k, v). TStr k # TColon # tokens_of v) (m # ms)) @ TEndObj # ts) =
    parse_on (emit (VObj (kvs @ map (\<lambda>(k, v). (k, value_of v)) (m # ms))) st) ts"
  using assms
proof (induction ms arbitrary: m kvs md)
  case Nil
  obtain k j where m: "m = (k, j)" by (cases m)
  have "parse_tokens (WantValue, FKey kvs k # st) (tokens_of j @ us) =
      parse_on (emit (value_of j) (FKey kvs k # st)) us" for us
    using Nil(1) [of k j "FKey kvs k # st" us] Nil(2) [of k j] by (simp add: m)
  with Nil(3) show ?case by (auto simp: parse_step_def m split: option.split)
next
  case (Cons n ms)
  obtain k j where m: "m = (k, j)" by (cases m)
  have "parse_tokens (WantKey, FObj (kvs @ [(k, value_of j)]) # st)
      (comma_sep (map (\<lambda>(k, v). TStr k # TColon # tokens_of v) (n # ms)) @ TEndObj # ts) =
    parse_on (emit (VObj ((kvs @ [(k, value_of j)]) @ map (\<lambda>(k, v). (k, value_of v)) (n # ms))) st) ts"
  proof (rule Cons.IH)
    fix l i us and u :: "frame list" assume "(l, i) \<in> set (n # ms)" "json_depth i + length u \<le> maxNestingDepth"
    then show "parse_tokens (WantValue, u) (tokens_of i @ us) = parse_on (emit (value_of i) u) us"
      using Cons.prems(1) [of l i u us] by simp
  next
    fix l i assume "(l, i) \<in> set (n # ms)"
    then show "Suc (json_depth i + length st) \<le> maxNestingDepth" using Cons.prems(2) [of l i] by simp
  qed simp
  moreover have "parse_tokens (WantValue, FKey kvs k # st) (tokens_of j @ us) =
      parse_on (emit (value_of j) (FKey kvs k # st)) us" for us
    using Cons.prems(1) [of k j "FKey kvs k # st" us] Cons.prems(2) [of k j] by (simp add: m)
  ultimately show ?case using Cons.prems(3) by (auto simp: parse_step_def m)
qed

lemma parse_text:
  "json_depth j + length st \<le> maxNestingDepth \<Longrightarrow>
     parse_tokens (WantValue, st) (tokens_of j @ ts) = parse_on (emit (value_of j) st) ts"
proof (induction j arbitrary: st ts rule: json_text.induct)
  case (1 s)
  then show ?case by (cases "emit (VStr s) st") (simp_all add: parse_step_def)
next
  case (2 b)
  then show ?case by (cases b; cases "emit (VBool b) st") (simp_all add: parse_step_def)
next
  case (3 js)
  have depth: "Suc (json_depth j + length st) \<le> maxNestingDepth" if "j \<in> set js" for j
    using 3(2) that foldr_max_le [of "map json_depth js" "foldr max (map json_depth js) 0"] by fastforce
  show ?case
  proof (cases js)
    case Nil
    with 3(2) show ?thesis by (simp add: parse_step_def begin_frame_def split: option.split)
  next
    case (Cons i rest)
    have "parse_tokens (WantValue, FArr [] # st) (comma_sep (map tokens_of (i # rest)) @ TEndArr # ts) =
        parse_on (emit (VArr ([] @ map value_of (i # rest))) st) ts"
      by (rule parse_elements) (use 3(1) depth Cons in simp_all)
    moreover obtain us where "comma_sep (map tokens_of (i # rest)) @ TEndArr # ts = tokens_of i @ us"
      by (cases rest) auto
    ultimately have "parse_tokens (WantValueOrEnd, FArr [] # st) (comma_sep (map tokens_of (i # rest)) @ TEndArr # ts) =
        parse_on (emit (VArr (map value_of js)) st) ts"
      by (simp only: parse_first append_Nil Cons)
    with 3(2) Cons show ?thesis by (simp add: parse_step_def begin_frame_def)
  qed
next
  case (4 ms)
  have depth: "Suc (json_depth j + length st) \<le> maxNestingDepth" if "(k, j) \<in> set ms" for k j
    using 4(2) that foldr_max_le [of "map (\<lambda>(k, v). json_depth v) ms" "foldr max (map (\<lambda>(k, v). json_depth v) ms) 0"]
    by fastforce
  show ?case
  proof (cases ms)
    case Nil
    with 4(2) show ?thesis by (simp add: parse_step_def begin_frame_def split: option.split)
  next
    case (Cons n ns)
    have "parse_tokens (WantKeyOrEnd, FObj [] # st)
        (comma_sep (map (\<lambda>(k, v). TStr k # TColon # tokens_of v) (n # ns)) @ TEndObj # ts) =
        parse_on (emit (VObj ([] @ map (\<lambda>(k, v). (k, value_of v)) (n # ns))) st) ts"
      by (rule parse_members) (use 4(1) depth Cons in auto)
    with 4(2) Cons show ?thesis by (simp add: parse_step_def begin_frame_def)
  qed
qed

text \<open>What the encoder writes of a value of proper strings is read back as that value.\<close>

lemma json_parse_text:
  assumes "valid_json j" and "json_depth j \<le> maxNestingDepth"
  shows "json_parse (json_text j) = Some (value_of j)"
proof -
  have "json_lex (json_text j) = Some (tokens_of j)"
    using lex_text [OF assms(1), of "[]"] by (simp add: json_lex.simps [of "[]"])
  moreover have "parse_tokens (WantValue, []) (tokens_of j) = Some (Finished (value_of j), [])"
    using parse_text [of j "[]" "[]"] assms(2) by simp
  ultimately show ?thesis by (simp add: json_parse_def)
qed

end
