(* ===== verification/ImageInfo.thy ===== *)
theory ImageInfo
  imports JsonDecode
begin

text \<open>
  \<open>imageInfo\<close> of controllers/cliapp_workload.go, and what \<open>json.Unmarshal\<close> makes of a text for it: the members of an object go to the
  fields whose tags they match, others are skipped, null leaves a field as it is, and a value of the wrong kind is an error.
\<close>

section \<open>The struct\<close>

text \<open>
  The slice \<open>Env\<close> is its array, up to its capacity, and its length: a second member for it decodes into the same array. A nil slice
  is the empty one.
\<close>

record imageConfig =
  ic_Env :: "string list \<times> nat"
  ic_WorkingDir :: string

definition zero_imageInfo :: imageConfig where
  "zero_imageInfo = \<lparr>ic_Env = ([], 0), ic_WorkingDir = []\<rparr>"

definition Config_Env :: "imageConfig \<Rightarrow> string list" where
  "Config_Env c = take (snd (ic_Env c)) (fst (ic_Env c))"

section \<open>Fields\<close>

text \<open>
  \<open>equalFoldRight\<close> of the tag of a field with a key: letters in either case, and for S and K also the runes that fold to them. For tags
  without these two letters it is \<open>simpleLetterEqualFold\<close>.
\<close>

fun fold_match :: "string \<Rightarrow> string \<Rightarrow> bool" where
  "fold_match [] key = (key = [])"
| "fold_match (c # cs) [] = False"
| "fold_match (c # cs) (k # ks) =
     (if byte k < 128 then lower_char c = lower_char k \<and> fold_match cs ks
      else if lower_char c = CHR ''s'' \<and> k = CHR 0xC5 \<and> take 1 ks = [CHR 0xBF] then fold_match cs (drop 1 ks)
      else if lower_char c = CHR ''k'' \<and> k = CHR 0xE2 \<and> take 2 ks = [CHR 0x84, CHR 0xAA] then fold_match cs (drop 2 ks)
      else False)"

section \<open>Decoding\<close>

definition decode_string :: "string \<Rightarrow> jvalue \<Rightarrow> string option" where
  "decode_string old v = (case v of VStr s \<Rightarrow> Some s | VNull \<Rightarrow> Some old | _ \<Rightarrow> None)"

text \<open>
  The loop of \<open>d.array\<close> for a slice of strings: \<open>i\<close> is the index of the next element. A full array is replaced by a larger one.
\<close>

fun decode_elements :: "nat \<Rightarrow> jvalue list \<Rightarrow> string list \<times> nat \<Rightarrow> (string list \<times> nat) option" where
  "decode_elements i [] (arr, n) = Some (if i = 0 then ([], 0) else (arr, if i < n then i else n))"
| "decode_elements i (v # vs) (arr, n) =
     (let cap = length arr;
          newcap = max 4 (cap + cap div 2);
          arr = (if i \<ge> cap then take n arr @ replicate (newcap - n) [] else arr);
          n = (if i \<ge> n then Suc i else n)
      in case decode_string (arr ! i) v of
           None \<Rightarrow> None
         | Some s \<Rightarrow> decode_elements (Suc i) vs (arr[i := s], n))"

definition decode_strings :: "string list \<times> nat \<Rightarrow> jvalue \<Rightarrow> (string list \<times> nat) option" where
  "decode_strings old v =
     (case v of VArr vs \<Rightarrow> decode_elements 0 vs old | VNull \<Rightarrow> Some ([], 0) | _ \<Rightarrow> None)"

text \<open>An object for a struct: \<open>field\<close> decodes a member for the field that its key matches.\<close>

fun decode_members :: "(string \<Rightarrow> jvalue \<Rightarrow> 'a \<Rightarrow> 'a option) \<Rightarrow> (string \<times> jvalue) list \<Rightarrow> 'a \<Rightarrow> 'a option" where
  "decode_members field [] a = Some a"
| "decode_members field ((k, v) # ms) a =
     (case field k v a of None \<Rightarrow> None | Some b \<Rightarrow> decode_members field ms b)"

definition decode_struct :: "(string \<Rightarrow> jvalue \<Rightarrow> 'a \<Rightarrow> 'a option) \<Rightarrow> jvalue \<Rightarrow> 'a \<Rightarrow> 'a option" where
  "decode_struct field v a = (case v of VObj ms \<Rightarrow> decode_members field ms a | VNull \<Rightarrow> Some a | _ \<Rightarrow> None)"

definition config_field :: "string \<Rightarrow> jvalue \<Rightarrow> imageConfig \<Rightarrow> imageConfig option" where
  "config_field k v c =
     (if fold_match ''Env'' k then map_option (\<lambda>e. c\<lparr>ic_Env := e\<rparr>) (decode_strings (ic_Env c) v)
      else if fold_match ''WorkingDir'' k then map_option (\<lambda>d. c\<lparr>ic_WorkingDir := d\<rparr>) (decode_string (ic_WorkingDir c) v)
      else Some c)"

definition spec_field :: "string \<Rightarrow> jvalue \<Rightarrow> imageConfig \<Rightarrow> imageConfig option" where
  "spec_field k v c = (if fold_match ''config'' k then decode_struct config_field v c else Some c)"

definition info_field :: "string \<Rightarrow> jvalue \<Rightarrow> imageConfig \<Rightarrow> imageConfig option" where
  "info_field k v c = (if fold_match ''imageSpec'' k then decode_struct spec_field v c else Some c)"

text \<open>\<open>json.Unmarshal\<close> into a new \<open>imageInfo\<close>; \<open>None\<close> for an error, be it of the syntax or of a kind.\<close>

definition unmarshal_imageInfo :: "string \<Rightarrow> imageConfig option" where
  "unmarshal_imageInfo s =
     (case json_parse s of None \<Rightarrow> None | Some v \<Rightarrow> decode_struct info_field v zero_imageInfo)"

section \<open>Properties\<close>

lemma decode_elements_fresh:
  "n \<le> length arr \<Longrightarrow> \<exists>arr'. decode_elements n (map VStr ss) (arr, n) = Some (arr', n + length ss)
     \<and> take (n + length ss) arr' = take n arr @ ss \<or> n = 0 \<and> ss = []"
proof (induction ss arbitrary: n arr)
  case (Cons s ss)
  let ?arr = "if n \<ge> length arr then take n arr @ replicate (max 4 (length arr + length arr div 2) - n) [] else arr"
  have room: "n < length ?arr" using Cons.prems by (auto simp: le_eq_less_or_eq)
  have same: "take n ?arr = take n arr" using Cons.prems by simp
  have step: "decode_elements n (map VStr (s # ss)) (arr, n) = decode_elements (Suc n) (map VStr ss) (?arr[n := s], Suc n)"
    by (simp add: decode_string_def Let_def)
  have "take (Suc n) (?arr[n := s]) = take n arr @ [s]"
    using room same by (simp add: take_Suc_conv_app_nth)
  moreover obtain arr' where "decode_elements (Suc n) (map VStr ss) (?arr[n := s], Suc n) = Some (arr', Suc n + length ss)"
    "take (Suc n + length ss) arr' = take (Suc n) (?arr[n := s]) @ ss"
    using Cons.IH [of "Suc n" "?arr[n := s]"] room by auto
  ultimately show ?case unfolding step by (intro exI [of _ arr'] disjI1) simp
qed auto

lemma decode_strings_fresh: "\<exists>e. decode_strings ([], 0) (VArr (map VStr ss)) = Some e \<and> take (snd e) (fst e) = ss"
  using decode_elements_fresh [of 0 "[]" ss] by (cases ss) (auto simp: decode_strings_def)

text \<open>The values of the members of an object whose keys match a tag, in their order.\<close>

definition members :: "string \<Rightarrow> (string \<times> jvalue) list \<Rightarrow> jvalue list" where
  "members tag ms = map snd (filter (\<lambda>(k, v). fold_match tag k) ms)"

lemma members_simps [simp]:
  "members tag [] = []" "members tag ((k, v) # ms) = (if fold_match tag k then v # members tag ms else members tag ms)"
  by (simp_all add: members_def)

text \<open>A field decodes the values of its members one after the other.\<close>

fun decode_all :: "('a \<Rightarrow> jvalue \<Rightarrow> 'a option) \<Rightarrow> jvalue list \<Rightarrow> 'a \<Rightarrow> 'a option" where
  "decode_all f [] a = Some a"
| "decode_all f (v # vs) a = (case f a v of None \<Rightarrow> None | Some b \<Rightarrow> decode_all f vs b)"

lemma decode_members_tag:
  "decode_members (\<lambda>k v a. if fold_match t k then g v a else Some a) ms a = decode_all (\<lambda>a v. g v a) (members t ms) a"
  by (induction ms arbitrary: a) (auto split: option.split)

lemma tags_differ: "\<not> (fold_match ''Env'' k \<and> fold_match ''WorkingDir'' k)"
proof -
  have lower: "lower_char CHR ''E'' = CHR ''e''" "lower_char CHR ''W'' = CHR ''w''" by code_simp+
  have "lower_char (hd k) = CHR ''e''" if "fold_match ''Env'' k"
    using that by (cases k) (auto simp: lower simp del: fold_match.simps(3) simp: fold_match.simps(3) [of "CHR ''E''"] split: if_splits)
  moreover have "lower_char (hd k) = CHR ''w''" if "fold_match ''WorkingDir'' k"
    using that by (cases k) (auto simp: lower simp del: fold_match.simps(3) simp: fold_match.simps(3) [of "CHR ''W''"] split: if_splits)
  ultimately show ?thesis by auto
qed

text \<open>Env and WorkingDir are independent of each other, and of the order of the members.\<close>

lemma decode_config:
  "decode_members config_field ms c =
     (case (decode_all decode_strings (members ''Env'' ms) (ic_Env c), decode_all decode_string (members ''WorkingDir'' ms) (ic_WorkingDir c)) of
        (Some e, Some d) \<Rightarrow> Some (c\<lparr>ic_Env := e, ic_WorkingDir := d\<rparr>) | _ \<Rightarrow> None)"
proof (induction ms arbitrary: c)
  case (Cons m ms)
  obtain k v where m: "m = (k, v)" by force
  note field = config_field_def [of k v c]
  consider "fold_match ''Env'' k" "\<not> fold_match ''WorkingDir'' k" | "\<not> fold_match ''Env'' k" "fold_match ''WorkingDir'' k"
    | "\<not> fold_match ''Env'' k" "\<not> fold_match ''WorkingDir'' k"
    using tags_differ by blast
  then show ?case
  proof cases
    case 1
    then show ?thesis
      by (cases "decode_strings (ic_Env c) v") (simp_all add: m field Cons.IH del: fold_match.simps split: option.splits)
  next
    case 2
    then show ?thesis
      by (cases "decode_string (ic_WorkingDir c) v") (simp_all add: m field Cons.IH del: fold_match.simps split: option.splits)
  next
    case 3
    then show ?thesis by (simp add: m field Cons.IH del: fold_match.simps)
  qed
qed simp

text \<open>
  What a field holds in the end: the value of its one member; without one, or when that is null, what it was.
\<close>

definition field_is :: "string \<Rightarrow> (string \<times> jvalue) list \<Rightarrow> jvalue \<Rightarrow> jvalue \<Rightarrow> bool" where
  "field_is tag ms v absent \<longleftrightarrow> members tag ms = [v] \<or> members tag ms \<in> {[], [VNull]} \<and> v = absent"

lemma decode_struct_tag:
  assumes "field_is tag ms (VObj sub) (VObj [])"
  shows "decode_members (\<lambda>k v a. if fold_match tag k then decode_struct f v a else Some a) ms a = decode_members f sub a"
  using assms unfolding decode_members_tag field_is_def by (auto simp: decode_struct_def split: option.split)

lemma unmarshal_object:
  assumes "json_parse s = Some (VObj info)"
    and "field_is ''imageSpec'' info (VObj spec) (VObj [])" and "field_is ''config'' spec (VObj config) (VObj [])"
    and "field_is ''Env'' config (VArr (map VStr envs)) (VArr [])" and "field_is ''WorkingDir'' config (VStr workdir) (VStr [])"
  shows "\<exists>i. unmarshal_imageInfo s = Some i \<and> Config_Env i = envs \<and> ic_WorkingDir i = workdir"
proof -
  have fields: "info_field = (\<lambda>k v a. if fold_match ''imageSpec'' k then decode_struct spec_field v a else Some a)"
    "spec_field = (\<lambda>k v a. if fold_match ''config'' k then decode_struct config_field v a else Some a)"
    by (simp_all add: info_field_def spec_field_def fun_eq_iff)
  have "unmarshal_imageInfo s = decode_members config_field config zero_imageInfo"
  proof -
    have "unmarshal_imageInfo s = decode_members info_field info zero_imageInfo"
      by (simp add: unmarshal_imageInfo_def decode_struct_def assms(1))
    also have "\<dots> = decode_members spec_field spec zero_imageInfo"
      unfolding fields(1) by (rule decode_struct_tag [OF assms(2)])
    also have "\<dots> = decode_members config_field config zero_imageInfo"
      unfolding fields(2) by (rule decode_struct_tag [OF assms(3)])
    finally show ?thesis .
  qed
  moreover obtain e where "decode_all decode_strings (members ''Env'' config) ([], 0) = Some e" "take (snd e) (fst e) = envs"
    using assms(4) decode_strings_fresh [of envs] by (auto simp: field_is_def decode_strings_def)
  moreover have "decode_all decode_string (members ''WorkingDir'' config) [] = Some workdir"
    using assms(5) by (auto simp: field_is_def decode_string_def)
  ultimately show ?thesis by (simp add: decode_config zero_imageInfo_def Config_Env_def)
qed

end
