(* ===== verification/Workload.thy ===== *)
theory Workload
  imports Fork ImageInfo
begin

text \<open>
  controllers/cliapp_workload.go: the pod that runs an app. \<open>applyAppConfig\<close> rewrites the target
  container of a manifest; its stages are functions of their own, in the order of the source.
\<close>

section \<open>Constants\<close>

definition appLabel :: string where [simp]: "appLabel = ''cliapp.warm-metal.tech''"
definition appContainer :: string where [simp]: "appContainer = ''workspace''"
definition appRoot :: string where [simp]: "appRoot = ''/app-root''"
definition appImageVolume :: string where [simp]: "appImageVolume = ''app''"
definition csiImageDriverName :: string where
  [simp]: "csiImageDriverName = ''csi-image.warm-metal.tech''"
definition csiConfigMapDriverName :: string where
  [simp]: "csiConfigMapDriverName = ''csi-cm.warm-metal.tech''"
definition annoKeySpecHash :: string where
  [simp]: "annoKeySpecHash = ''cliapp.warm-metal.tech/spec-hash''"
definition annoKeySpecDump :: string where
  [simp]: "annoKeySpecDump = ''cliapp.warm-metal.tech/spec''"

definition convertToManifest :: "CliApp \<Rightarrow> Pod" where
  "convertToManifest app =
     zero_Pod\<lparr>pod_Spec := zero_PodSpec\<lparr>ps_Containers :=
       [zero_Container\<lparr>c_Image := spec_Image (app_Spec app)\<rparr>]\<rparr>\<rparr>"

section \<open>fetchImageConfiguration\<close>

fun find_path_env :: "string list \<Rightarrow> string" where
  "find_path_env [] = []"
| "find_path_env (e # es) = (if HasPrefix e ''PATH='' then drop 5 e else find_path_env es)"

definition fetchImageConfiguration ::
  "env \<Rightarrow> string \<Rightarrow> (world, goerror + string \<times> string) go" where
  "fetchImageConfiguration env img =
     bnd (ask (CImageStatus img) (e_imageStatus env)) (\<lambda>resp.
     case resp of
       Inl err \<Rightarrow> ret (Inl err)
     | Inr info \<Rightarrow>
         if map_is_empty info then ret (Inr ([], []))
         else if map_get info ''info'' = [] then ret (Inr ([], []))
         else case unmarshal_imageInfo (map_get info ''info'') of
           None \<Rightarrow> ret (Inl (e_jsonError env (map_get info ''info'')))
         | Some c \<Rightarrow> ret (Inr (ic_WorkingDir c, find_path_env (Config_Env c))))"

section \<open>The stages of applyAppConfig\<close>

text \<open>One entry of \<open>Spec.HostPath\<close>: the host path and the mount point.\<close>

definition parse_hostpath :: "string \<Rightarrow> goerror + string \<times> string" where
  "parse_hostpath path =
     (let mountPair = split_on (CHR '':'') (TrimSpace path) in
      if length mountPair = 0 then Inl (Errorf ''invalid hostpath spec'')
      else let hostpath = TrimSpace (mountPair ! 0) in
        if \<not> IsAbs hostpath then Inl (Errorf ''hostpath can't be empty'')
        else if length mountPair > 1 then
          (let mountpoint = TrimSpace (mountPair ! 1) in
           if \<not> IsAbs mountpoint then Inl (Errorf ''mountpoint must be an absolute path'')
           else Inr (hostpath, mountpoint))
        else Inr (hostpath, hostpath))"

fun parse_hostpaths :: "nat \<Rightarrow> string list \<Rightarrow> goerror + Volume list \<times> VolumeMount list" where
  "parse_hostpaths i [] = Inr ([], [])"
| "parse_hostpaths i (p # ps) =
     (case parse_hostpath p of
        Inl err \<Rightarrow> Inl err
      | Inr (hostpath, mountpoint) \<Rightarrow>
          (let volume = ''hostpath-'' @ show_nat i in
           case parse_hostpaths (Suc i) ps of
             Inl err \<Rightarrow> Inl err
           | Inr (vols, mounts) \<Rightarrow>
               Inr (\<lparr>vol_Name = volume, vol_Source = HostPathSource hostpath\<rparr> # vols,
                    \<lparr>vm_Name = volume, vm_MountPath = mountpoint, vm_other = []\<rparr> # mounts)))"

text \<open>One entry of \<open>Spec.Env\<close>.\<close>

definition mk_env :: "string \<Rightarrow> string \<Rightarrow> EnvVar" where
  "mk_env n v = \<lparr>env_Name = n, env_Value = v, env_ValueFrom = None\<rparr>"

definition parse_env :: "string \<Rightarrow> goerror + EnvVar" where
  "parse_env kv =
     (let envPair = split_on (CHR ''='') kv in
      if length envPair \<noteq> 2 then
        Inl (Errorf (''environment variable must be in the form of '' @ quoted ''key=value''))
      else let e = mk_env (TrimSpace (envPair ! 0)) (TrimSpace (envPair ! 1)) in
        if length (env_Name e) = 0 then
          Inl (Errorf ''the key of environment variable must be not empty'')
        else Inr e)"

fun parse_envs :: "string list \<Rightarrow> goerror + EnvVar list" where
  "parse_envs [] = Inr []"
| "parse_envs (kv # kvs) =
     (case parse_env kv of
        Inl err \<Rightarrow> Inl err
      | Inr e \<Rightarrow> (case parse_envs kvs of Inl err \<Rightarrow> Inl err | Inr es \<Rightarrow> Inr (e # es)))"

text \<open>The shell, the distro and the context image.\<close>

definition choose_context ::
  "CliAppReconciler \<Rightarrow> CliAppSpec \<Rightarrow> CliAppShell \<times> CliAppDistro \<times> string" where
  "choose_context r spec =
     (if length (r_DefaultAppContextImage r) = 0 then
        (let sh = (if length (spec_Shell spec) > 0 then spec_Shell spec else r_DefaultShell r);
             distro = (if length (spec_Distro spec) > 0 then spec_Distro spec else r_DefaultDistro r)
         in (sh, distro,
             ''docker.io/warmmetal/app-context-'' @ ToLower sh @ ''-'' @ ToLower distro @ '':latest''))
      else (r_DefaultShell r, r_DefaultDistro r, r_DefaultAppContextImage r))"

definition set_meta :: "CliApp \<Rightarrow> string \<Rightarrow> Pod \<Rightarrow> Pod" where
  "set_meta app suffix pod =
     pod\<lparr>pod_Name := app_Name app @ ''-'' @ suffix,
         pod_Namespace := app_Namespace app,
         pod_OwnerReferences :=
           [\<lparr>or_APIVersion = app_APIVersion app, or_Kind = app_Kind app, or_Name = app_Name app,
             or_UID = app_UID app, or_Controller = True, or_BlockOwnerDeletion = True\<rparr>],
         pod_Labels :=
           (case pod_Labels pod of
              None \<Rightarrow> Some [appLabel \<mapsto> app_Name app]
            | Some ls \<Rightarrow> Some (ls(appLabel \<mapsto> app_Name app)))\<rparr>"

text \<open>\<open>PATH\<close>, when the image has one: each of its directories under the app root.\<close>

definition default_path :: string where
  "default_path = ''/usr/local/sbin:/usr/local/bin:/usr/sbin:/usr/bin:/sbin:/bin:''"

definition path_envs :: "string \<Rightarrow> EnvVar list" where
  "path_envs paths =
     (if paths \<noteq> [] then
        [mk_env ''PATH'' (default_path @
           join_with '':'' (map (\<lambda>p. PathJoin [appRoot, p]) (split_on (CHR '':'') paths)))]
      else [])"

definition add_sys_admin :: "Container \<Rightarrow> Container" where
  "add_sys_admin c =
     (case c_SecurityContext c of
        None \<Rightarrow> c\<lparr>c_SecurityContext := Some
          \<lparr>sc_Capabilities = Some \<lparr>cap_Add = [''SYS_ADMIN''], cap_Drop = []\<rparr>, sc_other = []\<rparr>\<rparr>
      | Some sc \<Rightarrow>
          (case sc_Capabilities sc of
             None \<Rightarrow> c\<lparr>c_SecurityContext := Some
               (sc\<lparr>sc_Capabilities := Some \<lparr>cap_Add = [''SYS_ADMIN''], cap_Drop = []\<rparr>\<rparr>)\<rparr>
           | Some caps \<Rightarrow> c\<lparr>c_SecurityContext := Some
               (sc\<lparr>sc_Capabilities := Some (caps\<lparr>cap_Add := cap_Add caps @ [''SYS_ADMIN'']\<rparr>)\<rparr>)\<rparr>))"

text \<open>\<open>installShellContext\<close>: the volumes and mounts it appends.\<close>

definition shell_rc_volume :: "string \<Rightarrow> Volume" where
  "shell_rc_volume rc = \<lparr>vol_Name = ''shell-rc'', vol_Source = CSISource csiConfigMapDriverName
     [''configMap'' \<mapsto> ''cliapp-shell-context'', ''namespace'' \<mapsto> ''cliapp-system'',
      ''subPath'' \<mapsto> rc, ''keepCurrentAlways'' \<mapsto> ''true'']\<rparr>"

definition shell_history_volume :: "string \<Rightarrow> Volume" where
  "shell_history_volume history = \<lparr>vol_Name = ''shell-history'',
     vol_Source = CSISource csiConfigMapDriverName
     [''configMap'' \<mapsto> ''cliapp-shell-context'', ''namespace'' \<mapsto> ''cliapp-system'',
      ''subPath'' \<mapsto> history, ''commitChangesOn'' \<mapsto> ''unmount'',
      ''conflictPolicy'' \<mapsto> ''override'', ''oversizePolicy'' \<mapsto> ''truncateHeadLine'']\<rparr>"

definition mount :: "string \<Rightarrow> string \<Rightarrow> VolumeMount" where
  "mount name path = \<lparr>vm_Name = name, vm_MountPath = path, vm_other = []\<rparr>"

definition installShellContext ::
  "labels \<Rightarrow> string \<Rightarrow> string \<Rightarrow> Volume list \<times> VolumeMount list \<Rightarrow> Volume list \<times> VolumeMount list" where
  "installShellContext data rc history vm =
     (let vm1 = (if length (map_get (Some data) rc) > 0 then
                   (fst vm @ [shell_rc_volume rc], snd vm @ [mount ''shell-rc'' (''/root/'' @ rc)])
                 else vm)
      in if data history \<noteq> None then
           (fst vm1 @ [shell_history_volume history],
            snd vm1 @ [mount ''shell-history'' (''/root/'' @ history)])
         else vm1)"

definition shell_volumes ::
  "CliAppShell \<Rightarrow> labels option \<Rightarrow> (world, Volume list \<times> VolumeMount list) go" where
  "shell_volumes sh cm =
     (case cm of
        None \<Rightarrow> ret ([], [])
      | Some data \<Rightarrow>
          if sh = CliAppShellZsh then
            ret (installShellContext data ''.zshrc'' ''.zsh_history'' ([], []))
          else if sh = CliAppShellBash then
            ret (installShellContext data ''.bash_profile'' ''.bash_history'' ([], []))
          else throw sh)"

section \<open>applyAppConfig\<close>

text \<open>The target container after the configuration of its image, \<open>workdir\<close> and \<open>paths\<close>, is known.\<close>

definition configured_container ::
  "CliAppShell \<Rightarrow> CliAppDistro \<Rightarrow> string \<Rightarrow> string \<Rightarrow> string \<Rightarrow> EnvVar list \<Rightarrow> VolumeMount list
     \<Rightarrow> VolumeMount list \<Rightarrow> Container \<Rightarrow> Container" where
  "configured_container sh distro ctxImage workdir paths envs hostMounts shellMounts c =
     add_sys_admin
       (c\<lparr>c_Image := ctxImage,
          c_Name := appContainer,
          c_Env := c_Env c @ [mk_env ''APP_ROOT'' appRoot, mk_env ''DISTRO'' distro, mk_env ''SHELL'' sh]
                     @ path_envs paths @ envs,
          c_WorkingDir := (if c_WorkingDir c = [] \<and> workdir \<noteq> [] then PathJoin [appRoot, workdir]
                           else c_WorkingDir c),
          c_Stdin := True,
          c_VolumeMounts := c_VolumeMounts c @ hostMounts @ [mount appImageVolume appRoot] @ shellMounts\<rparr>)"

definition image_volume :: "string \<Rightarrow> Volume" where
  "image_volume img =
     \<lparr>vol_Name = appImageVolume, vol_Source = CSISource csiImageDriverName [''image'' \<mapsto> img]\<rparr>"

definition applyAppConfig ::
  "env \<Rightarrow> CliAppReconciler \<Rightarrow> Pod \<Rightarrow> nat \<Rightarrow> CliApp \<Rightarrow> labels option \<Rightarrow> (world, goerror + Pod) go" where
  "applyAppConfig env r pod target app shellCtxCM =
     (case parse_hostpaths 0 (spec_HostPath (app_Spec app)) of
        Inl err \<Rightarrow> ret (Inl err)
      | Inr (hostVolumes, hostMounts) \<Rightarrow>
     (case parse_envs (spec_Env (app_Spec app)) of
        Inl err \<Rightarrow> ret (Inl err)
      | Inr envs \<Rightarrow>
     (case choose_context r (app_Spec app) of (sh, distro, ctxImage) \<Rightarrow>
     bnd (ask (CRandString 5) (e_rand env)) (\<lambda>suffix.
     let pod = set_meta app suffix pod;
         cs = ps_Containers (pod_Spec pod)
     in if length cs \<le> target then throw ''index out of range''
        else
        let targetImage = c_Image (cs ! target) in
        bnd (fetchImageConfiguration env targetImage) (\<lambda>conf.
        case conf of
          Inl err \<Rightarrow> ret (Inl err)
        | Inr (workdir, paths) \<Rightarrow>
        bnd (shell_volumes sh shellCtxCM) (\<lambda>(shellVolumes, shellMounts).
        let spec = pod_Spec pod;
            c = configured_container sh distro ctxImage workdir paths envs hostMounts shellMounts (cs ! target);
            spec = spec\<lparr>ps_Containers := cs[target := c],
                        ps_Volumes := ps_Volumes spec @ hostVolumes @ [image_volume targetImage] @ shellVolumes\<rparr>
        in ret (Inr (pod\<lparr>pod_Spec := spec\<rparr>))))))))"

section \<open>startApp\<close>

definition generate_manifest ::
  "env \<Rightarrow> CliAppReconciler \<Rightarrow> CliApp \<Rightarrow> (world, goerror + Pod \<times> nat) go" where
  "generate_manifest env r app =
     (case spec_Fork (app_Spec app) of
        Some fork \<Rightarrow> fetchForkTargetPod env r (app_Namespace app) fork
      | None \<Rightarrow> ret (Inr (convertToManifest app, 0)))"

definition annotate :: "string \<Rightarrow> string \<Rightarrow> Pod \<Rightarrow> Pod" where
  "annotate specDump specHash pod =
     (let m = (case pod_Annotations pod of None \<Rightarrow> Map.empty | Some m \<Rightarrow> m)
      in pod\<lparr>pod_Annotations := Some (m(annoKeySpecDump \<mapsto> specDump, annoKeySpecHash \<mapsto> specHash))\<rparr>)"

definition startApp ::
  "env \<Rightarrow> CliAppReconciler \<Rightarrow> CliApp \<Rightarrow> string \<Rightarrow> string \<Rightarrow> (world, goerror + Pod) go" where
  "startApp env r app specDump specHash =
     bnd (generate_manifest env r app) (\<lambda>manifest.
     case manifest of
       Inl err \<Rightarrow> ret (Inl err)
     | Inr (pod, target) \<Rightarrow>
     bnd (ask (CGetConfigMap ''cliapp-system'' ''cliapp-shell-context'') (e_getConfigMap env)) (\<lambda>cm.
     let shellContextCM = (case cm of Inl err \<Rightarrow> None | Inr data \<Rightarrow> Some data) in
     bnd (applyAppConfig env r pod target app shellContextCM) (\<lambda>configured.
     case configured of
       Inl err \<Rightarrow> ret (Inl err)
     | Inr pod \<Rightarrow>
         let pod = annotate specDump specHash pod in
         bnd (ask (CCreatePod pod) (e_createPod env)) ret)))"

end
