(* ===== verification/SpecJson.thy ===== *)
theory SpecJson
  imports Json ApiTypes
begin

text \<open>
  \<open>encodeSpec\<close> of controllers/cliapp_live.go: the JSON text of a spec, by the tags of pkg/apis/cliapp/v1/cliapp_types.go. Every
  field is \<open>omitempty\<close>: empty strings and lists, \<open>false\<close> and a nil \<open>Fork\<close> are left out. The text decides the spec.
\<close>

section \<open>Members\<close>

definition string_member :: "string \<Rightarrow> string \<Rightarrow> (string \<times> json) list" where
  "string_member k s = (if s = [] then [] else [(k, JStr s)])"

definition strings_member :: "string \<Rightarrow> string list \<Rightarrow> (string \<times> json) list" where
  "strings_member k ss = (if ss = [] then [] else [(k, JArr (map JStr ss))])"

definition bool_member :: "string \<Rightarrow> bool \<Rightarrow> (string \<times> json) list" where
  "bool_member k b = (if b then [(k, JBool True)] else [])"

definition fork_json :: "ForkObject \<Rightarrow> json" where
  "fork_json f =
     JObj (string_member ''object'' (fork_Object f)
       @ string_member ''container'' (fork_Container f)
       @ bool_member ''withEnvs'' (fork_WithEnvs f))"

definition spec_json :: "CliAppSpec \<Rightarrow> json" where
  "spec_json spec =
     JObj ((case spec_Fork spec of None \<Rightarrow> [] | Some f \<Rightarrow> [(''fork'', fork_json f)])
       @ string_member ''image'' (spec_Image spec)
       @ string_member ''dockerfile'' (spec_Dockerfile spec)
       @ strings_member ''command'' (spec_Command spec)
       @ strings_member ''hostpath'' (spec_HostPath spec)
       @ strings_member ''env'' (spec_Env spec)
       @ string_member ''distro'' (spec_Distro spec)
       @ string_member ''shell'' (spec_Shell spec)
       @ string_member ''targetPhase'' (spec_TargetPhase spec)
       @ bool_member ''uninstall'' (spec_UninstallUnlessLive spec))"

text \<open>\<open>json.Marshal\<close> has no error for a value of these types, so \<open>encodeSpec\<close> does not panic.\<close>

definition encodeSpec :: "CliAppSpec \<Rightarrow> string" where
  "encodeSpec spec = json_text (spec_json spec)"

text \<open>Specs whose strings are UTF-8, as all strings of the API are.\<close>

definition utf8_spec :: "CliAppSpec \<Rightarrow> bool" where
  "utf8_spec spec \<longleftrightarrow>
     (\<forall>f. spec_Fork spec = Some f \<longrightarrow> valid_utf8 (fork_Object f) \<and> valid_utf8 (fork_Container f))
   \<and> valid_utf8 (spec_Image spec) \<and> valid_utf8 (spec_Dockerfile spec)
   \<and> list_all valid_utf8 (spec_Command spec @ spec_HostPath spec @ spec_Env spec)
   \<and> valid_utf8 (spec_Distro spec) \<and> valid_utf8 (spec_Shell spec) \<and> valid_utf8 (spec_TargetPhase spec)"

section \<open>The text decides the spec\<close>

lemma map_of_members [simp]:
  "map_of (string_member k s) l = (if k = l \<and> s \<noteq> [] then Some (JStr s) else None)"
  "map_of (strings_member k ss) l = (if k = l \<and> ss \<noteq> [] then Some (JArr (map JStr ss)) else None)"
  "map_of (bool_member k b) l = (if k = l \<and> b then Some (JBool True) else None)"
  by (simp_all add: string_member_def strings_member_def bool_member_def)

lemma valid_members [simp]:
  "(\<forall>(k, v) \<in> set (string_member n s). valid_utf8 k \<and> valid_json v) \<longleftrightarrow> s = [] \<or> valid_utf8 n \<and> valid_utf8 s"
  "(\<forall>(k, v) \<in> set (strings_member n ss). valid_utf8 k \<and> valid_json v)
     \<longleftrightarrow> ss = [] \<or> valid_utf8 n \<and> list_all valid_utf8 ss"
  "(\<forall>(k, v) \<in> set (bool_member n b). valid_utf8 k \<and> valid_json v) \<longleftrightarrow> \<not> b \<or> valid_utf8 n"
  by (auto simp: string_member_def strings_member_def bool_member_def list_all_iff)

lemma member_eq:
  "(if s \<noteq> [] then Some (JStr s) else None) = (if t \<noteq> [] then Some (JStr t) else None) \<Longrightarrow> s = t"
  "(if ss \<noteq> [] then Some (JArr (map JStr ss)) else None) = (if ts \<noteq> [] then Some (JArr (map JStr ts)) else None)
     \<Longrightarrow> ss = ts"
  "(if a then Some (JBool True) else None) = (if b then Some (JBool True) else None) \<Longrightarrow> a = b"
  by (auto simp: inj_def dest: map_injective split: if_splits)

lemma lookup_append:
  "map_of xs k = None \<Longrightarrow> map_of (xs @ ys) k = map_of ys k"
  "map_of ys k = None \<Longrightarrow> map_of (xs @ ys) k = map_of xs k"
  by (auto simp: map_add_def split: option.splits)

lemma lookup_eq: "JObj ms = JObj ns \<Longrightarrow> map_of ms k = map_of ns k"
  by simp

lemma fork_json_inject: "fork_json f = fork_json g \<Longrightarrow> f = g"
proof -
  assume "fork_json f = fork_json g"
  note at = this [unfolded fork_json_def, THEN lookup_eq]
  from at [of "''object''"] have "fork_Object f = fork_Object g"
    by (intro member_eq(1)) (simp add: lookup_append del: map_of_append)
  moreover from at [of "''container''"] have "fork_Container f = fork_Container g"
    by (intro member_eq(1)) (simp add: lookup_append del: map_of_append)
  moreover from at [of "''withEnvs''"] have "fork_WithEnvs f = fork_WithEnvs g"
    by (intro member_eq(3)) (simp add: lookup_append del: map_of_append)
  ultimately show "f = g" by simp
qed

definition fork_members :: "ForkObject option \<Rightarrow> (string \<times> json) list" where
  "fork_members fork = (case fork of None \<Rightarrow> [] | Some f \<Rightarrow> [(''fork'', fork_json f)])"

lemma map_of_fork_members [simp]:
  "map_of (fork_members fork) l = (if l = ''fork'' then map_option fork_json fork else None)"
  by (cases fork) (simp_all add: fork_members_def)

lemma spec_json_inject: "spec_json s = spec_json t \<Longrightarrow> s = t"
proof -
  assume "spec_json s = spec_json t"
  note at = this [unfolded spec_json_def, folded fork_members_def, THEN lookup_eq]
  note look = at [of "''fork''"] at [of "''image''"] at [of "''dockerfile''"] at [of "''command''"] at [of "''hostpath''"]
    at [of "''env''"] at [of "''distro''"] at [of "''shell''"] at [of "''targetPhase''"] at [of "''uninstall''"]
  have "map_option fork_json (spec_Fork s) = map_option fork_json (spec_Fork t)"
    using look(1) by (simp add: lookup_append del: map_of_append)
  then have "spec_Fork s = spec_Fork t"
    by (cases "spec_Fork s"; cases "spec_Fork t") (simp_all add: fork_json_inject)
  moreover have "spec_Image s = spec_Image t"
    using look(2) by (intro member_eq(1)) (simp add: lookup_append del: map_of_append)
  moreover have "spec_Dockerfile s = spec_Dockerfile t"
    using look(3) by (intro member_eq(1)) (simp add: lookup_append del: map_of_append)
  moreover have "spec_Command s = spec_Command t"
    using look(4) by (intro member_eq(2)) (simp add: lookup_append del: map_of_append)
  moreover have "spec_HostPath s = spec_HostPath t"
    using look(5) by (intro member_eq(2)) (simp add: lookup_append del: map_of_append)
  moreover have "spec_Env s = spec_Env t"
    using look(6) by (intro member_eq(2)) (simp add: lookup_append del: map_of_append)
  moreover have "spec_Distro s = spec_Distro t"
    using look(7) by (intro member_eq(1)) (simp add: lookup_append del: map_of_append)
  moreover have "spec_Shell s = spec_Shell t"
    using look(8) by (intro member_eq(1)) (simp add: lookup_append del: map_of_append)
  moreover have "spec_TargetPhase s = spec_TargetPhase t"
    using look(9) by (intro member_eq(1)) (simp add: lookup_append del: map_of_append)
  moreover have "spec_UninstallUnlessLive s = spec_UninstallUnlessLive t"
    using look(10) by (intro member_eq(3)) (simp add: lookup_append del: map_of_append)
  ultimately show "s = t" by simp
qed

lemma valid_spec_json: "utf8_spec s \<Longrightarrow> valid_json (spec_json s)"
proof -
  assume u: "utf8_spec s"
  have "valid_json (fork_json f)" if "spec_Fork s = Some f" for f
    using u that by (simp add: fork_json_def utf8_spec_def ball_Un byte_def)
  then show ?thesis
    using u by (auto simp: spec_json_def utf8_spec_def ball_Un byte_def split: option.splits)
qed

theorem encodeSpec_inject:
  assumes "encodeSpec s = encodeSpec t" and "utf8_spec s" and "utf8_spec t"
  shows "s = t"
  using assms unfolding encodeSpec_def
  by (intro spec_json_inject json_text_inject) (simp_all add: valid_spec_json)

lemma encodeSpec_not_Nil [simp]: "encodeSpec s \<noteq> []"
  by (simp add: encodeSpec_def spec_json_def)

end
