(* ===== verification/Live.thy ===== *)
theory Live
  imports Rest Workload SpecJson
begin

text \<open>
  controllers/cliapp_live.go: \<open>makeAppLive\<close>, the handler of an app whose target phase is Live, with
  the hash of a spec (its dump is \<open>encodeSpec\<close> in SpecJson) and \<open>claimPods\<close>, which sorts an app's pods into the current one
  and the old ones.
\<close>

section \<open>computeHash\<close>

text \<open>FNV-1a on 32 bits (\<open>hash/fnv\<close>).\<close>

definition fnv_offset32 :: "32 word" where "fnv_offset32 = 2166136261"
definition fnv_prime32 :: "32 word" where "fnv_prime32 = 16777619"

definition fnv_byte :: "32 word \<Rightarrow> char \<Rightarrow> 32 word" where
  "fnv_byte h c = (xor h (word_of_nat (of_char c))) * fnv_prime32"

definition fnv32a :: "string \<Rightarrow> 32 word" where
  "fnv32a s = foldl fnv_byte fnv_offset32 s"

definition computeHash :: "env \<Rightarrow> CliAppSpec \<Rightarrow> string" where
  "computeHash env spec = e_safeEncode env (show_nat (unat (fnv32a (e_spewDump env spec))))"

section \<open>claimPods\<close>

text \<open>The body of the loop over the pods of the app.\<close>

definition claim_pod :: "string \<Rightarrow> string \<Rightarrow> Pod list \<times> Pod list \<Rightarrow> Pod \<Rightarrow> Pod list \<times> Pod list" where
  "claim_pod specDump specHash = (\<lambda>(oldPods, newPods) pod.
     if pod_DeletionTimestamp pod \<noteq> None then (oldPods, newPods)
     else
       let oldPods =
             (if map_is_empty (pod_Annotations pod)
                 \<or> annotation pod annoKeySpecHash \<noteq> specHash
                 \<or> annotation pod annoKeySpecDump = []
              then oldPods @ [pod] else oldPods)
       in if annotation pod annoKeySpecDump \<noteq> specDump then (oldPods @ [pod], newPods)
          else (oldPods, newPods @ [pod]))"

definition sort_pods :: "string \<Rightarrow> string \<Rightarrow> Pod list \<Rightarrow> Pod list \<times> Pod list" where
  "sort_pods specDump specHash items =
     (let (oldPods, newPods) = foldl (claim_pod specDump specHash) ([], []) items
      in (if length newPods > 1 then oldPods @ drop 1 newPods else oldPods, newPods))"

text \<open>The loop that recycles the old pods: errors are logged and dropped.\<close>

definition recycle_pods :: "env \<Rightarrow> string \<Rightarrow> Pod list \<Rightarrow> (world, unit) go" where
  "recycle_pods env ns pods =
     for_each pods () (\<lambda>pod _.
       bnd (ask (CClientDeletePod ns (pod_Name pod)) (e_clientDeletePod env)) (\<lambda>_. ret ()))"

definition claimPods ::
  "env \<Rightarrow> CliAppReconciler \<Rightarrow> CliApp \<Rightarrow> string \<Rightarrow> string \<Rightarrow> (world, goerror + Pod option) go" where
  "claimPods env r app specDump specHash =
     (case r_ToRESTConfig r () of
        Inl err \<Rightarrow> throw (ErrorText err)
      | Inr config \<Rightarrow>
     bnd (ask CNewClientset (e_newClientset env)) (\<lambda>err.
     case err of
       Some e \<Rightarrow> ret (Inl e)
     | None \<Rightarrow>
     bnd (ask (CClientListPods (app_Namespace app) (appLabel @ ''='' @ app_Name app))
            (e_clientListPods env)) (\<lambda>resp.
     case resp of
       Inl e \<Rightarrow> ret (Inl (Errorf (''unable to fetch pods: '' @ ErrorText e)))
     | Inr items \<Rightarrow>
         let (oldPods, newPods) = sort_pods specDump specHash items in
         bnd (recycle_pods env (app_Namespace app) oldPods) (\<lambda>_.
         ret (Inr (if length newPods > 0 then Some (hd newPods) else None))))))"

section \<open>makeAppLive\<close>

definition builder_test :: "env \<Rightarrow> CliApp \<Rightarrow> (world, string \<times> goerror option) go" where
  "builder_test env app =
     (\<lambda>w. with_builder (testImage (e_early env (w_calls w)) (app_Name app) (spec_Dockerfile (app_Spec app))) w)"

text \<open>The closure that \<open>RetryOnConflict\<close> runs: set the image and update the app.\<close>

definition update_image :: "env \<Rightarrow> string \<Rightarrow> CliApp \<Rightarrow> (world, goerror option \<times> CliApp) go" where
  "update_image env img app =
     (let app = set_Image img app in
      bnd (ask (CUpdate app) (e_update env)) (\<lambda>resp.
      case resp of Inl err \<Rightarrow> ret (Some err, app) | Inr stored \<Rightarrow> ret (None, stored)))"

text \<open>The part before the \<open>switch\<close>: an app with neither a fork nor an image starts to build.\<close>

definition begin_building ::
  "env \<Rightarrow> CliAppReconciler \<Rightarrow> CliApp \<Rightarrow> (world, Result \<times> goerror option \<times> CliApp) go" where
  "begin_building env r app =
     (if spec_Dockerfile (app_Spec app) = [] then
        ret (zero_Result, Some (Errorf ''specify either image or dockerfile for the app''), app)
      else if r_BuilderEndpoint r = [] then
        ret (zero_Result, Some (Errorf ''unable to build image since no image builder installed''), app)
      else
        bnd (transitPhaseTo env app CliAppPhaseBuilding) (\<lambda>(err, app).
        ret (if err = None then zero_Result\<lparr>res_RequeueAfter := DefaultRequeueDuration\<rparr>
             else zero_Result, err, app)))"

definition live_case ::
  "env \<Rightarrow> CliAppReconciler \<Rightarrow> CliApp \<Rightarrow> (world, Result \<times> goerror option \<times> CliApp) go" where
  "live_case env r app =
     (let specHash = computeHash env (app_Spec app);
          specDump = encodeSpec (app_Spec app);
          recover =
            (let app = set_PodName [] app in
             bnd (transitPhaseTo env app CliAppPhaseRecovering) (\<lambda>(err, app).
             ret (zero_Result, err, app)))
      in
      bnd (claimPods env r app specDump specHash) (\<lambda>claimed.
      case claimed of
        Inl err \<Rightarrow> ret (zero_Result, Some err, app)
      | Inr None \<Rightarrow> recover
      | Inr (Some newPod) \<Rightarrow>
          if IsPodReady newPod then
            (if PodName app \<noteq> pod_Name newPod then
               let app = set_PodName (pod_Name newPod) app in
               bnd (ask (CStatusUpdate app) (e_statusUpdate env)) (\<lambda>resp.
               case resp of
                 Inl err \<Rightarrow> ret (zero_Result, Some err, app)
               | Inr stored \<Rightarrow> ret (zero_Result, None, stored))
             else ret (zero_Result, None, app))
          else recover))"

definition recovering_case ::
  "env \<Rightarrow> CliAppReconciler \<Rightarrow> CliApp \<Rightarrow> (world, Result \<times> goerror option \<times> CliApp) go" where
  "recovering_case env r app =
     (let specHash = computeHash env (app_Spec app);
          specDump = encodeSpec (app_Spec app)
      in
      bnd (claimPods env r app specDump specHash) (\<lambda>claimed.
      case claimed of
        Inl err \<Rightarrow> ret (zero_Result, Some err, app)
      | Inr (Some newPod) \<Rightarrow>
          if IsPodReady newPod then
            (let app = set_PodName (pod_Name newPod) app in
             bnd (transitPhaseTo env app CliAppPhaseLive) (\<lambda>(err, app).
             ret (zero_Result, err, app)))
          else ret (zero_Result, None, app)
      | Inr None \<Rightarrow>
          bnd (startApp env r app specDump specHash) (\<lambda>started.
          ret (zero_Result, (case started of Inl err \<Rightarrow> Some err | Inr _ \<Rightarrow> None), app))))"

definition building_case ::
  "env \<Rightarrow> CliApp \<Rightarrow> (world, Result \<times> goerror option \<times> CliApp) go" where
  "building_case env app =
     (let to_recovering = (\<lambda>app.
            bnd (transitPhaseTo env app CliAppPhaseRecovering) (\<lambda>(err, app).
            ret (if err = None then zero_Result\<lparr>res_Requeue := True\<rparr> else zero_Result, err, app)));
          later = zero_Result\<lparr>res_RequeueAfter := DefaultRequeueDuration\<rparr>
      in
      if length (spec_Image (app_Spec app)) = 0 then
        bnd (builder_test env app) (\<lambda>(img, err).
        if err \<noteq> None then ret (later, None, app)
        else
          bnd (RetryOnConflict (e_retrySteps env) (update_image env img) app) (\<lambda>(err, app).
          if err \<noteq> None then ret (later, err, app) else to_recovering app))
      else to_recovering app)"

definition makeAppLive ::
  "env \<Rightarrow> CliAppReconciler \<Rightarrow> CliApp \<Rightarrow> (world, Result \<times> goerror option \<times> CliApp) go" where
  "makeAppLive env r app =
     (if TargetPhase app \<noteq> CliAppPhaseLive then throw (app_Name app)
      else if spec_Fork (app_Spec app) = None \<and> Phase app \<noteq> CliAppPhaseBuilding
          \<and> spec_Image (app_Spec app) = [] then
        begin_building env r app
      else if Phase app = [] \<or> Phase app = CliAppPhaseShuttingDown
          \<or> Phase app = CliAppPhaseWaitingForSessions \<or> Phase app = CliAppPhaseRest then
        bnd (transitPhaseTo env app CliAppPhaseRecovering) (\<lambda>(err, app).
        ret (zero_Result\<lparr>res_Requeue := True\<rparr>, err, app))
      else if Phase app = CliAppPhaseLive then live_case env r app
      else if Phase app = CliAppPhaseRecovering then recovering_case env r app
      else if Phase app = CliAppPhaseBuilding then building_case env app
      else throw (Phase app))"

text \<open>The builder is polled with the answer of the race at that time.\<close>

lemma wp_builder_test [wp_simps, simp]:
  "wp (builder_test env app) Q E w =
     wp (testImage (e_early env (w_calls w)) (app_Name app) (spec_Dockerfile (app_Spec app)))
       (\<lambda>x b. Q x (w\<lparr>w_builder := b\<rparr>)) (\<lambda>p b. E p (w\<lparr>w_builder := b\<rparr>)) (w_builder w)"
proof -
  have "wp (builder_test env app) Q E w =
      wp (with_builder (testImage (e_early env (w_calls w)) (app_Name app) (spec_Dockerfile (app_Spec app)))) Q E w"
    by (simp add: wp_def builder_test_def)
  then show ?thesis by simp
qed

end
