(* ===== verification/Reconcile.thy ===== *)
theory Reconcile
  imports Live
begin

text \<open>
  controllers/cliapp_controller.go: \<open>Reconcile\<close>. The deferred function runs after the body: it records
  an error in the app's status and drops it.
\<close>

definition report_error ::
  "env \<Rightarrow> Result \<times> goerror option \<times> CliApp \<Rightarrow> (world, Result \<times> goerror option) go" where
  "report_error env = (\<lambda>(result, err, app).
     case err of
       None \<Rightarrow> ret (result, None)
     | Some e \<Rightarrow>
         bnd (ask (CStatusUpdate (set_Error (ErrorText e) app)) (e_statusUpdate env)) (\<lambda>_.
         ret (result, None)))"

definition reconcile_body ::
  "env \<Rightarrow> CliAppReconciler \<Rightarrow> CliApp \<Rightarrow> (world, Result \<times> goerror option \<times> CliApp) go" where
  "reconcile_body env r app =
     (case validateApp app of
        Some err \<Rightarrow> ret (zero_Result, Some err, app)
      | None \<Rightarrow>
          if TargetPhase app = CliAppPhaseRest then
            (if TargetPhase app = Phase app then ret (zero_Result, None, app)
             else makeAppRest env r app)
          else if TargetPhase app = CliAppPhaseLive then makeAppLive env r app
          else ret (zero_Result, Some (Errorf ''TargetPhase can only be either Rest or Live''), app))"

definition Reconcile ::
  "env \<Rightarrow> CliAppReconciler \<Rightarrow> string \<Rightarrow> string \<Rightarrow> (world, Result \<times> goerror option) go" where
  "Reconcile env r ns name =
     bnd (ask (CGetApp ns name) (e_getApp env)) (\<lambda>resp.
     case resp of
       Inl err \<Rightarrow> ret (zero_Result, IgnoreNotFound err)
     | Inr app \<Rightarrow>
         bnd (reconcile_body env r (set_Error [] app)) (report_error env))"

section \<open>The phase machine\<close>

text \<open>
  The transitions between phases that the controller promises, for an app whose spec and phase are
  those of \<open>app\<close>: a target of Rest leads through ShuttingDown, by way of WaitingForSessions when the
  app was live and stays installed; a target of Live leads through Recovering, by way of Building
  when there is no image.
\<close>

definition phase_edge :: "CliApp \<Rightarrow> CliAppPhase \<Rightarrow> bool" where
  "phase_edge app p \<longleftrightarrow>
     (let spec = app_Spec app; old = Phase app in
      if spec_TargetPhase spec = CliAppPhaseRest then
        (old = CliAppPhaseLive \<and> p = CliAppPhaseWaitingForSessions \<and> \<not> spec_UninstallUnlessLive spec)
      \<or> (old = CliAppPhaseLive \<and> p = CliAppPhaseShuttingDown \<and> spec_UninstallUnlessLive spec)
      \<or> (old \<in> {[], CliAppPhaseWaitingForSessions, CliAppPhaseRecovering, CliAppPhaseBuilding}
           \<and> p = CliAppPhaseShuttingDown)
      \<or> (old = CliAppPhaseShuttingDown \<and> p = CliAppPhaseRest \<and> \<not> spec_UninstallUnlessLive spec)
      else if spec_TargetPhase spec = CliAppPhaseLive then
        (if spec_Fork spec = None \<and> spec_Image spec = [] \<and> old \<noteq> CliAppPhaseBuilding
         then p = CliAppPhaseBuilding \<and> spec_Dockerfile spec \<noteq> []
         else (old = CliAppPhaseRecovering \<and> p = CliAppPhaseLive)
            \<or> (old \<in> {[], CliAppPhaseShuttingDown, CliAppPhaseWaitingForSessions, CliAppPhaseRest,
                   CliAppPhaseLive, CliAppPhaseBuilding}
                \<and> p = CliAppPhaseRecovering))
      else False)"

text \<open>\<open>a\<close> is \<open>app\<close> with another status.\<close>

definition status_of :: "CliApp \<Rightarrow> CliApp \<Rightarrow> bool" where
  "status_of app a \<longleftrightarrow> app\<lparr>app_Status := app_Status a\<rparr> = a"

lemma status_of_updates [simp]:
  "status_of app app"
  "status_of app (app\<lparr>app_Status := st\<rparr>)"
  "status_of app (transited app p t)"
  "status_of app (transited (app\<lparr>app_Status := st\<rparr>) p t)"
  by (simp_all add: status_of_def transited_def Let_def)

lemma status_of_set_Status: "status_of app a \<Longrightarrow> status_of app (a\<lparr>app_Status := st\<rparr>)"
  unfolding status_of_def by (metis CliApp.surjective CliApp.update_convs(7) CliApp.select_convs)

lemma status_of_transited: "status_of app a \<Longrightarrow> status_of app (transited a p t)"
  by (simp add: transited_def Let_def status_of_set_Status)

text \<open>
  An app's pod as the controller creates it: in the app's namespace, labelled with its name, owned
  by it, and annotated with the hash and the dump of its spec.
\<close>

definition belongs_to :: "CliApp \<Rightarrow> Pod \<Rightarrow> bool" where
  "belongs_to app pod \<longleftrightarrow>
     pod_Namespace pod = app_Namespace app
   \<and> map_get (pod_Labels pod) appLabel = app_Name app
   \<and> HasPrefix (pod_Name pod) (app_Name app @ ''-'')
   \<and> pod_OwnerReferences pod =
       [\<lparr>or_APIVersion = app_APIVersion app, or_Kind = app_Kind app, or_Name = app_Name app,
         or_UID = app_UID app, or_Controller = True, or_BlockOwnerDeletion = True\<rparr>]"

text \<open>
  What the reconciler may ask of the cluster for an app it has just read. A status update writes
  the app as it was read, but for its status; only an app that waits for its image may carry the
  image as well, or be what the server answered when the image was stored.
\<close>

definition status_update_ok :: "env \<Rightarrow> CliApp \<Rightarrow> CliApp \<Rightarrow> bool" where
  "status_update_ok env app a \<longleftrightarrow>
     status_of app a \<and> (Phase a = Phase app \<or> phase_edge app (Phase a))
   \<or> (TargetPhase app = CliAppPhaseLive \<and> Phase app = CliAppPhaseBuilding
      \<and> spec_Image (app_Spec app) = []
      \<and> ((Phase a = CliAppPhaseBuilding \<and> (\<exists>img. status_of (set_Image img app) a))
          \<or> (Phase a = CliAppPhaseRecovering
             \<and> (\<exists>h stored. e_update env h = Inr stored \<and> status_of stored a))))"

definition rest_call_ok :: "env \<Rightarrow> CliApp \<Rightarrow> call \<Rightarrow> bool" where
  "rest_call_ok env app c \<longleftrightarrow>
     (case c of
        CStatusUpdate a \<Rightarrow> status_update_ok env app a
      | CNow \<Rightarrow> True
      | CDeleteApp a \<Rightarrow> a = app \<and> Phase app = CliAppPhaseShuttingDown
          \<and> spec_UninstallUnlessLive (app_Spec app)
          \<and> (\<exists>h. e_listPods env h = Inr [])
      | CListPods ns name \<Rightarrow> ns = app_Namespace app \<and> name = app_Name app
          \<and> Phase app = CliAppPhaseShuttingDown
      | CDeletePod p \<Rightarrow> Phase app = CliAppPhaseShuttingDown
          \<and> (\<exists>h items. e_listPods env h = Inr items \<and> p \<in> set items
                \<and> (\<forall>q \<in> set items. pod_DeletionTimestamp q = None))
      | _ \<Rightarrow> False)"

definition live_call_ok :: "env \<Rightarrow> CliApp \<Rightarrow> call \<Rightarrow> bool" where
  "live_call_ok env app c \<longleftrightarrow>
     (case c of
        CStatusUpdate a \<Rightarrow> status_update_ok env app a
      | CUpdate a \<Rightarrow> Phase app = CliAppPhaseBuilding \<and> spec_Image (app_Spec app) = []
          \<and> (\<exists>img. a = set_Image img app)
      | CClientListPods ns sel \<Rightarrow> ns = app_Namespace app \<and> sel = appLabel @ ''='' @ app_Name app
      | CClientDeletePod ns name \<Rightarrow> ns = app_Namespace app
          \<and> (\<exists>h items p. e_clientListPods env h = Inr items \<and> p \<in> set items \<and> name = pod_Name p
                \<and> pod_DeletionTimestamp p = None)
      | CCreatePod p \<Rightarrow> Phase app = CliAppPhaseRecovering \<and> belongs_to app p
          \<and> annotation p annoKeySpecDump = encodeSpec (app_Spec app)
          \<and> annotation p annoKeySpecHash = computeHash env (app_Spec app)
      | CGetApp ns name \<Rightarrow> False
      | CDeleteApp a \<Rightarrow> False
      | CListPods ns name \<Rightarrow> False
      | CDeletePod p \<Rightarrow> False
      | CWatchApp ns name \<Rightarrow> False
      | _ \<Rightarrow> True)"

definition reconcile_call_ok :: "env \<Rightarrow> CliApp \<Rightarrow> call \<Rightarrow> bool" where
  "reconcile_call_ok env app c \<longleftrightarrow>
     TargetPhase app = CliAppPhaseRest \<and> rest_call_ok env app c
   \<or> TargetPhase app = CliAppPhaseLive \<and> live_call_ok env app c
   \<or> (\<exists>e. c = CStatusUpdate (set_Error e app))"

end
