(* ===== verification/Contract.thy ===== *)
theory Contract
  imports Reconcile
begin

text \<open>
  What each handler asks of the cluster: every function of the reconciler makes only the calls that
  the contracts of theory Reconcile allow, for every environment.
\<close>

section \<open>Common parts\<close>

lemma calls_transitPhaseTo:
  assumes "P CNow" and "\<And>t. P (CStatusUpdate (transited app p t))"
    and "\<And>e t. R (Some e, transited app p t)" and "\<And>stored. R (None, stored)"
  shows "calls_only P (transitPhaseTo env app p) R"
  using assms unfolding triple_def
  by (auto simp: wp_transitPhaseTo Let_def emits_def split: sum.splits)

lemma calls_with_builder:
  assumes "\<And>x. R x"
  shows "calls_only P (with_builder m) R"
  using assms unfolding triple_def wp_with_builder
  by (auto simp: wp_def emits_def split: prod.splits outcome.splits)

lemma calls_bnd_with_builder [triple_intros]:
  "(\<And>x. calls_only P (k x) R) \<Longrightarrow> calls_only P (bnd (with_builder m) k) R"
  by (rule emitting.triple_bnd [OF calls_with_builder]) auto

lemma calls_bnd_builder_test [triple_intros]:
  assumes "\<And>x. calls_only P (k x) R"
  shows "calls_only P (bnd (builder_test env app) k) R"
proof (rule emitting.triple_bnd [where S = "\<lambda>_. True"])
  show "calls_only P (builder_test env app) (\<lambda>_. True)"
    by (simp add: triple_def) (simp add: wp_def emits_def split: prod.splits outcome.splits)
qed (rule assms)

lemma status_update_ok_set_Error:
  "status_update_ok env app a \<Longrightarrow> status_update_ok env app (set_Error e a)"
  unfolding status_update_ok_def by (auto intro: status_of_set_Status)

lemma status_update_ok_edge:
  "status_of app a \<Longrightarrow> phase_edge app p \<Longrightarrow> status_update_ok env app (transited a p t)"
  by (auto simp: status_update_ok_def intro: status_of_transited)

lemma status_update_ok_self [simp]:
  "status_update_ok env app app"
  "status_update_ok env app (set_PodName n app)"
  by (auto simp: status_update_ok_def)

text \<open>A handler hands on an app whose error report, if there is one, is allowed.\<close>

abbreviation reportable :: "env \<Rightarrow> CliApp \<Rightarrow> Result \<times> goerror option \<times> CliApp \<Rightarrow> bool" where
  "reportable env app \<equiv> (\<lambda>(result, err, a). err \<noteq> None \<longrightarrow> status_update_ok env app a)"

text \<open>A transition whose edge is allowed, followed by the return of its error.\<close>

lemma calls_transit_and_return:
  assumes "P CNow" and "\<And>a. status_update_ok env app a \<Longrightarrow> P (CStatusUpdate a)"
    and "\<And>t. status_update_ok env app (transited a p t)"
  shows "calls_only P (bnd (transitPhaseTo env a p) (\<lambda>(err, a'). ret (f err, err, a')))
           (reportable env app)"
  by (rule emitting.triple_bnd [OF calls_transitPhaseTo
        [where R = "\<lambda>(err, a'). err \<noteq> None \<longrightarrow> status_update_ok env app a'"]])
    (auto intro!: triple_intros assms)

section \<open>makeAppRest\<close>

lemma rest_call_ok_simps [simp]:
  "rest_call_ok env app CNow"
  "rest_call_ok env app (CStatusUpdate a) = status_update_ok env app a"
  by (simp_all add: rest_call_ok_def)

lemma calls_shut_down:
  assumes "TargetPhase app = CliAppPhaseRest" and "Phase app = CliAppPhaseShuttingDown"
  shows "calls_only (rest_call_ok env app) (shut_down env app zero_Result) (reportable env app)"
proof -
  have del: "calls_only (rest_call_ok env app) (delete_pods env ps None) (\<lambda>_. True)"
    if "e_listPods env h = Inr items" "set ps \<subseteq> set items"
      "\<forall>q \<in> set items. pod_DeletionTimestamp q = None" for h items ps
    unfolding delete_pods_def
    by (rule emitting.triple_for_each) (use that assms in \<open>fastforce intro!: triple_intros simp: rest_call_ok_def\<close>)
  show ?thesis
    unfolding shut_down_def
  proof (intro triple_intros calls_transit_and_return, goal_cases)
    case (9 h items)
    then have "\<forall>q \<in> set items. pod_DeletionTimestamp q = None"
      by (auto simp: filter_empty_conv)
    with 9 show ?case
      by (intro emitting.triple_bnd [OF del [of h items]] triple_intros) auto
  qed (use assms in \<open>auto simp: rest_call_ok_def status_update_ok_def phase_edge_def Let_def\<close>)
qed

lemma calls_makeAppRest:
  assumes "TargetPhase app = CliAppPhaseRest"
  shows "calls_only (rest_call_ok env app) (makeAppRest env r app) (reportable env app)"
  unfolding makeAppRest_def builder_cancel_def
  by (intro triple_intros calls_transit_and_return calls_shut_down)
    (use assms in \<open>auto intro!: status_update_ok_edge simp: phase_edge_def Let_def\<close>)

section \<open>startApp\<close>

lemma calls_fetchForkTargetPod:
  assumes "P CNewClientset" "\<And>n ob. P (CResolve n ob)" "\<And>api n m. P (CGetWorkload api n m)"
  shows "calls_only P (fetchForkTargetPod env r ns fork) (\<lambda>_. True)"
  unfolding fetchForkTargetPod_def fetch_workload_def
  by (intro triple_intros)
    (auto intro!: triple_intros assms split: dispatch.splits sum.splits)

lemma calls_generate_manifest:
  assumes "P CNewClientset" "\<And>n ob. P (CResolve n ob)" "\<And>api n m. P (CGetWorkload api n m)"
  shows "calls_only P (generate_manifest env r app) (\<lambda>_. True)"
  unfolding generate_manifest_def
  by (intro triple_intros calls_fetchForkTargetPod assms) auto

lemma set_meta_belongs [simp]: "belongs_to app (set_meta app x pod)"
  by (auto simp: belongs_to_def set_meta_def HasPrefix_iff split: option.splits)

lemma belongs_to_spec [simp]: "belongs_to app (pod\<lparr>pod_Spec := s\<rparr>) = belongs_to app pod"
  by (simp add: belongs_to_def)

lemma calls_applyAppConfig:
  assumes "\<And>i. P (CImageStatus i)" "\<And>n. P (CRandString n)"
  shows "calls_only P (applyAppConfig env r pod target app cm)
           (\<lambda>res. \<forall>p. res = Inr p \<longrightarrow> belongs_to app p)"
proof -
  have image: "calls_only P (fetchImageConfiguration env img) (\<lambda>_. True)" for img
    unfolding fetchImageConfiguration_def by (intro triple_intros assms) auto
  have shell: "calls_only P (shell_volumes sh cm) (\<lambda>_. True)" for sh
    unfolding shell_volumes_def by (intro triple_intros) auto
  show ?thesis
    unfolding applyAppConfig_def
    by (intro triple_intros emitting.triple_bnd [OF image] emitting.triple_bnd [OF shell] assms) auto
qed

lemma annotate_belongs [simplified, simp]:
  "belongs_to app (annotate d h pod) = belongs_to app pod"
  "annotation (annotate d h pod) annoKeySpecDump = d"
  "annotation (annotate d h pod) annoKeySpecHash = h"
  by (simp_all add: belongs_to_def annotate_def Let_def)

lemma calls_startApp:
  assumes "P CNewClientset" "\<And>n ob. P (CResolve n ob)" "\<And>api n m. P (CGetWorkload api n m)"
    and "\<And>n m. P (CGetConfigMap n m)" "\<And>i. P (CImageStatus i)" "\<And>n. P (CRandString n)"
    and "\<And>p. belongs_to app p \<Longrightarrow> annotation p annoKeySpecDump = d \<Longrightarrow>
           annotation p annoKeySpecHash = h \<Longrightarrow> P (CCreatePod p)"
  shows "calls_only P (startApp env r app d h) (\<lambda>_. True)"
  unfolding startApp_def
  by (intro triple_intros emitting.triple_bnd [OF calls_generate_manifest] emitting.triple_bnd [OF calls_applyAppConfig] assms)
    auto

section \<open>makeAppLive\<close>

lemma live_call_ok_simps [simp]:
  "live_call_ok env app CNow"
  "live_call_ok env app CNewClientset"
  "live_call_ok env app (CStatusUpdate a) = status_update_ok env app a"
  "live_call_ok env app (CResolve n ob)"
  "live_call_ok env app (CGetWorkload api n m)"
  "live_call_ok env app (CGetConfigMap n m)"
  "live_call_ok env app (CImageStatus i)"
  "live_call_ok env app (CRandString k)"
  by (simp_all add: live_call_ok_def)

text \<open>The pods that \<open>claimPods\<close> recycles are live pods of the list.\<close>

lemma sort_pods_eq:
  "sort_pods d h items =
     (let live = filter (\<lambda>p. pod_DeletionTimestamp p = None) items;
          newPods = filter (\<lambda>p. annotation p annoKeySpecDump = d) live;
          old_of = (\<lambda>p. (if map_is_empty (pod_Annotations p) \<or> annotation p annoKeySpecHash \<noteq> h
                              \<or> annotation p annoKeySpecDump = [] then [p] else [])
                    @ (if annotation p annoKeySpecDump \<noteq> d then [p] else []))
      in (concat (map old_of live) @ drop 1 newPods, newPods))"
proof -
  let ?live = "filter (\<lambda>p. pod_DeletionTimestamp p = None)"
  let ?old = "\<lambda>p. (if map_is_empty (pod_Annotations p) \<or> annotation p annoKeySpecHash \<noteq> h
                        \<or> annotation p annoKeySpecDump = [] then [p] else [])
                @ (if annotation p annoKeySpecDump \<noteq> d then [p] else [])"
  have "foldl (claim_pod d h) (os, ns) items =
      (os @ concat (map ?old (?live items)),
       ns @ filter (\<lambda>p. annotation p annoKeySpecDump = d) (?live items))" for os ns
    by (induction items arbitrary: os ns) (auto simp: claim_pod_def Let_def)
  then show ?thesis by (simp add: sort_pods_def Let_def)
qed

lemma sort_pods_old_live:
  "p \<in> set (fst (sort_pods d h items)) \<Longrightarrow> p \<in> set items \<and> pod_DeletionTimestamp p = None"
  by (auto simp: sort_pods_eq Let_def dest!: in_set_dropD split: if_splits)

lemma calls_claimPods:
  "calls_only (live_call_ok env app) (claimPods env r app d h) (\<lambda>_. True)"
proof -
  have del: "calls_only (live_call_ok env app) (recycle_pods env (app_Namespace app) old) (\<lambda>_. True)"
    if "e_clientListPods env k = Inr items" "sort_pods d h items = (old, new)" for k items old new
    unfolding recycle_pods_def
  proof (rule emitting.triple_for_each)
    fix p a assume "p \<in> set old"
    with sort_pods_old_live [of p d h items] that
    show "calls_only (live_call_ok env app)
        (bnd (ask (CClientDeletePod (app_Namespace app) (pod_Name p)) (e_clientDeletePod env))
          (\<lambda>_. ret ())) (\<lambda>_. True)"
      by (intro triple_intros) (auto simp: live_call_ok_def)
  qed
  show ?thesis
    unfolding claimPods_def
    by (intro triple_intros emitting.triple_bnd [OF del]) (auto simp: live_call_ok_def)
qed

lemma calls_live_case:
  assumes "TargetPhase app = CliAppPhaseLive" "Phase app = CliAppPhaseLive"
    "spec_Fork (app_Spec app) \<noteq> None \<or> spec_Image (app_Spec app) \<noteq> []"
  shows "calls_only (live_call_ok env app) (live_case env r app) (reportable env app)"
  unfolding live_case_def Let_def
  by (intro triple_intros emitting.triple_bnd [OF calls_claimPods] calls_transit_and_return)
    (use assms in \<open>auto intro!: status_update_ok_edge simp: phase_edge_def Let_def\<close>)

lemma calls_recovering_case:
  assumes "TargetPhase app = CliAppPhaseLive" "Phase app = CliAppPhaseRecovering"
    "spec_Fork (app_Spec app) \<noteq> None \<or> spec_Image (app_Spec app) \<noteq> []"
  shows "calls_only (live_call_ok env app) (recovering_case env r app) (reportable env app)"
  unfolding recovering_case_def Let_def
  by (intro triple_intros emitting.triple_bnd [OF calls_claimPods] emitting.triple_bnd [OF calls_startApp]
      calls_transit_and_return)
    (use assms in \<open>auto intro!: status_update_ok_edge simp: phase_edge_def Let_def live_call_ok_def\<close>)

lemma calls_building_case:
  assumes "TargetPhase app = CliAppPhaseLive" "Phase app = CliAppPhaseBuilding"
  shows "calls_only (live_call_ok env app) (building_case env app) (reportable env app)"
proof -
  define given where "given a \<longleftrightarrow> (\<forall>t. status_update_ok env app (transited a CliAppPhaseRecovering t))" for a
  have to_rec: "calls_only (live_call_ok env app)
      (bnd (transitPhaseTo env a CliAppPhaseRecovering) (\<lambda>(err, a').
         ret (if err = None then zero_Result\<lparr>res_Requeue := True\<rparr> else zero_Result, err, a')))
      (reportable env app)" if "given a" for a
    using that by (intro calls_transit_and_return) (auto simp: given_def)
  define sent where "sent a \<longleftrightarrow> a = app \<or> (\<exists>i. a = set_Image i app)" for a
  have upd: "calls_only (live_call_ok env app) (update_image env img a)
      (\<lambda>(err, a'). (err \<noteq> None \<longrightarrow> sent a')
        \<and> (if err = None then given a' else status_update_ok env app a'))"
    if "spec_Image (app_Spec app) = []" "sent a" for img a
  proof -
    from that(2) have a: "set_Image img a = set_Image img app" by (auto simp: sent_def)
    show ?thesis
      unfolding update_image_def Let_def a
    proof (intro triple_intros, goal_cases)
      case 1
      with that assms show ?case by (auto simp: live_call_ok_def)
    next
      case (2 h err)
      have "\<exists>i. status_of (set_Image i app) (set_Image img app)"
        by (rule exI [of _ img]) simp
      with that assms show ?case by (simp add: sent_def status_update_ok_def) blast
    next
      case (3 h stored)
      then have "\<exists>h' s. e_update env h' = Inr s \<and> status_of s (transited stored p t)" for p t
        by (intro exI [of _ h] exI [of _ stored]) simp
      with that assms show ?case by (simp add: given_def status_update_ok_def)
    qed
  qed
  have start: "given app"
    using assms by (auto simp: given_def phase_edge_def intro!: status_update_ok_edge)
  have retry: "calls_only (live_call_ok env app)
      (RetryOnConflict (e_retrySteps env) (update_image env img) app)
      (\<lambda>(err, a'). if err = None then given a' else status_update_ok env app a')"
    if "spec_Image (app_Spec app) = []" for img
    by (rule emitting.triple_RetryOnConflict [where J = sent])
      (use upd that start in \<open>auto simp: sent_def case_prod_beta\<close>)
  show ?thesis
    unfolding building_case_def Let_def
    by (intro triple_intros to_rec emitting.triple_bnd [OF retry]) (auto simp: start)
qed

lemma calls_makeAppLive:
  assumes "TargetPhase app = CliAppPhaseLive"
  shows "calls_only (live_call_ok env app) (makeAppLive env r app) (reportable env app)"
  unfolding makeAppLive_def begin_building_def
  by (intro triple_intros calls_transit_and_return calls_live_case calls_recovering_case
      calls_building_case)
    (use assms in \<open>auto intro!: status_update_ok_edge simp: phase_edge_def Let_def\<close>)

section \<open>Reconcile\<close>

lemma calls_reconcile_body:
  "calls_only (reconcile_call_ok env app) (reconcile_body env r app)
     (\<lambda>(result, err, a). err \<noteq> None \<longrightarrow> status_update_ok env app a \<and>
        (TargetPhase app \<noteq> CliAppPhaseRest \<and> TargetPhase app \<noteq> CliAppPhaseLive \<longrightarrow> a = app))"
proof -
  have rest: "TargetPhase app = CliAppPhaseRest \<Longrightarrow> ?thesis"
    unfolding reconcile_body_def
    by (intro triple_intros calls_mono [OF calls_makeAppRest])
      (auto simp: reconcile_call_ok_def)
  have live: "TargetPhase app = CliAppPhaseLive \<Longrightarrow> ?thesis"
    unfolding reconcile_body_def
    by (intro triple_intros calls_mono [OF calls_makeAppLive])
      (auto simp: reconcile_call_ok_def)
  have other: "TargetPhase app \<noteq> CliAppPhaseRest \<Longrightarrow> TargetPhase app \<noteq> CliAppPhaseLive \<Longrightarrow> ?thesis"
    unfolding reconcile_body_def by (intro triple_intros) auto
  from rest live other show ?thesis by blast
qed

lemma calls_report_error:
  assumes "err \<noteq> None \<Longrightarrow> status_update_ok env app a"
    and "TargetPhase app \<noteq> CliAppPhaseRest \<Longrightarrow> TargetPhase app \<noteq> CliAppPhaseLive \<Longrightarrow> err \<noteq> None \<Longrightarrow> a = app"
  shows "calls_only (reconcile_call_ok env app) (report_error env (result, err, a)) (\<lambda>res. snd res = None)"
  unfolding report_error_def
  by (intro triple_intros)
    (use assms in \<open>auto simp: reconcile_call_ok_def status_update_ok_set_Error\<close>)

lemma calls_Reconcile_found:
  "calls_only (reconcile_call_ok env app)
     (bnd (reconcile_body env r app) (report_error env)) (\<lambda>res. snd res = None)"
proof (rule emitting.triple_bnd [OF calls_reconcile_body])
  fix x :: "Result \<times> goerror option \<times> CliApp"
  assume "case x of (result, err, a) \<Rightarrow> err \<noteq> None \<longrightarrow> status_update_ok env app a \<and>
      (TargetPhase app \<noteq> CliAppPhaseRest \<and> TargetPhase app \<noteq> CliAppPhaseLive \<longrightarrow> a = app)"
  then show "calls_only (reconcile_call_ok env app) (report_error env x) (\<lambda>res. snd res = None)"
    by (cases x) (auto intro: calls_report_error)
qed

end
