(* ===== verification/Runs.thy ===== *)
theory Runs
  imports Contract
begin

text \<open>
  Where the reconciler can panic. For an app whose phase the API declares, with a proper configuration, and in a cluster that keeps to what
  Kubernetes validates, there are three places left: the fork that resolves to several objects, the fork of an object that has a
  supported kind, but another group, and the image builder that was never set up. What is proved here is that there is no fourth.
\<close>

section \<open>Assumptions\<close>

text \<open>Kubernetes requires a name of every stored object, and a container of every pod template.\<close>

definition orderly :: "env \<Rightarrow> bool" where
  "orderly env \<longleftrightarrow>
     (\<forall>h items p. e_clientListPods env h = Inr items \<longrightarrow> p \<in> set items \<longrightarrow> pod_Name p \<noteq> [])
   \<and> (\<forall>h tmpl lbls. e_getWorkload env h = Inr (tmpl, lbls) \<longrightarrow> ps_Containers tmpl \<noteq> [])"

definition proper_config :: "CliAppReconciler \<Rightarrow> bool" where
  "proper_config r \<longleftrightarrow>
     (\<exists>c. r_ToRESTConfig r () = Inr c) \<and> r_DefaultShell r \<in> {CliAppShellBash, CliAppShellZsh}"

section \<open>The panics\<close>

definition has_builder :: "world \<Rightarrow> bool" where
  "has_builder w \<longleftrightarrow> ib_appMap (w_builder w) \<noteq> None"

definition keeps_builder :: "world \<Rightarrow> world \<Rightarrow> bool" where
  "keeps_builder w w' \<longleftrightarrow> (has_builder w' = has_builder w)"

text \<open>An app that waits for its image: the one case that needs the builder's map.\<close>

definition needs_build :: "CliApp \<Rightarrow> bool" where
  "needs_build app \<longleftrightarrow>
     TargetPhase app = CliAppPhaseLive \<and> Phase app = CliAppPhaseBuilding \<and> spec_Image (app_Spec app) = []"

text \<open>
  The panics of \<open>fetchForkTargetPod\<close>, in the world that they leave: the last call was the resolution of the fork's object, and the answer was several
  objects (\<open>panic(infos)\<close>); or the last calls were that resolution and the client set, and the one object that was the answer has a group that its branch
  of the \<open>switch\<close> does not know (\<open>panic\<close> with the object's kind).
\<close>

definition fork_panics :: "env \<Rightarrow> string \<Rightarrow> ForkObject \<Rightarrow> world \<Rightarrow> string \<Rightarrow> bool" where
  "fork_panics env ns fork w p \<longleftrightarrow>
     (let resolve = CResolve ns (fork_Object fork) in
      (\<exists>h infos. w_calls w = h @ [resolve] \<and> e_resolve env (h @ [resolve]) = Infos infos \<and> length infos > 1 \<and> p = ''infos'')
    \<or> (\<exists>h info. w_calls w = h @ [resolve, CNewClientset] \<and> e_resolve env (h @ [resolve]) = Infos [info]
        \<and> workload_dispatch (info_GK info) = PanicOnGroup \<and> p = info_GVKText info))"

definition known_panic :: "env \<Rightarrow> CliApp \<Rightarrow> world \<Rightarrow> string \<Rightarrow> bool" where
  "known_panic env app w p \<longleftrightarrow>
     needs_build app \<and> \<not> has_builder w
   \<or> (\<exists>fork. spec_Fork (app_Spec app) = Some fork \<and> fork_panics env (app_Namespace app) fork w p)"

text \<open>
  The code panics in no other way, whatever the world: \<open>runs\<close>, the other instance of \<open>go_rules\<close>. \<open>a\<close> is the app that the run is about.
\<close>

abbreviation runs :: "env \<Rightarrow> CliApp \<Rightarrow> (world, 'a) go \<Rightarrow> ('a \<Rightarrow> bool) \<Rightarrow> bool" where
  "runs env a \<equiv> triple keeps_builder (known_panic env a)"

interpretation running: go_rules keeps_builder "known_panic env a" for env a
  by unfold_locales (auto simp: keeps_builder_def)

lemma runs_ask [triple_intros]: "(\<And>x. R x) \<Longrightarrow> runs env a (ask c f) R"
  by (simp add: triple_def keeps_builder_def has_builder_def)

lemma runs_bnd_ask [triple_intros]:
  "(\<And>h. runs env a (k (f h)) R) \<Longrightarrow> runs env a (bnd (ask c f) k) R"
  by (rule running.triple_bnd [where S = "\<lambda>x. \<exists>h. x = f h"])
    (auto simp: triple_def keeps_builder_def has_builder_def)

text \<open>
  The getter of the REST configuration, an interface that the reconciler is given: its contract is
  that it has no error to return.
\<close>

locale rest_client_getter =
  fixes toRESTConfig :: "unit \<Rightarrow> goerror + string"
  assumes config_given: "\<exists>c. toRESTConfig () = Inr c"
begin

lemma runs_claimPods:
  assumes "r_ToRESTConfig r = toRESTConfig"
    and "\<And>h items p. e_clientListPods env h = Inr items \<Longrightarrow> p \<in> set items \<Longrightarrow> pod_Name p \<noteq> []"
  shows "runs env a (claimPods env r app d h)
    (\<lambda>res. \<forall>p. res = Inr (Some p) \<longrightarrow> pod_Name p \<noteq> [])"
proof -
  obtain c where c: "r_ToRESTConfig r () = Inr c" using config_given assms(1) by auto
  have del: "runs env a (recycle_pods env ns ps) (\<lambda>_. True)" for ns ps
    unfolding recycle_pods_def
    by (rule running.triple_for_each) (intro triple_intros TrueI)
  have named: "pod_Name (hd (snd (sort_pods d h items))) \<noteq> []"
    if "e_clientListPods env k = Inr items" "snd (sort_pods d h items) \<noteq> []" for k items
  proof -
    have "set (snd (sort_pods d h items)) \<subseteq> set items" by (auto simp: sort_pods_eq Let_def)
    with that(2) have "hd (snd (sort_pods d h items)) \<in> set items" by (auto dest: hd_in_set)
    with assms(2) [OF that(1)] show ?thesis by simp
  qed
  show ?thesis
    unfolding claimPods_def c
    by (simp add: case_prod_beta, intro triple_intros running.triple_bnd [OF del])
      (auto dest: named)
qed

end

section \<open>Handlers\<close>

lemma runs_transitPhaseTo:
  assumes "transit_ok app p"
  shows "runs env a (transitPhaseTo env app p) (\<lambda>_. True)"
  using assms unfolding triple_def
  by (auto simp: wp_transitPhaseTo Let_def transit_ok_def keeps_builder_def has_builder_def
      split: sum.splits)

lemma transit_ok_other: "p \<noteq> CliAppPhaseLive \<Longrightarrow> transit_ok app p"
  by (simp add: transit_ok_def)

lemma runs_transit_and_return:
  assumes "transit_ok app p"
  shows "runs env a (bnd (transitPhaseTo env app p) (\<lambda>(err, a'). ret (f err, err, a'))) (\<lambda>_. True)"
  by (rule running.triple_bnd [OF runs_transitPhaseTo [OF assms]]) (auto intro!: triple_intros)

lemma cancel_appMap_None [simp]: "ib_appMap (cancel name b) = None \<longleftrightarrow> ib_appMap b = None"
  by (auto simp: cancel_def split: option.splits)

lemma runs_builder_cancel: "runs env a (builder_cancel name) (\<lambda>_. True)"
  unfolding triple_def by (simp add: keeps_builder_def has_builder_def del: not_None_eq)

lemma runs_shut_down: "runs env a (shut_down env app result) (\<lambda>_. True)"
proof -
  have del: "runs env a (delete_pods env ps e) (\<lambda>_. True)" for ps e
    unfolding delete_pods_def
    by (rule running.triple_for_each) (intro triple_intros TrueI)
  show ?thesis
    unfolding shut_down_def
    by (intro triple_intros runs_transit_and_return running.triple_bnd [OF del] TrueI)
      (simp add: transit_ok_def)
qed

lemma runs_makeAppRest:
  assumes "TargetPhase app = CliAppPhaseRest"
    and "Phase app \<in> insert [] declared_phases" and "Phase app \<noteq> CliAppPhaseRest"
  shows "runs env a (makeAppRest env r app) (\<lambda>_. True)"
  unfolding makeAppRest_def
  by (intro triple_intros runs_transit_and_return runs_shut_down transit_ok_other
      running.triple_bnd [OF runs_builder_cancel] TrueI)
    (use assms in \<open>auto simp: declared_phases_def\<close>)

text \<open>The template that is fetched has a container, so the target is one of its containers.\<close>

lemma wp_fetch_workload:
  assumes "orderly env"
    and "\<And>p t w'. w_builder w' = w_builder w \<Longrightarrow> t < length (ps_Containers (pod_Spec p)) \<Longrightarrow> Q (Inr (p, t)) w'"
    and "\<And>e w'. w_builder w' = w_builder w \<Longrightarrow> Q (Inl e) w'"
    and "workload_dispatch (info_GK info) = PanicOnGroup \<Longrightarrow> E (info_GVKText info) w"
  shows "wp (fetch_workload env info fork) Q E w"
proof (cases "workload_dispatch (info_GK info)")
  case (Fetch api)
  have "ps_Containers tmpl \<noteq> []" if "e_getWorkload env h = Inr (tmpl, lbls)" for h tmpl lbls
    using assms(1) that unfolding orderly_def by blast
  then show ?thesis
    unfolding fetch_workload_def Fetch dispatch.case
    by (auto simp: Let_def intro!: assms(2,3) dest: select_target_Inr split: sum.splits)
qed (auto simp: fetch_workload_def intro: assms(3,4))

lemma runs_fetchForkTargetPod:
  assumes "orderly env" "proper_config r" "spec_Fork (app_Spec a) = Some fork"
  shows "runs env a (fetchForkTargetPod env r (app_Namespace a) fork)
    (\<lambda>res. \<forall>p t. res = Inr (p, t) \<longrightarrow> t < length (ps_Containers (pod_Spec p)))"
proof -
  obtain c where c: "r_ToRESTConfig r () = Inr c" using assms(2) by (auto simp: proper_config_def)
  have infos: "infos = [hd infos]" if "infos \<noteq> []" "\<not> Suc 0 < length infos" for infos :: "ResourceInfo list"
    using that by (cases infos) auto
  show ?thesis
    unfolding triple_def fetchForkTargetPod_def c sum.case
    by (auto simp: known_panic_def fork_panics_def keeps_builder_def has_builder_def assms(3) Let_def
        intro!: wp_fetch_workload [OF assms(1)] split: resolved.splits option.splits dest: infos)
qed

lemma runs_generate_manifest:
  assumes "orderly env" "proper_config r"
  shows "runs env a (generate_manifest env r a)
    (\<lambda>res. \<forall>p t. res = Inr (p, t) \<longrightarrow> t < length (ps_Containers (pod_Spec p)))"
  unfolding generate_manifest_def
  by (intro triple_intros runs_fetchForkTargetPod assms)
    (auto simp: convertToManifest_def zero_PodSpec_def)

lemma set_meta_spec [simp]: "pod_Spec (set_meta app x pod) = pod_Spec pod"
  by (simp add: set_meta_def)

lemma choose_context_shell:
  assumes "proper_config r" "validateApp app = None" "choose_context r (app_Spec app) = (sh, distro, img)"
  shows "sh = CliAppShellZsh \<or> sh = CliAppShellBash"
  using assms validateApp_None_shell [OF assms(2)]
  by (auto simp: choose_context_def proper_config_def Let_def split: if_splits)

lemma runs_applyAppConfig:
  assumes "proper_config r" "validateApp app = None" "target < length (ps_Containers (pod_Spec pod))"
  shows "runs env a (applyAppConfig env r pod target app cm) (\<lambda>_. True)"
proof -
  have image: "runs env a (fetchImageConfiguration env img) (\<lambda>_. True)" for img
    unfolding fetchImageConfiguration_def by (intro triple_intros TrueI)
  have shell: "runs env a (shell_volumes sh cm) (\<lambda>_. True)"
    if "sh = CliAppShellZsh \<or> sh = CliAppShellBash" for sh
    unfolding shell_volumes_def by (intro triple_intros TrueI) (use that in auto)
  show ?thesis
    unfolding applyAppConfig_def
    by (intro triple_intros running.triple_bnd [OF image] running.triple_bnd [OF shell] TrueI)
      (use assms choose_context_shell [OF assms(1,2)] in auto)
qed

lemma runs_startApp:
  assumes "orderly env" "proper_config r" "validateApp app = None"
  shows "runs env app (startApp env r app d h) (\<lambda>_. True)"
  unfolding startApp_def
  by (intro triple_intros running.triple_bnd [OF runs_generate_manifest]
      running.triple_bnd [OF runs_applyAppConfig] runs_ask assms TrueI) auto

lemma runs_claimPods_proper:
  assumes "orderly env" "proper_config r"
  shows "runs env a (claimPods env r app d h) (\<lambda>res. \<forall>p. res = Inr (Some p) \<longrightarrow> pod_Name p \<noteq> [])"
proof (rule rest_client_getter.runs_claimPods)
  show "rest_client_getter (r_ToRESTConfig r)"
    using assms(2) by unfold_locales (auto simp: proper_config_def)
qed (use assms(1) in \<open>auto simp: orderly_def\<close>)


section \<open>makeAppLive and Reconcile\<close>

lemma runs_live_case:
  assumes "orderly env" "proper_config r"
  shows "runs env app (live_case env r app) (\<lambda>_. True)"
  unfolding live_case_def Let_def
  by (intro triple_intros running.triple_bnd [OF runs_claimPods_proper [OF assms]]
      runs_transit_and_return transit_ok_other TrueI) auto

lemma runs_recovering_case:
  assumes "orderly env" "proper_config r" "validateApp app = None"
    and "spec_Fork (app_Spec app) \<noteq> None \<or> spec_Image (app_Spec app) \<noteq> []"
  shows "runs env app (recovering_case env r app) (\<lambda>_. True)"
  unfolding recovering_case_def Let_def
  by (intro triple_intros running.triple_bnd [OF runs_claimPods_proper [OF assms(1,2)]]
      running.triple_bnd [OF runs_startApp [OF assms(1-3)]] runs_transit_and_return TrueI)
    (use assms(4) in \<open>auto simp: transit_ok_def\<close>)

lemma runs_builder_test:
  assumes "needs_build app"
  shows "runs env app (builder_test env app) (\<lambda>_. True)"
  unfolding triple_def
proof
  fix w
  show "wp (builder_test env app) (\<lambda>x t. keeps_builder w t \<and> True)
      (\<lambda>p t. keeps_builder w t \<and> known_panic env app t p) w"
    unfolding wp_builder_test
    by (rule testImage_cases [of "w_builder w" "app_Name app" "e_early env (w_calls w)" "spec_Dockerfile (app_Spec app)"])
      (use assms in \<open>auto simp: wp_def keeps_builder_def has_builder_def known_panic_def\<close>)
qed

lemma runs_building_case:
  assumes "spec_Image (app_Spec app) = [] \<Longrightarrow> needs_build app"
  shows "runs env app (building_case env app) (\<lambda>_. True)"
proof -
  have upd: "runs env app (update_image env img x) (\<lambda>_. True)" for img x
    unfolding update_image_def by (intro triple_intros TrueI)
  have retry: "runs env app (RetryOnConflict n (update_image env img) x) (\<lambda>_. True)" for n img x
    by (rule running.triple_RetryOnConflict [where J = "\<lambda>_. True"])
      (use upd in \<open>simp_all add: case_prod_unfold\<close>)
  show ?thesis
  proof (cases "spec_Image (app_Spec app) = []")
    case True
    with assms have need: "needs_build app" by simp
    then show ?thesis
      unfolding building_case_def Let_def
      by (intro triple_intros running.triple_bnd [OF runs_builder_test [OF need]]
          running.triple_bnd [OF retry] runs_transit_and_return transit_ok_other TrueI) auto
  next
    case False
    then show ?thesis
      unfolding building_case_def Let_def
      by (simp, intro runs_transit_and_return) (simp add: transit_ok_def)
  qed
qed

lemma runs_makeAppLive:
  assumes "orderly env" "proper_config r" "validateApp app = None"
    and "TargetPhase app = CliAppPhaseLive" "Phase app \<in> insert [] declared_phases"
  shows "runs env app (makeAppLive env r app) (\<lambda>_. True)"
  unfolding makeAppLive_def begin_building_def
  by (intro triple_intros runs_transit_and_return runs_live_case runs_recovering_case
      runs_building_case transit_ok_other assms TrueI)
    (use assms(4,5) in \<open>auto simp: declared_phases_def needs_build_def\<close>)

lemma runs_reconcile_found:
  assumes "orderly env" "proper_config r" "Phase app \<in> insert [] declared_phases"
  shows "runs env app (bnd (reconcile_body env r app) (report_error env)) (\<lambda>_. True)"
proof -
  have "runs env app (reconcile_body env r app) (\<lambda>_. True)"
    unfolding reconcile_body_def
    by (intro triple_intros runs_makeAppRest runs_makeAppLive assms TrueI)
      (use assms(3) validateApp_None_target in auto)
  moreover have "runs env app (report_error env x) (\<lambda>_. True)" for x
    unfolding report_error_def by (intro triple_intros TrueI)
  ultimately show ?thesis by (rule running.triple_bnd)
qed

end
