(* ===== verification/Store.thy ===== *)
theory Store
  imports Runs
begin

text \<open>
  An API server that stores the app: what \<open>Get\<close> answers is what the writes so far made of the app.
  The status is a subresource, so a status update writes the status only and an update everything
  but the status. The environments here are the ones in which convergence is stated, and \<open>quiet_env\<close>
  is a concrete one.
\<close>

section \<open>The stored app\<close>

fun apply_call :: "CliApp \<Rightarrow> call \<Rightarrow> CliApp" where
  "apply_call app (CStatusUpdate a) = app\<lparr>app_Status := app_Status a\<rparr>"
| "apply_call app (CUpdate a) = app\<lparr>app_Spec := app_Spec a\<rparr>"
| "apply_call app c = app"

definition stored :: "CliApp \<Rightarrow> call list \<Rightarrow> CliApp" where
  "stored app0 h = foldl apply_call app0 h"

definition consistent :: "CliApp \<Rightarrow> env \<Rightarrow> bool" where
  "consistent app0 env \<longleftrightarrow>
     (\<forall>h. e_getApp env h = Inr (stored app0 h)) \<and> (\<forall>h. e_statusUpdate env h = Inr (stored app0 h))"

lemma stored_simps [simp]:
  "stored app0 [] = app0"
  "stored app0 (h @ g) = foldl apply_call (stored app0 h) g"
  by (simp_all add: stored_def)

lemma consistentD [simp]:
  assumes "consistent app0 env"
  shows "e_getApp env h = Inr (stored app0 h)" "e_statusUpdate env h = Inr (stored app0 h)"
  using assms by (auto simp: consistent_def)

text \<open>Calls that are no write leave the stored app as it is.\<close>

fun writes :: "call \<Rightarrow> bool" where
  "writes (CStatusUpdate a) = True"
| "writes (CUpdate a) = True"
| "writes c = False"

lemma apply_call_no_write [simp]: "\<not> writes c \<Longrightarrow> apply_call app c = app"
  by (cases c) auto

lemma apply_no_writes: "list_all (\<lambda>c. \<not> writes c) new \<Longrightarrow> foldl apply_call app new = app"
  by (induction new) auto

section \<open>A concrete environment\<close>

text \<open>
  The app is stored, the cluster runs the given pods, every deletion and creation is accepted, and
  the clock counts the calls in seconds.
\<close>

definition quiet_env :: "CliApp \<Rightarrow> Pod list \<Rightarrow> env" where
  "quiet_env app0 pods =
     \<lparr>e_getApp = (\<lambda>h. Inr (stored app0 h)),
      e_statusUpdate = (\<lambda>h. Inr (stored app0 h)),
      e_update = (\<lambda>h. Inr (stored app0 h)),
      e_deleteApp = (\<lambda>h. None),
      e_listPods = (\<lambda>h. Inr pods),
      e_deletePod = (\<lambda>h. None),
      e_createPod = (\<lambda>h. Inr zero_Pod),
      e_getConfigMap = (\<lambda>h. Inl (ApiError NotFound ''configmaps not found'')),
      e_newClientset = (\<lambda>h. None),
      e_clientListPods = (\<lambda>h. Inr pods),
      e_clientDeletePod = (\<lambda>h. None),
      e_resolve = (\<lambda>h. Infos []),
      e_getWorkload = (\<lambda>h. Inl (ApiError NotFound ''not found'')),
      e_imageStatus = (\<lambda>h. Inr None),
      e_now = (\<lambda>h. 1000000000 * int (length h)),
      e_rand = (\<lambda>h. ''abcde''),
      e_spewDump = (\<lambda>spec. spec_Image spec),
      e_safeEncode = (\<lambda>s. s),
      e_jsonError = (\<lambda>s. Errorf ''invalid character''),
      e_sharpV = (\<lambda>s. s),
      e_retrySteps = 5,
      e_early = (\<lambda>h. None)\<rparr>"

lemma quiet_env_consistent [simp]: "consistent app0 (quiet_env app0 pods)"
  by (simp add: consistent_def quiet_env_def)

definition sample_spec :: CliAppSpec where
  "sample_spec =
     \<lparr>spec_Fork = None, spec_Image = ''busybox'', spec_Dockerfile = [], spec_Command = [],
      spec_HostPath = [], spec_Env = [], spec_Distro = [], spec_Shell = [],
      spec_TargetPhase = ''Rest'', spec_UninstallUnlessLive = False\<rparr>"

definition sample_app :: CliApp where
  "sample_app =
     \<lparr>app_APIVersion = ''core.cliapp.warm-metal.tech/v1'', app_Kind = ''CliApp'',
      app_Name = ''box'', app_Namespace = ''default'', app_UID = ''u1'', app_Spec = sample_spec,
      app_Status = \<lparr>status_Phase = [], status_LastPhaseTransition = 0, status_PodName = [],
                    status_Error = []\<rparr>\<rparr>"

definition sample_reconciler :: CliAppReconciler where
  "sample_reconciler =
     \<lparr>r_ToRESTConfig = (\<lambda>_. Inr ''config''), r_BuilderEndpoint = [], r_DurationIdleLiveLasts = 600000000000,
      r_ControllerNamespace = ''cliapp-system'', r_DefaultAppContextImage = [],
      r_DefaultShell = ''bash'', r_DefaultDistro = ''alpine''\<rparr>"

definition idle_world :: world where
  "idle_world = \<lparr>w_calls = [],
     w_builder = \<lparr>ib_appMap = None, ib_store = Map.empty, ib_next = 0, ib_running = Map.empty\<rparr>\<rparr>"

end
