(* ===== verification/ReconcileProps.thy ===== *)
theory ReconcileProps
  imports Store
begin

text \<open>
  Properties of one run of \<open>Reconcile\<close>: what it asks of the cluster, how it can panic, and what
  it answers.
\<close>

section \<open>The calls of a run\<close>

lemma Reconcile_unfold:
  "Reconcile env r ns name w =
     (let h = w_calls w @ [CGetApp ns name]; w1 = w\<lparr>w_calls := h\<rparr> in
      case e_getApp env h of
        Inl err \<Rightarrow> (Done (zero_Result, IgnoreNotFound err), w1)
      | Inr app \<Rightarrow> bnd (reconcile_body env r (set_Error [] app)) (report_error env) w1)"
  by (simp add: Reconcile_def bnd_def ask_def ret_def Let_def split: sum.splits)

lemma reconcile_calls:
  "\<exists>new. w_calls (snd (Reconcile env r ns name w)) = w_calls w @ CGetApp ns name # new
   \<and> (case e_getApp env (w_calls w @ [CGetApp ns name]) of
        Inl err \<Rightarrow> new = []
      | Inr app \<Rightarrow> list_all (reconcile_call_ok env (set_Error [] app)) new)"
proof (cases "e_getApp env (w_calls w @ [CGetApp ns name])")
  case (Inr app)
  let ?m = "bnd (reconcile_body env r (set_Error [] app)) (report_error env)"
  let ?w = "w\<lparr>w_calls := w_calls w @ [CGetApp ns name]\<rparr>"
  obtain out w' where run: "?m ?w = (out, w')" by force
  from tripleD(1) [OF calls_Reconcile_found run] Inr show ?thesis
    by (auto simp: Reconcile_unfold Let_def run emits_def)
qed (simp add: Reconcile_unfold Let_def)

text \<open>
  C1. What a run of \<open>Reconcile\<close> does to the cluster refines the controller's contract: it reads the app first;
  when there is no app to read it makes no other call; otherwise every further call is one that
  \<open>reconcile_call_ok\<close> allows for the app that was read. The contract covers which phases it may
  write and when, that the spec it writes is the one it read (but for the image of a finished build),
  that it deletes the app only to uninstall it when no pod is left, that it deletes only pods of the app
  that are not already terminating, and that a pod it creates belongs to the app and carries the
  current hash and dump. This holds whatever the cluster answers and when a run ends in a panic too.
\<close>

theorem reconcile_refines_contract:
  "case Reconcile env r ns name w of (out, w') \<Rightarrow>
     (let h = w_calls w @ [CGetApp ns name] in
      case e_getApp env h of
        Inl err \<Rightarrow> w_calls w' = h
      | Inr app \<Rightarrow> (\<exists>new. w_calls w' = h @ new \<and> list_all (reconcile_call_ok env (set_Error [] app)) new))"
  using reconcile_calls [of env r ns name w] by (auto simp: Let_def split: prod.splits sum.splits)

text \<open>
  C2. How \<open>Reconcile\<close> can panic. For an app whose phase is one that the API declares, with a proper configuration, and in a cluster where stored
  pods have names and pod templates have a container, a run ends in a panic only for one of three reasons: the app waits for its image and the
  controller's builder has no map; the object that the app forks was resolved to more than one, which is the panic's value; or it was resolved to
  one object whose kind is supported, in a group that is not, and the panic's value is that kind. In the last two cases the resolution was among the
  last calls of this run. So every run on an app that forks nothing returns, where the builder is set up; whatever else the cluster answers is an error, and no panic.
\<close>

theorem reconcile_panics:
  assumes "orderly env" and "proper_config r"
    and "\<And>app. e_getApp env (w_calls w @ [CGetApp ns name]) = Inr app \<Longrightarrow> Phase app \<in> insert [] declared_phases"
    and "Reconcile env r ns name w = (Panic p, w')"
  shows "\<exists>app. e_getApp env (w_calls w @ [CGetApp ns name]) = Inr app
    \<and> (needs_build app \<and> \<not> has_builder w
     \<or> (\<exists>fork. spec_Fork (app_Spec app) = Some fork
         \<and> (let resolve = CResolve (app_Namespace app) (fork_Object fork) in
            (\<exists>h infos. w_calls w' = h @ [resolve] \<and> e_resolve env (h @ [resolve]) = Infos infos
              \<and> length infos > 1 \<and> p = ''infos'')
          \<or> (\<exists>h info. w_calls w' = h @ [resolve, CNewClientset] \<and> e_resolve env (h @ [resolve]) = Infos [info]
              \<and> workload_dispatch (info_GK info) = PanicOnGroup \<and> p = info_GVKText info))))"
proof (cases "e_getApp env (w_calls w @ [CGetApp ns name])")
  case (Inr app)
  let ?app = "set_Error [] app"
  let ?w = "w\<lparr>w_calls := w_calls w @ [CGetApp ns name]\<rparr>"
  have run: "bnd (reconcile_body env r ?app) (report_error env) ?w = (Panic p, w')"
    using assms(4) Inr by (simp add: Reconcile_unfold Let_def)
  have "runs env ?app (bnd (reconcile_body env r ?app) (report_error env)) (\<lambda>_. True)"
    using assms Inr by (intro runs_reconcile_found) auto
  from tripleD(1,3) [OF this run] show ?thesis
    by (simp add: Inr known_panic_def fork_panics_def keeps_builder_def has_builder_def needs_build_def)
qed (use assms(4) in \<open>simp add: Reconcile_unfold Let_def\<close>)

text \<open>A selector that fits two deployments.\<close>

definition forking_app :: CliApp where
  "forking_app = set_Phase CliAppPhaseRecovering (set_TargetPhase CliAppPhaseLive
     (sample_app\<lparr>app_Spec := sample_spec\<lparr>spec_Fork := Some \<lparr>fork_Object = ''deploy'', fork_Container = [], fork_WithEnvs = False\<rparr>\<rparr>\<rparr>))"

definition two_deployments :: env where
  "two_deployments = (quiet_env forking_app [])
     \<lparr>e_resolve := (\<lambda>h. Infos (replicate 2 \<lparr>info_GK = GroupKind ''apps'' ''Deployment'', info_GVKText = ''apps/v1, Kind=Deployment'',
        info_Namespace = ''default'', info_Name = ''shop''\<rparr>))\<rparr>"

lemma reconcile_panics_witness:
  "\<exists>w' h infos. Reconcile two_deployments sample_reconciler ''default'' ''box'' idle_world = (Panic ''infos'', w')
     \<and> w_calls w' = h @ [CResolve ''default'' ''deploy''] \<and> e_resolve two_deployments (w_calls w') = Infos infos \<and> length infos > 1"
proof -
  note defs = two_deployments_def forking_app_def quiet_env_def sample_reconciler_def sample_app_def sample_spec_def idle_world_def
  obtain w' where run: "Reconcile two_deployments sample_reconciler ''default'' ''box'' idle_world = (Panic ''infos'', w')"
    by (simp add: Reconcile_unfold Let_def reconcile_body_def validateApp_def makeAppLive_def recovering_case_def claimPods_def
        sort_pods_def recycle_pods_def startApp_def generate_manifest_def fetchForkTargetPod_def bnd_def ask_def ret_def throw_def
        stored_def defs)
  have got: "e_getApp two_deployments (w_calls idle_world @ [CGetApp ''default'' ''box'']) = Inr forking_app"
    by (simp add: stored_def defs)
  have app: "Phase forking_app \<in> insert [] declared_phases" "\<not> needs_build forking_app" "app_Namespace forking_app = ''default''"
    "map_option fork_Object (spec_Fork (app_Spec forking_app)) = Some ''deploy''"
    by (simp_all add: declared_phases_def needs_build_def defs)
  have "orderly two_deployments" "proper_config sample_reconciler"
    by (simp_all add: orderly_def proper_config_def defs)
  moreover have "e_resolve two_deployments h \<noteq> Infos [info]" for h info by (simp add: two_deployments_def numeral_2_eq_2)
  ultimately show ?thesis
    using reconcile_panics [of two_deployments sample_reconciler idle_world "''default''" "''box''"] run got app
    by (fastforce simp: Let_def)
qed

text \<open>
  The only error that \<open>Reconcile\<close> hands to the work queue is the one of reading the app, unless the
  app does not exist; every other error ends in the app's status.
\<close>

theorem reconcile_error:
  "case Reconcile env r ns name w of
     (Done (result, err), w') \<Rightarrow>
       err = (case e_getApp env (w_calls w @ [CGetApp ns name]) of
                Inl e \<Rightarrow> (if \<exists>s. e = ApiError NotFound s then None else Some e)
              | Inr app \<Rightarrow> None)
   | (Panic p, w') \<Rightarrow> True"
proof (cases "e_getApp env (w_calls w @ [CGetApp ns name])")
  case (Inl e)
  then show ?thesis
    by (cases e rule: IgnoreNotFound.cases) (simp_all add: Reconcile_unfold Let_def)
next
  case (Inr app)
  let ?m = "bnd (reconcile_body env r (set_Error [] app)) (report_error env)"
  let ?w = "w\<lparr>w_calls := w_calls w @ [CGetApp ns name]\<rparr>"
  obtain out w' where run: "?m ?w = (out, w')" by force
  from tripleD(2) [OF calls_Reconcile_found run] Inr show ?thesis
    by (cases out) (auto simp: Reconcile_unfold Let_def run)
qed

text \<open>
  An app whose spec does not validate is left alone: after reading it, \<open>Reconcile\<close> makes one call,
  which records the validation error in the app's status and changes nothing else of it, and does not
  ask to be run again.
\<close>

theorem reconcile_invalid:
  assumes "e_getApp env (w_calls w @ [CGetApp ns name]) = Inr app" and "validateApp app = Some err"
  shows "Reconcile env r ns name w =
     (Done (zero_Result, None),
      w\<lparr>w_calls := w_calls w @ [CGetApp ns name, CStatusUpdate (set_Error (ErrorText err) app)]\<rparr>)"
  using assms
  by (simp add: Reconcile_unfold Let_def reconcile_body_def bnd_def ret_def report_error_def ask_def)

lemma reconcile_invalid_witness:
  "let app = set_TargetPhase ''Live!'' sample_app
   in snd (Reconcile (quiet_env app []) sample_reconciler ''default'' ''box'' idle_world) =
      idle_world\<lparr>w_calls := [CGetApp ''default'' ''box'',
        CStatusUpdate (set_Error (''TargetPhase must be '' @ quoted ''Rest'' @ '' or '' @ quoted ''Live'') app)]\<rparr>"
  using reconcile_invalid [of "quiet_env (set_TargetPhase ''Live!'' sample_app) []" idle_world "''default''"
      "''box''" "set_TargetPhase ''Live!'' sample_app" "Errorf (''TargetPhase must be '' @ quoted ''Rest'' @ '' or '' @ quoted ''Live'')"
      sample_reconciler]
  by (simp add: validateApp_def quoted_def quiet_env_def stored_def sample_app_def sample_spec_def idle_world_def)

text \<open>
  A valid app that is at rest and shall be at rest is only read.
\<close>

lemma reconcile_settled:
  assumes "e_getApp env (w_calls w @ [CGetApp ns name]) = Inr app" and "validateApp app = None"
    and "TargetPhase app = CliAppPhaseRest" and "Phase app = CliAppPhaseRest"
  shows "Reconcile env r ns name w =
     (Done (zero_Result, None), w\<lparr>w_calls := w_calls w @ [CGetApp ns name]\<rparr>)"
  using assms
  by (simp add: Reconcile_unfold Let_def reconcile_body_def bnd_def ret_def report_error_def)

end
