(* ===== verification/Converge.thy ===== *)
theory Converge
  imports ReconcileProps
begin

text \<open>
  Convergence: against an API server that stores the app, the controller, run again and again, brings
  an app to its target phase and keeps it there, once the cluster does its part. A locale states what
  makes the argument work (every run takes calls, so a condition that holds after enough calls is met).
\<close>

section \<open>Progress\<close>

locale progress =
  fixes f :: "'s \<Rightarrow> 's" and size_of :: "'s \<Rightarrow> nat"
  assumes grows: "size_of s < size_of (f s)"
begin

lemma size_funpow: "size_of s + k \<le> size_of ((f ^^ k) s)"
proof (induction k)
  case (Suc k)
  with grows [of "(f ^^ k) s"] show ?case by simp
qed simp

lemma kept_funpow: "(\<And>s. P s \<Longrightarrow> P (f s)) \<Longrightarrow> P s \<Longrightarrow> P ((f ^^ k) s)"
  by (induction k) auto

lemma leads_to:
  assumes "\<And>s. P s \<Longrightarrow> P (f s) \<or> Q (f s)" and "\<And>s. P s \<Longrightarrow> n \<le> size_of s \<Longrightarrow> Q (f s)" and "P s"
  shows "\<exists>k. Q ((f ^^ k) s)"
proof -
  have "P ((f ^^ k) s) \<or> (\<exists>j. Q ((f ^^ j) s))" for k
  proof (induction k)
    case (Suc k)
    then show ?case
    proof
      assume "P ((f ^^ k) s)"
      from assms(1) [OF this] show ?thesis by (metis funpow.simps(2) comp_apply)
    qed simp
  qed (use assms(3) in simp)
  from this [of n] show ?thesis
  proof
    assume "P ((f ^^ n) s)"
    moreover have "n \<le> size_of ((f ^^ n) s)" using size_funpow [of s n] by simp
    ultimately have "Q (f ((f ^^ n) s))" by (rule assms(2))
    then show ?thesis by (metis funpow.simps(2) comp_apply)
  qed
qed

lemma kept_until:
  assumes "\<exists>k. Q ((f ^^ k) s)" and "J s" and "\<And>s. J s \<Longrightarrow> J (f s) \<or> R (f s)" and "\<And>s. R s \<Longrightarrow> Q s" and "\<And>s. J s \<Longrightarrow> \<not> Q s"
  shows "\<exists>k. R ((f ^^ k) s)"
proof (rule ccontr)
  assume never: "\<nexists>k. R ((f ^^ k) s)"
  have "J ((f ^^ k) s)" for k
  proof (induction k)
    case (Suc k)
    with assms(3) [of "(f ^^ k) s"] never show ?case by (metis funpow.simps(2) comp_apply)
  qed (use assms(2) in simp)
  with assms(1,5) show False by blast
qed

lemma leads_to_trans:
  assumes "\<exists>k. P ((f ^^ k) s)" and "\<And>s. P s \<Longrightarrow> \<exists>k. Q ((f ^^ k) s)"
  shows "\<exists>k. Q ((f ^^ k) s)"
proof -
  from assms obtain k j where "Q ((f ^^ j) ((f ^^ k) s))" by blast
  then show ?thesis by (metis funpow_add comp_apply)
qed

lemma stays:
  assumes "\<exists>k. P ((f ^^ k) s)" and "\<And>s. P s \<Longrightarrow> P (f s)"
  shows "\<exists>k. \<forall>j \<ge> k. P ((f ^^ j) s)"
proof -
  from assms(1) obtain k where k: "P ((f ^^ k) s)" by blast
  have "P ((f ^^ (i + k)) s)" for i
    using kept_funpow [OF assms(2) k, of i] by (simp add: funpow_add)
  then have "P ((f ^^ j) s)" if "k \<le> j" for j
    using that by (metis le_add_diff_inverse2)
  then show ?thesis by blast
qed

end

section \<open>Runs of the controller\<close>

definition run_once :: "env \<Rightarrow> CliAppReconciler \<Rightarrow> CliApp \<Rightarrow> world \<Rightarrow> world" where
  "run_once env r app0 w = snd (Reconcile env r (app_Namespace app0) (app_Name app0) w)"

abbreviation stored_in :: "CliApp \<Rightarrow> world \<Rightarrow> CliApp" where
  "stored_in app0 w \<equiv> stored app0 (w_calls w)"

lemma run_once_calls:
  obtains new where "w_calls (run_once env r app0 w) =
     w_calls w @ CGetApp (app_Namespace app0) (app_Name app0) # new"
    and "consistent app0 env \<Longrightarrow>
        list_all (reconcile_call_ok env (set_Error [] (stored_in app0 w))) new"
proof -
  obtain new where new: "w_calls (run_once env r app0 w) =
      w_calls w @ CGetApp (app_Namespace app0) (app_Name app0) # new"
    and ok: "case e_getApp env (w_calls w @ [CGetApp (app_Namespace app0) (app_Name app0)]) of
        Inl err \<Rightarrow> new = []
      | Inr app \<Rightarrow> list_all (reconcile_call_ok env (set_Error [] app)) new"
    using reconcile_calls [of env r "app_Namespace app0" "app_Name app0" w]
    unfolding run_once_def by blast
  show thesis by (rule that [OF new]) (use ok in simp)
qed

interpretation run_progress: progress "run_once env r app0" "\<lambda>w. length (w_calls w)" for env r app0
proof
  fix w
  show "length (w_calls w) < length (w_calls (run_once env r app0 w))"
    by (rule run_once_calls [of env r app0 w]) simp
qed

text \<open>
  The spec of a stored app that needs no build does not change, and its phase stays a declared one. \<open>a\<close> is an app with that
  spec: the one that was stored first, or a later one.
\<close>

definition fixed_as :: "CliApp \<Rightarrow> CliApp \<Rightarrow> world \<Rightarrow> bool" where
  "fixed_as a app0 w \<longleftrightarrow>
     app_Spec (stored_in app0 w) = app_Spec a \<and> Phase (stored_in app0 w) \<in> insert [] declared_phases"

abbreviation fixed_app :: "CliApp \<Rightarrow> world \<Rightarrow> bool" where
  "fixed_app app0 \<equiv> fixed_as app0 app0"

lemma phase_edge_declared: "phase_edge app p \<Longrightarrow> p \<in> declared_phases"
  by (auto simp: phase_edge_def declared_phases_def Let_def split: if_splits)

lemma fixed_app_calls:
  assumes "list_all (reconcile_call_ok env a) new"
    and "spec_Image (app_Spec a) \<noteq> [] \<or> TargetPhase a = CliAppPhaseRest"
    and "app_Spec app = app_Spec a" and "Phase app \<in> insert [] declared_phases"
    and "Phase a \<in> insert [] declared_phases"
  shows "app_Spec (foldl apply_call app new) = app_Spec a
    \<and> Phase (foldl apply_call app new) \<in> insert [] declared_phases"
  using assms(1)
proof (induction new rule: rev_induct)
  case (snoc c new)
  have own: "Phase (set_Error e a) \<in> insert [] declared_phases" for e
    using assms(5) by simp
  have written: "Phase b \<in> insert [] declared_phases" if "status_update_ok env a b" for b
    using that assms(2,5) phase_edge_declared by (auto simp: status_update_ok_def)
  from snoc have "reconcile_call_ok env a c" by simp
  then have "(\<forall>b. c = CStatusUpdate b \<longrightarrow> Phase b \<in> insert [] declared_phases) \<and> (\<forall>b. c \<noteq> CUpdate b)"
    using assms(2,5) own
    by (cases c) (auto dest!: written simp: reconcile_call_ok_def rest_call_ok_def live_call_ok_def)
  with snoc show ?case by (cases c) auto
qed (use assms in simp)

lemma fixed_as_run:
  assumes "consistent app0 env" "fixed_as a app0 w"
    and "spec_Image (app_Spec a) \<noteq> [] \<or> TargetPhase a = CliAppPhaseRest"
  shows "fixed_as a app0 (run_once env r app0 w)"
proof -
  obtain new where new: "w_calls (run_once env r app0 w) =
      w_calls w @ CGetApp (app_Namespace app0) (app_Name app0) # new"
    and ok: "list_all (reconcile_call_ok env (set_Error [] (stored_in app0 w))) new"
    by (rule run_once_calls [of env r app0 w]) (use assms(1) in blast)
  have "stored_in app0 (run_once env r app0 w) = foldl apply_call (stored_in app0 w) new"
    unfolding new by (simp add: stored_def)
  moreover have "app_Spec (foldl apply_call (stored_in app0 w) new) = app_Spec (stored_in app0 w)
      \<and> Phase (foldl apply_call (stored_in app0 w) new) \<in> insert [] declared_phases"
    using fixed_app_calls [OF ok, of "stored_in app0 w"] assms(2,3) unfolding fixed_as_def by auto
  ultimately show ?thesis using assms(2) unfolding fixed_as_def by metis
qed

lemma apply_call_id [simp]:
  "app_Name (apply_call app c) = app_Name app"
  "app_Namespace (apply_call app c) = app_Namespace app"
  by (cases c; simp)+

lemma stored_id [simp]:
  "app_Name (stored app0 h) = app_Name app0"
  "app_Namespace (stored app0 h) = app_Namespace app0"
  by (induction h rule: rev_induct) simp_all

section \<open>To rest\<close>

lemma wp_Reconcile_stored:
  assumes "consistent app0 env"
  shows "wp (Reconcile env r ns name) Q E w =
    wp (bnd (reconcile_body env r (set_Error [] (stored_in app0 w))) (report_error env)) Q E
      (w\<lparr>w_calls := w_calls w @ [CGetApp ns name]\<rparr>)"
  unfolding Reconcile_def wp_bnd wp_ask consistentD [OF assms] by simp

lemma wp_report_error [wp_simps]:
  "wp (report_error env (result, err, a)) Q E w =
     (case err of
        None \<Rightarrow> Q (result, None) w
      | Some e \<Rightarrow> Q (result, None)
          (w\<lparr>w_calls := w_calls w @ [CStatusUpdate (set_Error (ErrorText e) a)]\<rparr>))"
  by (simp add: report_error_def split: option.splits)

definition rest_bound :: "CliApp \<Rightarrow> bool" where
  "rest_bound app \<longleftrightarrow> validateApp app = None \<and> TargetPhase app = CliAppPhaseRest
     \<and> \<not> spec_UninstallUnlessLive (app_Spec app)"

lemma rest_bound_stored:
  "fixed_app app0 w \<Longrightarrow> rest_bound app0 \<Longrightarrow> rest_bound (set_Error [] (stored_in app0 w))"
  using validateApp_spec [of "stored_in app0 w" app0] by (simp add: fixed_as_def rest_bound_def)

text \<open>One run for each phase.\<close>

lemma rest_run_wp:
  assumes "consistent app0 env" "fixed_app app0 w" "rest_bound app0"
    and "Phase (stored_in app0 w) \<noteq> CliAppPhaseRest"
    and "wp (bnd (makeAppRest env r (set_Error [] (stored_in app0 w))) (report_error env))
           (\<lambda>_ w'. P (stored_in app0 w')) (\<lambda>_ w'. P (stored_in app0 w'))
           (w\<lparr>w_calls := w_calls w @ [CGetApp (app_Namespace app0) (app_Name app0)]\<rparr>)"
  shows "P (stored_in app0 (run_once env r app0 w))"
proof -
  let ?w = "w\<lparr>w_calls := w_calls w @ [CGetApp (app_Namespace app0) (app_Name app0)]\<rparr>"
  have "wp (Reconcile env r (app_Namespace app0) (app_Name app0))
      (\<lambda>_ w'. P (stored_in app0 w')) (\<lambda>_ w'. P (stored_in app0 w')) w"
    unfolding wp_Reconcile_stored [OF assms(1)]
    using rest_bound_stored [OF assms(2,3)] assms(4,5)
    by (simp add: rest_bound_def reconcile_body_def)
  then show ?thesis unfolding run_once_def by (rule wp_final)
qed

lemma rest_run_live:
  assumes "consistent app0 env" "fixed_app app0 w" "rest_bound app0"
    and "Phase (stored_in app0 w) = CliAppPhaseLive"
  shows "Phase (stored_in app0 (run_once env r app0 w)) = CliAppPhaseWaitingForSessions"
  by (rule rest_run_wp [OF assms(1-3)])
    (use assms rest_bound_stored [OF assms(2,3)] in
      \<open>simp_all add: rest_bound_def makeAppRest_def wp_simps Let_def transit_ok_def transited_def\<close>)

lemma rest_run_direct:
  assumes "consistent app0 env" "fixed_app app0 w" "rest_bound app0"
    and "Phase (stored_in app0 w) \<in> {[], CliAppPhaseRecovering, CliAppPhaseBuilding}"
  shows "Phase (stored_in app0 (run_once env r app0 w)) = CliAppPhaseShuttingDown"
  by (rule rest_run_wp [OF assms(1-3)])
    (use assms rest_bound_stored [OF assms(2,3)] in
      \<open>auto simp add: rest_bound_def makeAppRest_def wp_simps Let_def transit_ok_def transited_def\<close>)

definition idle_over :: "env \<Rightarrow> CliAppReconciler \<Rightarrow> CliApp \<Rightarrow> call list \<Rightarrow> bool" where
  "idle_over env r app h \<longleftrightarrow>
     \<not> dur_less (time_sub (e_now env h) (status_LastPhaseTransition (app_Status app)))
         (r_DurationIdleLiveLasts r)"

lemma rest_run_waiting:
  assumes "consistent app0 env" "fixed_app app0 w" "rest_bound app0"
    and "Phase (stored_in app0 w) = CliAppPhaseWaitingForSessions"
    and "h = w_calls w @ [CGetApp (app_Namespace app0) (app_Name app0), CNow]"
  shows "if idle_over env r (stored_in app0 w) h
    then Phase (stored_in app0 (run_once env r app0 w)) = CliAppPhaseShuttingDown
    else stored_in app0 (run_once env r app0 w) = stored_in app0 w"
  by (rule rest_run_wp [OF assms(1-3)])
    (use assms rest_bound_stored [OF assms(2,3)] in
      \<open>auto simp add: rest_bound_def makeAppRest_def idle_over_def wp_simps Let_def transit_ok_def
        transited_def\<close>)

lemma rest_run_shutting_down:
  assumes "consistent app0 env" "fixed_app app0 w" "rest_bound app0"
    and "Phase (stored_in app0 w) = CliAppPhaseShuttingDown"
    and "h = w_calls w @ [CGetApp (app_Namespace app0) (app_Name app0),
           CListPods (app_Namespace app0) (app_Name app0)]"
  shows "Phase (stored_in app0 (run_once env r app0 w)) =
    (if e_listPods env h = Inr [] then CliAppPhaseRest else CliAppPhaseShuttingDown)"
proof -
  have id: "app_Name (stored_in app0 w) = app_Name app0"
    "app_Namespace (stored_in app0 w) = app_Namespace app0"
    by simp_all
  have deletions: "foldl apply_call app (map CDeletePod ps) = app" for app ps
    by (induction ps) auto
  show ?thesis
    by (rule rest_run_wp [OF assms(1-3)])
      (use assms rest_bound_stored [OF assms(2,3)] in
        \<open>auto simp add: rest_bound_def makeAppRest_def shut_down_def id deletions wp_simps Let_def
          transit_ok_def transited_def intro!: wp_delete_pods split: sum.splits option.splits\<close>)
qed

lemma rest_run_resting:
  assumes "consistent app0 env" "fixed_app app0 w" "rest_bound app0"
    and "Phase (stored_in app0 w) = CliAppPhaseRest"
  shows "stored_in app0 (run_once env r app0 w) = stored_in app0 w"
proof -
  have "wp (Reconcile env r (app_Namespace app0) (app_Name app0))
      (\<lambda>_ w'. stored_in app0 w' = stored_in app0 w) (\<lambda>_ w'. stored_in app0 w' = stored_in app0 w) w"
    unfolding wp_Reconcile_stored [OF assms(1)]
    using rest_bound_stored [OF assms(2,3)] assms(4)
    by (simp add: rest_bound_def reconcile_body_def wp_report_error)
  then show ?thesis unfolding run_once_def by (rule wp_final)
qed

text \<open>The idle time passes: a clock that grows without bound is past any deadline after enough calls.\<close>

lemma idle_over_late:
  assumes "status_LastPhaseTransition (app_Status app) + dur_max \<le> e_now env h"
  shows "idle_over env r app h"
  using assms sint_dur_bounds(2) [of "r_DurationIdleLiveLasts r"]
  by (simp add: idle_over_def dur_less_def sint_time_sub)

definition clock_runs :: "env \<Rightarrow> bool" where
  "clock_runs env \<longleftrightarrow> (\<forall>t. \<exists>n. \<forall>h. n \<le> length h \<longrightarrow> t \<le> e_now env h)"

text \<open>The pods of the app go away sooner or later.\<close>

definition pods_go :: "env \<Rightarrow> bool" where
  "pods_go env \<longleftrightarrow> (\<exists>n. \<forall>h. n \<le> length h \<longrightarrow> e_listPods env h = Inr [])"

definition in_phase :: "CliApp \<Rightarrow> CliAppPhase \<Rightarrow> world \<Rightarrow> bool" where
  "in_phase app0 p w \<longleftrightarrow> fixed_app app0 w \<and> Phase (stored_in app0 w) = p"

lemma shutting_down_leads_to_rest:
  assumes "consistent app0 env" "rest_bound app0" "pods_go env"
    and "in_phase app0 CliAppPhaseShuttingDown w"
  shows "\<exists>k. in_phase app0 CliAppPhaseRest ((run_once env r app0 ^^ k) w)"
proof -
  obtain n where n: "\<And>h. n \<le> length h \<Longrightarrow> e_listPods env h = Inr []"
    using assms(3) by (auto simp: pods_go_def)
  have fixed: "fixed_app app0 (run_once env r app0 w)" if "fixed_app app0 w" for w
    using fixed_as_run [OF assms(1) that] assms(2) by (simp add: rest_bound_def)
  show ?thesis
  proof (rule run_progress.leads_to [where n = n])
    show "in_phase app0 CliAppPhaseShuttingDown w" by fact
    fix w assume w: "in_phase app0 CliAppPhaseShuttingDown w"
    note run = rest_run_shutting_down [OF assms(1) _ assms(2) _ refl, of w r]
    show "in_phase app0 CliAppPhaseShuttingDown (run_once env r app0 w)
        \<or> in_phase app0 CliAppPhaseRest (run_once env r app0 w)"
      using w run fixed [of w] unfolding in_phase_def by metis
    assume "n \<le> length (w_calls w)"
    with w run n fixed [of w] show "in_phase app0 CliAppPhaseRest (run_once env r app0 w)"
      unfolding in_phase_def by simp
  qed
qed

lemma waiting_leads_to_shutting_down:
  assumes "consistent app0 env" "rest_bound app0" "clock_runs env"
    and "in_phase app0 CliAppPhaseWaitingForSessions w"
  shows "\<exists>k. in_phase app0 CliAppPhaseShuttingDown ((run_once env r app0 ^^ k) w)"
proof -
  define a where "a = stored_in app0 w"
  obtain n where n: "\<And>h. n \<le> length h \<Longrightarrow> idle_over env r a h"
    using assms(3) idle_over_late [of a env _ r] unfolding clock_runs_def by metis
  have fixed: "fixed_app app0 (run_once env r app0 w)" if "fixed_app app0 w" for w
    using fixed_as_run [OF assms(1) that] assms(2) by (simp add: rest_bound_def)
  let ?P = "\<lambda>w. in_phase app0 CliAppPhaseWaitingForSessions w \<and> stored_in app0 w = a"
  show ?thesis
  proof (rule run_progress.leads_to [where P = ?P and n = n])
    show "?P w" using assms(4) a_def by simp
    fix w assume w: "?P w"
    note run = rest_run_waiting [OF assms(1) _ assms(2) _ refl, of w r]
    show "?P (run_once env r app0 w) \<or> in_phase app0 CliAppPhaseShuttingDown (run_once env r app0 w)"
      using w run fixed [of w] unfolding in_phase_def by (metis (full_types))
    assume "n \<le> length (w_calls w)"
    with w run n fixed [of w] show "in_phase app0 CliAppPhaseShuttingDown (run_once env r app0 w)"
      unfolding in_phase_def by auto
  qed
qed

lemma leads_to_rest:
  assumes "consistent app0 env" "rest_bound app0" "clock_runs env" "pods_go env" "fixed_app app0 w"
  shows "\<exists>k. in_phase app0 CliAppPhaseRest ((run_once env r app0 ^^ k) w)"
proof -
  let ?f = "run_once env r app0"
  let ?goal = "\<lambda>w. \<exists>k. in_phase app0 CliAppPhaseRest ((?f ^^ k) w)"
  note trans = run_progress.leads_to_trans [of _ env r app0]
  have step: "in_phase app0 p (?f w) \<Longrightarrow> \<exists>k. in_phase app0 p ((?f ^^ k) w)" for p w
    by (rule exI [of _ 1]) simp
  have fixed: "fixed_app app0 (?f w)" if "fixed_app app0 w" for w
    using fixed_as_run [OF assms(1) that] assms(2) by (simp add: rest_bound_def)
  have shutting: "?goal w" if "in_phase app0 CliAppPhaseShuttingDown w" for w
    by (rule shutting_down_leads_to_rest) (use assms that in auto)
  have waiting: "?goal w" if "in_phase app0 CliAppPhaseWaitingForSessions w" for w
    by (rule trans [OF waiting_leads_to_shutting_down [OF assms(1-3) that] shutting])
  consider "in_phase app0 CliAppPhaseLive w" | "in_phase app0 CliAppPhaseWaitingForSessions w"
    | "Phase (stored_in app0 w) \<in> {[], CliAppPhaseRecovering, CliAppPhaseBuilding}"
    | "in_phase app0 CliAppPhaseShuttingDown w" | "in_phase app0 CliAppPhaseRest w"
    using assms(5) by (auto simp: in_phase_def fixed_as_def declared_phases_def)
  then show ?thesis
  proof cases
    case 1
    then have "in_phase app0 CliAppPhaseWaitingForSessions (?f w)"
      using rest_run_live [OF assms(1) _ assms(2)] fixed by (simp add: in_phase_def)
    from trans [OF step [OF this] waiting] show ?thesis .
  next
    case 3
    then have "in_phase app0 CliAppPhaseShuttingDown (?f w)"
      using rest_run_direct [OF assms(1,5,2)] fixed [OF assms(5)] by (simp add: in_phase_def)
    from trans [OF step [OF this] shutting] show ?thesis .
  next
    case 5
    then show ?thesis by (intro exI [of _ 0]) simp
  qed (use waiting shutting in auto)
qed

text \<open>
  C3. Convergence to rest. An app that shall be at rest and stays installed reaches the phase Rest after finitely many
  runs of the controller, from every declared phase and from no phase at all, and stays in it; its
  spec is what it was. The API server is one that stores the app; its clock runs and the app's pods
  go away at some time, but every pod list, deletion and REST call before that may fail or answer
  anything.
\<close>

theorem reconcile_converges_to_rest:
  assumes "consistent app0 env" and "clock_runs env" and "pods_go env"
    and "validateApp app0 = None" and "TargetPhase app0 = CliAppPhaseRest"
    and "\<not> spec_UninstallUnlessLive (app_Spec app0)" and "Phase app0 \<in> insert [] declared_phases"
    and "w_calls w = []"
  shows "\<exists>k. \<forall>j \<ge> k. let app = stored_in app0 ((run_once env r app0 ^^ j) w)
           in Phase app = CliAppPhaseRest \<and> app_Spec app = app_Spec app0"
proof -
  have bound: "rest_bound app0" using assms(4-6) by (simp add: rest_bound_def)
  have start: "fixed_app app0 w" using assms(7,8) by (simp add: fixed_as_def)
  have "\<exists>k. \<forall>j \<ge> k. in_phase app0 CliAppPhaseRest ((run_once env r app0 ^^ j) w)"
  proof (rule run_progress.stays [OF leads_to_rest [OF assms(1) bound assms(2,3) start]])
    fix w assume "in_phase app0 CliAppPhaseRest w"
    then show "in_phase app0 CliAppPhaseRest (run_once env r app0 w)"
      using rest_run_resting [OF assms(1) _ bound, of w r] unfolding in_phase_def fixed_as_def by auto
  qed
  then show ?thesis by (auto simp: in_phase_def fixed_as_def Let_def)
qed

lemma quiet_clock_runs [simp]: "clock_runs (quiet_env app0 pods)"
  unfolding clock_runs_def
proof
  fix t
  show "\<exists>n. \<forall>h. n \<le> length h \<longrightarrow> t \<le> e_now (quiet_env app0 pods) h"
    by (rule exI [of _ "nat t"]) (auto simp: quiet_env_def)
qed

lemma quiet_pods_go [simp]: "pods_go (quiet_env app0 [])"
  by (simp add: pods_go_def quiet_env_def)

definition sample_live :: CliApp where
  "sample_live = set_Phase CliAppPhaseLive sample_app"

lemma reconcile_converges_to_rest_witness:
  "\<exists>k. \<forall>j \<ge> k.
     let app = stored_in sample_live
       ((run_once (quiet_env sample_live []) sample_reconciler sample_live ^^ j) idle_world)
     in Phase app = CliAppPhaseRest \<and> app_Spec app = app_Spec sample_live"
  by (rule reconcile_converges_to_rest)
    (simp_all add: validateApp_def sample_live_def sample_app_def sample_spec_def declared_phases_def
      idle_world_def)

end
