(* ===== verification/ImageProps.thy ===== *)
theory ImageProps
  imports Store
begin

text \<open>What the controller reads of an image's configuration (\<open>fetchImageConfiguration\<close> of controllers/cliapp_workload.go).\<close>

lemma find_path_env_find:
  "find_path_env envs = (case find (\<lambda>e. HasPrefix e ''PATH='') envs of None \<Rightarrow> [] | Some e \<Rightarrow> drop 5 e)"
  by (induction envs) auto

text \<open>
  C25. The configuration of an image is read from what the runtime says. The text under "info" is any text that is the JSON of an object, with its members in
  any order and spacing. When the tags imageSpec, config, Env and WorkingDir name at most one member each (keys match as encoding/json folds them; a member may be left
  out or be null), then the result is the working directory and the value of the first variable PATH, each empty where nothing is given; other
  members do not matter; the runtime is asked once, and nothing else is called.
\<close>

theorem image_configuration_read:
  assumes "e_imageStatus env (w_calls w @ [CImageStatus img]) = Inr (Some m)"
    and "m ''info'' = Some text" and "json_parse text = Some (VObj info)"
    and "field_is ''imageSpec'' info (VObj spec) (VObj [])" and "field_is ''config'' spec (VObj config) (VObj [])"
    and "field_is ''Env'' config (VArr (map VStr envs)) (VArr [])" and "field_is ''WorkingDir'' config (VStr workdir) (VStr [])"
  shows "fetchImageConfiguration env img w =
    (Done (Inr (workdir, case find (\<lambda>e. HasPrefix e ''PATH='') envs of None \<Rightarrow> [] | Some e \<Rightarrow> drop 5 e)),
     w\<lparr>w_calls := w_calls w @ [CImageStatus img]\<rparr>)"
proof -
  obtain i where i: "unmarshal_imageInfo text = Some i" "Config_Env i = envs" "ic_WorkingDir i = workdir"
    using unmarshal_object [OF assms(3-7)] by blast
  have "text \<noteq> []" using assms(3) by (auto simp: json_parse_def json_lex.simps)
  moreover have "\<not> map_is_empty (Some m)" using assms(2) by (auto simp: map_is_empty_def)
  ultimately show ?thesis
    using assms(1,2) i by (simp add: fetchImageConfiguration_def bnd_def ask_def ret_def Let_def find_path_env_find)
qed

text \<open>A text that is no JSON, or has a value of the wrong kind in these places, is the error of the decoder.\<close>

lemma image_configuration_error:
  assumes "e_imageStatus env (w_calls w @ [CImageStatus img]) = Inr (Some m)"
    and "m ''info'' = Some text" and "text \<noteq> []" and "unmarshal_imageInfo text = None"
  shows "fetchImageConfiguration env img w =
    (Done (Inl (e_jsonError env text)), w\<lparr>w_calls := w_calls w @ [CImageStatus img]\<rparr>)"
proof -
  have "\<not> map_is_empty (Some m)" using assms(2) by (auto simp: map_is_empty_def)
  then show ?thesis
    using assms by (simp add: fetchImageConfiguration_def bnd_def ask_def ret_def Let_def)
qed

definition image_text :: string where
  \<open>image_text = ''{ "chainID" : "sha256",  "imagespec": {"config": {"WorkingDir": "/srv", "User": null, "Env": ["HOME=/root", "PATH=/bin"]}}}''\<close>

definition image_env :: env where
  "image_env = (quiet_env sample_app [])\<lparr>e_imageStatus := (\<lambda>h. Inr (Some [''info'' \<mapsto> image_text]))\<rparr>"

lemma parsed_image_text: "json_parse image_text = Some (VObj [(''chainID'', VStr ''sha256''), (''imagespec'',
    VObj [(''config'', VObj [(''WorkingDir'', VStr ''/srv''), (''User'', VNull), (''Env'', VArr (map VStr [''HOME=/root'', ''PATH=/bin'']))])])])"
  by code_simp

theorem image_configuration_read_witness:
  "fst (fetchImageConfiguration image_env ''busybox'' idle_world) = Done (Inr (''/srv'', ''/bin''))"
proof -
  let ?config = "[(''WorkingDir'', VStr ''/srv''), (''User'', VNull), (''Env'', VArr (map VStr [''HOME=/root'', ''PATH=/bin'']))]"
  have f1: "field_is ''imageSpec'' [(''chainID'', VStr ''sha256''), (''imagespec'', VObj [(''config'', VObj ?config)])]
      (VObj [(''config'', VObj ?config)]) (VObj [])"
    by code_simp
  have f2: "field_is ''config'' [(''config'', VObj ?config)] (VObj ?config) (VObj [])" by code_simp
  have f3: "field_is ''Env'' ?config (VArr (map VStr [''HOME=/root'', ''PATH=/bin''])) (VArr [])" by code_simp
  have f4: "field_is ''WorkingDir'' ?config (VStr ''/srv'') (VStr [])" by code_simp
  have path: "find (\<lambda>e. HasPrefix e ''PATH='') [''HOME=/root'', ''PATH=/bin''] = Some ''PATH=/bin''"
    by (simp add: HasPrefix_def)
  have got: "e_imageStatus image_env (w_calls idle_world @ [CImageStatus ''busybox'']) = Inr (Some [''info'' \<mapsto> image_text])"
    by (simp add: image_env_def)
  have "fetchImageConfiguration image_env ''busybox'' idle_world =
      (Done (Inr (''/srv'', drop 5 ''PATH=/bin'')), idle_world\<lparr>w_calls := w_calls idle_world @ [CImageStatus ''busybox'']\<rparr>)"
    using image_configuration_read [OF got _ parsed_image_text f1 f2 f3 f4] unfolding path by simp
  then show ?thesis by simp
qed

end
