(* ===== verification/ClaimProps.thy ===== *)
theory ClaimProps
  imports ReconcileProps
begin

text \<open>
  What \<open>claimPods\<close> does on every branch, and which pods it keeps and recycles.
\<close>

lemma recycle_pods_eq:
  "recycle_pods env ns pods w =
     (Done (), w\<lparr>w_calls := w_calls w @ map (\<lambda>p. CClientDeletePod ns (pod_Name p)) pods\<rparr>)"
proof (induction pods arbitrary: w)
  case (Cons p ps)
  then show ?case by (simp add: recycle_pods_def bnd_def ask_def ret_def Let_def)
qed (simp add: recycle_pods_def ret_def)

lemma wp_recycle_pods [wp_simps]:
  "wp (recycle_pods env ns pods) Q E w =
     Q () (w\<lparr>w_calls := w_calls w @ map (\<lambda>p. CClientDeletePod ns (pod_Name p)) pods\<rparr>)"
  by (simp add: wp_def recycle_pods_eq)

definition claim_calls :: "CliApp \<Rightarrow> call list" where
  "claim_calls app = [CNewClientset, CClientListPods (app_Namespace app) (appLabel @ ''='' @ app_Name app)]"

lemma wp_claimPods:
  assumes "r_ToRESTConfig r () = Inr c"
    and "e_newClientset env (w_calls w @ [CNewClientset]) = None"
    and "e_clientListPods env (w_calls w @ claim_calls app) = Inr items"
  shows "wp (claimPods env r app d h) Q E w =
    (case sort_pods d h items of (old, new) \<Rightarrow>
       Q (Inr (case new of [] \<Rightarrow> None | p # ps \<Rightarrow> Some p))
         (w\<lparr>w_calls := w_calls w @ claim_calls app @
              map (\<lambda>p. CClientDeletePod (app_Namespace app) (pod_Name p)) old\<rparr>))"
  using assms
  by (simp add: claimPods_def claim_calls_def case_prod_beta wp_recycle_pods split: list.splits)

text \<open>
  A pod of the app is marked when it carries both annotations, and its hash is the current one
  exactly when its dump is; that is so for every pod that \<open>startApp\<close> created, unless two different
  specs have the same hash.
\<close>

definition marked :: "string \<Rightarrow> string \<Rightarrow> Pod \<Rightarrow> bool" where
  "marked d h p \<longleftrightarrow>
     annotation p annoKeySpecDump \<noteq> [] \<and> (annotation p annoKeySpecHash = h \<longleftrightarrow> annotation p annoKeySpecDump = d)"

text \<open>
  Of marked pods, \<open>claimPods\<close> keeps exactly one current pod: the claimed one is not
  recycled, and every other pod that is not terminating is: the further current ones once each,
  and the outdated ones, each of which is deleted twice. No terminating pod is touched.
\<close>

theorem sort_pods_marked:
  assumes "\<forall>p \<in> set items. marked d h p"
  shows "let live = filter (\<lambda>p. pod_DeletionTimestamp p = None) items;
             current = filter (\<lambda>p. annotation p annoKeySpecDump = d) live;
             outdated = filter (\<lambda>p. annotation p annoKeySpecDump \<noteq> d) live
         in sort_pods d h items = (concat (map (\<lambda>p. [p, p]) outdated) @ tl current, current)"
proof -
  have "concat (map (\<lambda>p. (if map_is_empty (pod_Annotations p) \<or> annotation p annoKeySpecHash \<noteq> h
                         \<or> annotation p annoKeySpecDump = [] then [p] else [])
               @ (if annotation p annoKeySpecDump \<noteq> d then [p] else [])) ps)
      = concat (map (\<lambda>p. [p, p]) (filter (\<lambda>p. annotation p annoKeySpecDump \<noteq> d) ps))"
    if "\<forall>p \<in> set ps. marked d h p" for ps
    using that by (induction ps) (auto simp: marked_def dest: map_is_empty_get)
  from this [of "filter (\<lambda>p. pod_DeletionTimestamp p = None) items"] assms show ?thesis
    by (simp add: sort_pods_eq Let_def drop_Suc)
qed

definition sample_pod :: "string \<Rightarrow> string \<Rightarrow> string \<Rightarrow> Pod" where
  "sample_pod name d h = zero_Pod\<lparr>pod_Name := name,
     pod_Annotations := Some [annoKeySpecDump \<mapsto> d, annoKeySpecHash \<mapsto> h]\<rparr>"

lemma sort_pods_marked_witness:
  "let new = sample_pod ''new'' ''d1'' ''h1''; old = sample_pod ''old'' ''d0'' ''h0'';
       more = sample_pod ''more'' ''d1'' ''h1''
   in sort_pods ''d1'' ''h1'' [old, new, more] = ([old, old, more], [new, more])"
  using sort_pods_marked [of "[sample_pod ''old'' ''d0'' ''h0'', sample_pod ''new'' ''d1'' ''h1'',
      sample_pod ''more'' ''d1'' ''h1'']" "''d1''" "''h1''"]
  by (simp add: marked_def sample_pod_def zero_Pod_def Let_def)

text \<open>A pod that \<open>startApp\<close> made for a spec: it carries the dump of the spec and its hash.\<close>

definition made_for :: "env \<Rightarrow> CliAppSpec \<Rightarrow> Pod \<Rightarrow> bool" where
  "made_for env spec p \<longleftrightarrow>
     annotation p annoKeySpecDump = encodeSpec spec \<and> annotation p annoKeySpecHash = computeHash env spec"

lemma made_for_dump:
  assumes "made_for env s p" and "utf8_spec s" and "utf8_spec spec"
  shows "annotation p annoKeySpecDump = encodeSpec spec \<longleftrightarrow> s = spec"
  using assms by (auto simp: made_for_def dest: encodeSpec_inject)

text \<open>
  C17. The spec decides which pod is current. When every pod of the app was made for some spec, the pods that count as
  current are those that are not terminating and were made for the very spec that the app has now; \<open>claimPods\<close>
  keeps the first of them, and recycles the others and all that were made for another spec. It touches no terminating pod.
\<close>

theorem claim_by_spec:
  assumes "\<forall>p \<in> set items. \<exists>s. utf8_spec s \<and> made_for env s p" and "utf8_spec spec"
  shows "let live = filter (\<lambda>p. pod_DeletionTimestamp p = None) items;
             current = filter (made_for env spec) live
         in snd (sort_pods (encodeSpec spec) (computeHash env spec) items) = current
          \<and> set (fst (sort_pods (encodeSpec spec) (computeHash env spec) items)) =
              {p \<in> set live. \<not> made_for env spec p} \<union> set (tl current)"
proof -
  let ?live = "filter (\<lambda>p. pod_DeletionTimestamp p = None) items"
  have made: "made_for env spec p \<longleftrightarrow> annotation p annoKeySpecDump = encodeSpec spec" if "p \<in> set items" for p
    using assms that made_for_dump by (metis made_for_def)
  then have cur: "filter (\<lambda>p. annotation p annoKeySpecDump = encodeSpec spec) ?live = filter (made_for env spec) ?live"
    by (intro filter_cong) auto
  have hash: "annotation p annoKeySpecHash = computeHash env spec" "annotation p annoKeySpecDump \<noteq> []"
    "\<not> map_is_empty (pod_Annotations p)"
    if "p \<in> set items" "annotation p annoKeySpecDump = encodeSpec spec" for p
    using made [OF that(1)] that(2) map_is_empty_get [of "pod_Annotations p" annoKeySpecDump]
    by (auto simp: made_for_def)
  show ?thesis
    unfolding sort_pods_eq Let_def fst_conv snd_conv cur
    using made hash encodeSpec_not_Nil [of spec, THEN not_sym] by (auto simp: drop_Suc split: if_splits)
qed

definition pod_for :: "env \<Rightarrow> string \<Rightarrow> CliAppSpec \<Rightarrow> Pod" where
  "pod_for env name spec = sample_pod name (encodeSpec spec) (computeHash env spec)"

lemma claim_by_spec_witness:
  "let env = quiet_env sample_app []; spec = sample_spec; other = sample_spec\<lparr>spec_Image := ''alpine''\<rparr>;
       new = pod_for env ''new'' spec; old = pod_for env ''old'' other; more = pod_for env ''more'' spec
   in snd (sort_pods (encodeSpec spec) (computeHash env spec) [old, new, more]) = [new, more]
    \<and> set (fst (sort_pods (encodeSpec spec) (computeHash env spec) [old, new, more])) = {old, more}"
proof -
  define env where "env = quiet_env sample_app []"
  define other where "other = sample_spec\<lparr>spec_Image := ''alpine''\<rparr>"
  let ?items = "[pod_for env ''old'' other, pod_for env ''new'' sample_spec, pod_for env ''more'' sample_spec]"
  have utf8: "utf8_spec sample_spec" "utf8_spec other"
    by (simp_all add: utf8_spec_def other_def sample_spec_def byte_def)
  have ne: "sample_spec \<noteq> other" by (simp add: other_def sample_spec_def)
  have made: "made_for env s (pod_for env n s)" "pod_DeletionTimestamp (pod_for env n s) = None" for n s
    by (simp_all add: made_for_def pod_for_def sample_pod_def zero_Pod_def)
  have not: "\<not> made_for env sample_spec (pod_for env n other)" for n
    using made_for_dump [OF made(1) utf8(2,1)] ne by (simp add: made_for_def)
  have "\<forall>p \<in> set ?items. \<exists>s. utf8_spec s \<and> made_for env s p"
    using made(1) utf8 by auto
  from claim_by_spec [OF this utf8(1)]
  have "snd (sort_pods (encodeSpec sample_spec) (computeHash env sample_spec) ?items) = tl ?items"
    "set (fst (sort_pods (encodeSpec sample_spec) (computeHash env sample_spec) ?items)) =
       {p \<in> set ?items. \<not> made_for env sample_spec p} \<union> {pod_for env ''more'' sample_spec}"
    by (simp_all add: made not Let_def)
  moreover have "{p \<in> set ?items. \<not> made_for env sample_spec p} = {pod_for env ''old'' other}"
    using made(1) not by auto
  ultimately show ?thesis
    by (simp only: Let_def flip: env_def other_def) (simp add: insert_commute)
qed

text \<open>
  The hash is not what decides whether a pod is current: a pod that is not terminating, whose dump
  is the current one but whose hash is another, is recycled and counts as current all the same; when it
  is the first, \<open>claimPods\<close> hands out a pod that it has just deleted.
\<close>

theorem sort_pods_wrong_hash:
  assumes "p \<in> set items" and "pod_DeletionTimestamp p = None"
    and "annotation p annoKeySpecDump = d" and "annotation p annoKeySpecHash \<noteq> h"
  shows "p \<in> set (fst (sort_pods d h items)) \<and> p \<in> set (snd (sort_pods d h items))"
  using assms by (auto simp: sort_pods_eq Let_def)

lemma sort_pods_wrong_hash_witness:
  "let p = sample_pod ''a'' ''d1'' ''h0'' in
     p \<in> set (fst (sort_pods ''d1'' ''h1'' [p])) \<and> p \<in> set (snd (sort_pods ''d1'' ''h1'' [p]))"
  using sort_pods_wrong_hash [of "sample_pod ''a'' ''d1'' ''h0''" "[sample_pod ''a'' ''d1'' ''h0'']"
      "''d1''" "''h1''"]
  by (simp add: sample_pod_def zero_Pod_def)

end
