(* ===== verification/RestProps.thy ===== *)
theory RestProps
  imports ReconcileProps ClaimProps "HOL-Library.Multiset"
begin

text \<open>
  Properties of \<open>makeAppRest\<close> and of the parts it is made of: the grouping of pods, readiness, the phase
  transition, the idle wait, the shutdown and the uninstallation.
\<close>

section \<open>Pods\<close>

text \<open>
  A pod is ready if and only if the first of its conditions of type Ready, in the order of the
  list, has the status True; a pod without such a condition is not ready, and later conditions of the type
  do not matter.
\<close>

theorem IsPodReady_first:
  "IsPodReady pod \<longleftrightarrow>
     (let cs = pst_Conditions (pod_Status pod)
      in \<exists>i < length cs. pc_Type (cs ! i) = ''Ready'' \<and> pc_Status (cs ! i) = ''True''
           \<and> (\<forall>j < i. pc_Type (cs ! j) \<noteq> ''Ready''))"
  by (auto simp: IsPodReady_find find_Some_iff Let_def)

lemma IsPodReady_first_witness:
  "IsPodReady (zero_Pod\<lparr>pod_Status := \<lparr>pst_Phase = ''Running'',
     pst_Conditions = [\<lparr>pc_Type = ''Initialized'', pc_Status = ''False''\<rparr>,
                       \<lparr>pc_Type = ''Ready'', pc_Status = ''True''\<rparr>]\<rparr>\<rparr>)"
  unfolding IsPodReady_first Let_def by (intro exI [of _ 1]) simp

text \<open>
  \<open>groupPods\<close> sorts every pod into exactly one group: the groups together are the pods of the list, each as
  often as there; the terminating ones are those with a deletion time, the ready and the starting
  ones have none and are told apart by readiness; and each description list belongs to its group.
\<close>

theorem groupPods_partition:
  "let g = groupPods items in
     mset (g_terminating g) + mset (g_ready g) + mset (g_starting g) = mset items
   \<and> (\<forall>p \<in> set (g_terminating g). pod_DeletionTimestamp p \<noteq> None)
   \<and> (\<forall>p \<in> set (g_ready g). pod_DeletionTimestamp p = None \<and> IsPodReady p)
   \<and> (\<forall>p \<in> set (g_starting g). pod_DeletionTimestamp p = None \<and> \<not> IsPodReady p)
   \<and> g_terminatingDesc g = map pod_desc (g_terminating g)
   \<and> g_readyDesc g = map pod_desc (g_ready g)
   \<and> g_startingDesc g = map pod_desc (g_starting g)"
proof -
  have "mset (filter (\<lambda>p. P p) xs) + mset (filter (\<lambda>p. \<not> P p \<and> Q p) xs)
      + mset (filter (\<lambda>p. \<not> P p \<and> \<not> Q p) xs) = mset xs" for P Q and xs :: "Pod list"
    by (induction xs) auto
  from this [of "\<lambda>p. pod_DeletionTimestamp p \<noteq> None" items IsPodReady]
  show ?thesis by (simp add: groupPods_def foldl_group_pod Let_def)
qed

lemma groupPods_partition_witness:
  "let p = zero_Pod\<lparr>pod_Name := ''p''\<rparr>; q = zero_Pod\<lparr>pod_Name := ''q'', pod_DeletionTimestamp := Some 1\<rparr>
   in mset (g_terminating (groupPods [p, q])) + mset (g_ready (groupPods [p, q]))
      + mset (g_starting (groupPods [p, q])) = mset [p, q]"
  using groupPods_partition [of "[zero_Pod\<lparr>pod_Name := ''p''\<rparr>,
      zero_Pod\<lparr>pod_Name := ''q'', pod_DeletionTimestamp := Some 1\<rparr>]"]
  unfolding Let_def by blast

section \<open>Waiting for sessions\<close>

lemma time_sub_small:
  assumes "u \<le> t" "t - u < sint (idle :: dur)"
  shows "sint (idle - time_sub t u) = sint idle - (t - u)" "dur_less (time_sub t u) idle"
proof -
  have range: "dur_min \<le> t - u" "t - u \<le> dur_max"
    using assms sint_dur_bounds(2) [of idle] by simp_all
  then have e: "sint (time_sub t u) = t - u" by (simp add: sint_time_sub)
  show "sint (idle - time_sub t u) = sint idle - (t - u)"
    using assms sint_dur_bounds(2) [of idle] by (subst sint_dur_diff) (simp_all add: e)
  show "dur_less (time_sub t u) idle" using assms(2) by (simp add: dur_less_def e)
qed

lemma time_sub_large:
  assumes "sint (idle :: dur) \<le> t - u"
  shows "\<not> dur_less (time_sub t u) idle"
  using assms sint_dur_bounds [of idle] by (simp add: dur_less_def sint_time_sub)

text \<open>
  C18. An app that waits for its sessions is left running for the whole idle time: before that, the
  controller only reads the clock and asks to be run again after exactly the time that is left, with
  no wrap-around; from then on it starts to shut the app down.
\<close>

theorem idle_wait:
  assumes "TargetPhase app = CliAppPhaseRest" and "Phase app = CliAppPhaseWaitingForSessions"
    and "since = status_LastPhaseTransition (app_Status app)" and "now = e_now env (w_calls w @ [CNow])"
    and "since \<le> now"
  shows "if now - since < sint (r_DurationIdleLiveLasts r)
    then \<exists>rest. makeAppRest env r app w =
           (Done (zero_Result\<lparr>res_RequeueAfter := rest\<rparr>, None, app), w\<lparr>w_calls := w_calls w @ [CNow]\<rparr>)
         \<and> sint rest = sint (r_DurationIdleLiveLasts r) - (now - since)
    else \<exists>err app' t. makeAppRest env r app w =
           (Done (zero_Result\<lparr>res_Requeue := True\<rparr>, err, app'),
            w\<lparr>w_calls := w_calls w @ [CNow, CNow, CStatusUpdate (transited app CliAppPhaseShuttingDown t)]\<rparr>)"
proof (cases "now - since < sint (r_DurationIdleLiveLasts r)")
  case True
  let ?rest = "r_DurationIdleLiveLasts r - time_sub now since"
  have "makeAppRest env r app w =
      (Done (zero_Result\<lparr>res_RequeueAfter := ?rest\<rparr>, None, app), w\<lparr>w_calls := w_calls w @ [CNow]\<rparr>)"
    using time_sub_small(2) [OF assms(5) True] assms
    by (simp add: makeAppRest_def bnd_def ask_def ret_def Let_def)
  with time_sub_small(1) [OF assms(5) True] True show ?thesis by auto
next
  case False
  then have "\<not> dur_less (time_sub now since) (r_DurationIdleLiveLasts r)"
    by (intro time_sub_large) simp
  with assms False show ?thesis
    by (auto simp: makeAppRest_def transitPhaseTo_def transited_def bnd_def ask_def ret_def Let_def
        split: sum.splits)
qed

lemma idle_wait_witness:
  "let app = set_Phase ''WaitingForSessions'' sample_app
   in \<exists>rest. makeAppRest (quiet_env app []) sample_reconciler app idle_world =
        (Done (zero_Result\<lparr>res_RequeueAfter := rest\<rparr>, None, app), idle_world\<lparr>w_calls := [CNow]\<rparr>)
      \<and> sint rest = 599000000000"
  using idle_wait [of "set_Phase ''WaitingForSessions'' sample_app" 0 "1000000000"
      "quiet_env (set_Phase ''WaitingForSessions'' sample_app) []" idle_world sample_reconciler]
  by (simp add: sample_app_def sample_spec_def quiet_env_def idle_world_def sample_reconciler_def Let_def)

section \<open>Shutting down\<close>

text \<open>
  C19. Shutting down an app with pods. When one of its pods is already terminating the controller only looks at the pods;
  otherwise it deletes every pod of the list exactly once, the ready ones first. Either way it
  comes back after five seconds and does not touch the app.
\<close>

theorem shut_down_pods:
  assumes "TargetPhase app = CliAppPhaseRest" and "Phase app = CliAppPhaseShuttingDown"
    and "h = w_calls w @ [CListPods (app_Namespace app) (app_Name app)]"
    and "e_listPods env h = Inr items" and "items \<noteq> []"
  shows "\<exists>gone err. makeAppRest env r app w =
      (Done (zero_Result\<lparr>res_RequeueAfter := 5 * Second\<rparr>, err, app), w\<lparr>w_calls := h @ map CDeletePod gone\<rparr>)
    \<and> (if \<exists>p \<in> set items. pod_DeletionTimestamp p \<noteq> None then gone = [] \<and> err = None
       else mset gone = mset items \<and> gone = filter IsPodReady items @ filter (\<lambda>p. \<not> IsPodReady p) items)"
proof (cases "\<exists>p \<in> set items. pod_DeletionTimestamp p \<noteq> None")
  case True
  then have "filter (\<lambda>p. pod_DeletionTimestamp p \<noteq> None) items \<noteq> []"
    by (auto simp: filter_empty_conv)
  with assms True show ?thesis
    by (simp add: makeAppRest_def shut_down_def bnd_def ask_def ret_def Let_def)
next
  case False
  let ?gone = "filter IsPodReady items @ filter (\<lambda>p. \<not> IsPodReady p) items"
  from False have eqs: "filter (\<lambda>p. pod_DeletionTimestamp p = None \<and> P p) items = filter P items"
    "filter (\<lambda>p. \<exists>t. pod_DeletionTimestamp p = Some t) items = []" for P
    by (auto intro: filter_cong simp: filter_empty_conv)
  obtain err where del: "delete_pods env ?gone None (w\<lparr>w_calls := h\<rparr>) =
      (Done err, w\<lparr>w_calls := h @ map CDeletePod ?gone\<rparr>)"
    using delete_pods_calls [of env ?gone None "w\<lparr>w_calls := h\<rparr>"] by auto
  have "makeAppRest env r app w = (Done (zero_Result\<lparr>res_RequeueAfter := 5 * Second\<rparr>, err, app),
      w\<lparr>w_calls := h @ map CDeletePod ?gone\<rparr>)"
    using assms del
    by (simp add: makeAppRest_def shut_down_def bnd_def ask_def ret_def Let_def eqs del: filter_append map_append)
  moreover have "mset ?gone = mset items" by (induction items) auto
  ultimately show ?thesis using False by auto
qed

definition sample_stopping :: CliApp where
  "sample_stopping = set_Phase CliAppPhaseShuttingDown sample_app"

lemma shut_down_pods_witness:
  "\<exists>gone err. makeAppRest (quiet_env sample_stopping [zero_Pod]) sample_reconciler sample_stopping idle_world =
      (Done (zero_Result\<lparr>res_RequeueAfter := 5 * Second\<rparr>, err, sample_stopping),
       idle_world\<lparr>w_calls := [CListPods (app_Namespace sample_stopping) (app_Name sample_stopping)]
         @ map CDeletePod gone\<rparr>)
    \<and> (if \<exists>p \<in> set [zero_Pod]. pod_DeletionTimestamp p \<noteq> None then gone = [] \<and> err = None
       else mset gone = mset [zero_Pod]
         \<and> gone = filter IsPodReady [zero_Pod] @ filter (\<lambda>p. \<not> IsPodReady p) [zero_Pod])"
  by (rule shut_down_pods)
    (simp_all add: sample_stopping_def sample_app_def sample_spec_def idle_world_def quiet_env_def)

text \<open>
  Shutting down an app without pods. An app that is to be uninstalled is deleted, and nothing else happens to
  it; any other app goes to the phase Rest. Both only once the list of its pods came back empty: when the list
  fails, the error is reported and the app stays as it is.
\<close>

theorem shut_down_no_pods:
  assumes "TargetPhase app = CliAppPhaseRest" and "Phase app = CliAppPhaseShuttingDown"
    and "h = w_calls w @ [CListPods (app_Namespace app) (app_Name app)]"
  shows "case e_listPods env h of
      Inl err \<Rightarrow> makeAppRest env r app w = (Done (zero_Result, Some err, app), w\<lparr>w_calls := h\<rparr>)
    | Inr items \<Rightarrow> items = [] \<longrightarrow>
        (if spec_UninstallUnlessLive (app_Spec app) then
           makeAppRest env r app w =
             (Done (zero_Result, e_deleteApp env (h @ [CDeleteApp app]), app), w\<lparr>w_calls := h @ [CDeleteApp app]\<rparr>)
         else
           \<exists>err app' t. makeAppRest env r app w = (Done (zero_Result, err, app'),
             w\<lparr>w_calls := h @ [CNow, CStatusUpdate (transited app CliAppPhaseRest t)]\<rparr>))"
  using assms
  by (auto simp: makeAppRest_def shut_down_def transitPhaseTo_def transited_def bnd_def ask_def ret_def Let_def
      split: sum.splits)

lemma shut_down_no_pods_witness:
  "\<exists>err app' t. makeAppRest (quiet_env sample_stopping []) sample_reconciler sample_stopping idle_world =
     (Done (zero_Result, err, app'),
      idle_world\<lparr>w_calls := [CListPods ''default'' ''box'', CNow,
        CStatusUpdate (transited sample_stopping CliAppPhaseRest t)]\<rparr>)"
proof -
  have "TargetPhase sample_stopping = CliAppPhaseRest" "Phase sample_stopping = CliAppPhaseShuttingDown"
    and id: "app_Namespace sample_stopping = ''default''" "app_Name sample_stopping = ''box''"
      "\<not> spec_UninstallUnlessLive (app_Spec sample_stopping)"
    by (simp_all add: sample_stopping_def sample_app_def sample_spec_def)
  from shut_down_no_pods [OF this(1,2) refl, where w = idle_world
      and env = "quiet_env sample_stopping []" and r = sample_reconciler]
  moreover have "e_listPods (quiet_env sample_stopping []) h = Inr []" for h by (simp add: quiet_env_def)
  ultimately show ?thesis by (simp add: id idle_world_def)
qed

text \<open>
  An app in the phase Building that shall be at rest has its build stopped: the build is taken out of the
  builder's map and its context cancelled, other apps' builds are left alone, and the app goes to ShuttingDown.
\<close>

theorem rest_stops_build:
  assumes "TargetPhase app = CliAppPhaseRest" and "Phase app = CliAppPhaseBuilding"
  shows "\<exists>res t w'. makeAppRest env r app w = (Done res, w')
    \<and> w_calls w' = w_calls w @ [CNow, CStatusUpdate (transited app CliAppPhaseShuttingDown t)]
    \<and> lookup_build (w_builder w') (app_Name app) = None
    \<and> (case lookup_build (w_builder w) (app_Name app) of
         None \<Rightarrow> w_builder w' = w_builder w
       | Some (a, c) \<Rightarrow> ib_store (w_builder w') = (ib_store (w_builder w))(a \<mapsto> c\<lparr>bc_Cancelled := True\<rparr>)
           \<and> ib_running (w_builder w') = ib_running (w_builder w))
    \<and> (\<forall>n. n \<noteq> app_Name app \<longrightarrow>
         (\<forall>m m'. ib_appMap (w_builder w) = Some m \<longrightarrow> ib_appMap (w_builder w') = Some m' \<longrightarrow> m' n = m n))"
proof -
  let ?b = "cancel (app_Name app) (w_builder w)"
  have gone: "lookup_build ?b (app_Name app) = None"
    by (auto simp: cancel_def lookup_build_def split: option.splits)
  have cancelled: "case lookup_build (w_builder w) (app_Name app) of
      None \<Rightarrow> ?b = w_builder w
    | Some (a, c) \<Rightarrow> ib_store ?b = (ib_store (w_builder w))(a \<mapsto> c\<lparr>bc_Cancelled := True\<rparr>)
        \<and> ib_running ?b = ib_running (w_builder w)"
    by (auto simp: cancel_def fallback_def split: option.splits)
  have others: "\<forall>n. n \<noteq> app_Name app \<longrightarrow>
      (\<forall>m m'. ib_appMap (w_builder w) = Some m \<longrightarrow> ib_appMap ?b = Some m' \<longrightarrow> m' n = m n)"
    by (auto simp: cancel_def split: option.splits)
  have "wp (makeAppRest env r app)
      (\<lambda>_ w'. w_builder w' = ?b \<and> (\<exists>t. w_calls w' = w_calls w @ [CNow, CStatusUpdate (transited app CliAppPhaseShuttingDown t)]))
      (\<lambda>_ _. False) w"
    using assms
    by (auto simp: makeAppRest_def wp_transitPhaseTo transit_ok_def Let_def split: sum.splits)
  from wp_no_panic [OF this] obtain res w' t where run: "makeAppRest env r app w = (Done res, w')"
    and b: "w_builder w' = ?b"
    and calls: "w_calls w' = w_calls w @ [CNow, CStatusUpdate (transited app CliAppPhaseShuttingDown t)]"
    by blast
  show ?thesis
    by (rule exI [of _ res], rule exI [of _ t], rule exI [of _ w'])
      (intro conjI run calls; (unfold b, rule gone cancelled others))
qed

definition building_world :: world where
  "building_world = idle_world\<lparr>w_builder :=
     \<lparr>ib_appMap = Some [''box'' \<mapsto> 0], ib_store = [0 \<mapsto> new_build ''box'' ''FROM busybox''], ib_next = 1,
      ib_running = [0 \<mapsto> Working]\<rparr>\<rparr>"

lemma rest_stops_build_witness:
  "\<exists>res t w'. makeAppRest (quiet_env sample_app []) sample_reconciler (set_Phase ''Building'' sample_app) building_world
       = (Done res, w') \<and> lookup_build (w_builder w') ''box'' = None"
  using rest_stops_build [of "set_Phase ''Building'' sample_app" "quiet_env sample_app []" sample_reconciler
      building_world]
  by (force simp: sample_app_def sample_spec_def)

end
