(* ===== verification/WorkloadProps.thy ===== *)
theory WorkloadProps
  imports RestProps
begin

text \<open>
  Properties of the pod that runs an app: the parsing of host paths and environment variables, the
  directories of \<open>PATH\<close>, the fork of a workload, and what \<open>applyAppConfig\<close> changes of a manifest.
\<close>

section \<open>Host paths\<close>

lemma parse_hostpath_Inr:
  "parse_hostpath p = Inr (hostpath, mountpoint) \<Longrightarrow> IsAbs hostpath \<and> IsAbs mountpoint"
  by (auto simp: parse_hostpath_def Let_def split: if_splits)

lemma parse_hostpaths_nth:
  assumes "parse_hostpaths k ps = Inr (vols, mounts)"
  shows "length vols = length ps \<and> length mounts = length ps \<and>
    (\<forall>i < length ps. \<exists>hostpath mountpoint. parse_hostpath (ps ! i) = Inr (hostpath, mountpoint)
       \<and> vols ! i = \<lparr>vol_Name = ''hostpath-'' @ show_nat (k + i), vol_Source = HostPathSource hostpath\<rparr>
       \<and> mounts ! i = \<lparr>vm_Name = ''hostpath-'' @ show_nat (k + i), vm_MountPath = mountpoint, vm_other = []\<rparr>)"
  using assms
proof (induction k ps arbitrary: vols mounts rule: parse_hostpaths.induct)
  case (2 k p ps)
  from "2.prems" obtain hp mp vs ms where
    p: "parse_hostpath p = Inr (hp, mp)" and rest: "parse_hostpaths (Suc k) ps = Inr (vs, ms)"
    and v: "vols = \<lparr>vol_Name = ''hostpath-'' @ show_nat k, vol_Source = HostPathSource hp\<rparr> # vs"
    and m: "mounts = \<lparr>vm_Name = ''hostpath-'' @ show_nat k, vm_MountPath = mp, vm_other = []\<rparr> # ms"
    by (auto simp: Let_def split: sum.splits prod.splits)
  have IH: "length vs = length ps \<and> length ms = length ps \<and>
    (\<forall>i < length ps. \<exists>hostpath mountpoint. parse_hostpath (ps ! i) = Inr (hostpath, mountpoint)
       \<and> vs ! i = \<lparr>vol_Name = ''hostpath-'' @ show_nat (Suc k + i), vol_Source = HostPathSource hostpath\<rparr>
       \<and> ms ! i = \<lparr>vm_Name = ''hostpath-'' @ show_nat (Suc k + i), vm_MountPath = mountpoint, vm_other = []\<rparr>)"
    by (rule "2.IH" [OF p refl refl rest])
  show ?case
  proof (intro conjI allI impI)
    show "length vols = length (p # ps)" "length mounts = length (p # ps)" using IH v m by simp_all
    fix i assume i: "i < length (p # ps)"
    show "\<exists>hostpath mountpoint. parse_hostpath ((p # ps) ! i) = Inr (hostpath, mountpoint)
       \<and> vols ! i = \<lparr>vol_Name = ''hostpath-'' @ show_nat (k + i), vol_Source = HostPathSource hostpath\<rparr>
       \<and> mounts ! i = \<lparr>vm_Name = ''hostpath-'' @ show_nat (k + i), vm_MountPath = mountpoint, vm_other = []\<rparr>"
    proof (cases i)
      case 0
      with p v m show ?thesis by simp
    next
      case (Suc j)
      with i have "j < length ps" by simp
      with IH have "\<exists>hostpath mountpoint. parse_hostpath (ps ! j) = Inr (hostpath, mountpoint)
        \<and> vs ! j = \<lparr>vol_Name = ''hostpath-'' @ show_nat (Suc k + j), vol_Source = HostPathSource hostpath\<rparr>
        \<and> ms ! j = \<lparr>vm_Name = ''hostpath-'' @ show_nat (Suc k + j), vm_MountPath = mountpoint, vm_other = []\<rparr>"
        by blast
      with Suc v m show ?thesis by simp
    qed
  qed
qed simp

lemma parse_hostpaths_names:
  assumes "parse_hostpaths k ps = Inr (vols, mounts)"
  shows "map vol_Name vols = map (\<lambda>i. ''hostpath-'' @ show_nat (k + i)) [0..<length ps]"
    and "map vm_Name mounts = map (\<lambda>i. ''hostpath-'' @ show_nat (k + i)) [0..<length ps]"
  using parse_hostpaths_nth [OF assms] by (auto intro!: nth_equalityI)

text \<open>
  Host paths are accepted if and only if every entry is; then there is one volume and one mount for each
  entry, in order, the volume of the entry's host path and the mount at its mount point, both absolute
  paths; volume and mount of an entry have the same name, and different entries have different names.
\<close>

theorem hostpaths_sound:
  "case parse_hostpaths 0 ps of
     Inl err \<Rightarrow> (\<exists>p \<in> set ps. parse_hostpath p = Inl err)
   | Inr (vols, mounts) \<Rightarrow>
       length vols = length ps \<and> map vm_Name mounts = map vol_Name vols \<and> distinct (map vol_Name vols)
     \<and> (\<forall>i < length ps. \<exists>hostpath mountpoint. parse_hostpath (ps ! i) = Inr (hostpath, mountpoint)
          \<and> IsAbs hostpath \<and> IsAbs mountpoint
          \<and> vol_Source (vols ! i) = HostPathSource hostpath \<and> vm_MountPath (mounts ! i) = mountpoint)"
proof (cases "parse_hostpaths 0 ps")
  case (Inl err)
  have "\<exists>p \<in> set ps. parse_hostpath p = Inl err" if "parse_hostpaths k ps = Inl err" for k
    using that
    by (induction k ps rule: parse_hostpaths.induct) (auto simp: Let_def split: sum.splits prod.splits)
  with Inl show ?thesis by simp
next
  case (Inr vm)
  obtain vols mounts where vm: "vm = (vols, mounts)" by (cases vm)
  with Inr have r: "parse_hostpaths 0 ps = Inr (vols, mounts)" by simp
  have "distinct (map vol_Name vols)"
    unfolding parse_hostpaths_names(1) [OF r] by (simp add: distinct_map inj_on_def)
  moreover have "\<exists>hostpath mountpoint. parse_hostpath (ps ! i) = Inr (hostpath, mountpoint)
      \<and> IsAbs hostpath \<and> IsAbs mountpoint
      \<and> vol_Source (vols ! i) = HostPathSource hostpath \<and> vm_MountPath (mounts ! i) = mountpoint"
    if "i < length ps" for i
  proof -
    from parse_hostpaths_nth [OF r] that obtain hp mp where "parse_hostpath (ps ! i) = Inr (hp, mp)"
      "vols ! i = \<lparr>vol_Name = ''hostpath-'' @ show_nat (0 + i), vol_Source = HostPathSource hp\<rparr>"
      "mounts ! i = \<lparr>vm_Name = ''hostpath-'' @ show_nat (0 + i), vm_MountPath = mp, vm_other = []\<rparr>" by blast
    with parse_hostpath_Inr [OF this(1)] show ?thesis by simp
  qed
  ultimately show ?thesis
    using parse_hostpaths_nth [OF r] parse_hostpaths_names [OF r] by (simp add: r)
qed

lemma hostpaths_sound_witness:
  "\<exists>vols mounts. parse_hostpaths 0 [''/tmp'', ''/var/log:/logs''] = Inr (vols, mounts)
     \<and> distinct (map vol_Name vols) \<and> length vols = 2"
proof (cases "parse_hostpaths 0 [''/tmp'', ''/var/log:/logs'']")
  case (Inl err)
  with hostpaths_sound [of "[''/tmp'', ''/var/log:/logs'']"]
  have "\<exists>p \<in> set [''/tmp'', ''/var/log:/logs'']. parse_hostpath p = Inl err" by simp
  moreover have "parse_hostpath ''/tmp'' = Inr (''/tmp'', ''/tmp'')"
    "parse_hostpath ''/var/log:/logs'' = Inr (''/var/log'', ''/logs'')"
    by (code_simp)+
  ultimately show ?thesis by simp
next
  case (Inr vm)
  with hostpaths_sound [of "[''/tmp'', ''/var/log:/logs'']"] show ?thesis
    by (cases vm) (simp add: numeral_2_eq_2)
qed

section \<open>Environment variables\<close>

lemma split_on_two:
  assumes "length (split_on c s) = 2"
  obtains k v where "s = k @ c # v" "c \<notin> set k" "c \<notin> set v" "split_on c s = [k, v]"
proof -
  obtain k v where kv: "split_on c s = [k, v]"
    using assms by (auto simp: numeral_2_eq_2 length_Suc_conv)
  have "c \<notin> set k" "c \<notin> set v" using split_on_no_sep [of _ c s] by (simp_all add: kv)
  moreover have "s = k @ c # v" using join_split [of c s] by (simp add: kv)
  ultimately show thesis using kv by (intro that) auto
qed

lemma split_on_pair: "c \<notin> set k \<Longrightarrow> c \<notin> set v \<Longrightarrow> split_on c (k @ c # v) = [k, v]"
  by (simp add: split_on_append split_on_plain)

text \<open>
  An entry of \<open>Env\<close> is accepted if and only if it has exactly one equals sign and what is left of it,
  trimmed, is not empty; the variable has the trimmed left side as its name and the trimmed right side as its value.
  In particular a value with an equals sign in it is refused.
\<close>

theorem parse_env_spec:
  "parse_env kv = Inr e \<longleftrightarrow>
     (\<exists>k v. kv = k @ CHR ''='' # v \<and> CHR ''='' \<notin> set k \<and> CHR ''='' \<notin> set v \<and> TrimSpace k \<noteq> []
        \<and> e = \<lparr>env_Name = TrimSpace k, env_Value = TrimSpace v, env_ValueFrom = None\<rparr>)"
proof
  assume "parse_env kv = Inr e"
  then have two: "length (split_on (CHR ''='') kv) = 2"
    and e: "e = mk_env (TrimSpace (split_on (CHR ''='') kv ! 0)) (TrimSpace (split_on (CHR ''='') kv ! 1))"
      "env_Name e \<noteq> []"
    by (auto simp: parse_env_def Let_def split: if_splits)
  from two obtain k v where kv: "kv = k @ CHR ''='' # v" "CHR ''='' \<notin> set k" "CHR ''='' \<notin> set v"
    and s: "split_on (CHR ''='') kv = [k, v]" by (rule split_on_two)
  have "TrimSpace k \<noteq> []" using e by (simp add: s mk_env_def)
  with kv e(1) show "\<exists>k v. kv = k @ CHR ''='' # v \<and> CHR ''='' \<notin> set k \<and> CHR ''='' \<notin> set v \<and> TrimSpace k \<noteq> []
        \<and> e = \<lparr>env_Name = TrimSpace k, env_Value = TrimSpace v, env_ValueFrom = None\<rparr>"
    by (intro exI [of _ k] exI [of _ v]) (simp add: s [unfolded kv(1)] mk_env_def)
next
  assume "\<exists>k v. kv = k @ CHR ''='' # v \<and> CHR ''='' \<notin> set k \<and> CHR ''='' \<notin> set v \<and> TrimSpace k \<noteq> []
        \<and> e = \<lparr>env_Name = TrimSpace k, env_Value = TrimSpace v, env_ValueFrom = None\<rparr>"
  then show "parse_env kv = Inr e"
    by (auto simp: parse_env_def Let_def split_on_pair mk_env_def)
qed

section \<open>Directories under the app root\<close>

lemma split_on_app_root: "split_on (CHR ''/'') (''/app-root/'' @ p) = [[], ''app-root''] @ split_on (CHR ''/'') p"
  by simp

lemma join_with_prefix: "join_with sep (x # xs) = x @ concat (map (\<lambda>s. sep @ s) xs)"
  by (induction xs arbitrary: x) auto

lemma PathJoin_rooted:
  assumes "''..'' \<notin> set (split_on (CHR ''/'') p)"
  shows "PathJoin [appRoot, p] = ''/app-root'' @
    concat (map (\<lambda>s. ''/'' @ s) (filter (\<lambda>s. s \<noteq> [] \<and> s \<noteq> ''.'') (split_on (CHR ''/'') p)))"
proof -
  let ?segs = "filter (\<lambda>s. s \<noteq> [] \<and> s \<noteq> ''.'') (split_on (CHR ''/'') p)"
  have "clean_segs True [] ([[], ''app-root''] @ split_on (CHR ''/'') p) = ''app-root'' # ?segs"
    using assms by (subst clean_segs_plain) auto
  then have "Clean (''/app-root/'' @ p) = ''/'' @ join_with ''/'' (''app-root'' # ?segs)"
    unfolding Clean_def split_on_app_root by (simp add: IsAbs_def HasPrefix_def Let_def)
  then show ?thesis by (simp add: join_with_prefix)
qed

text \<open>
  The directories that \<open>applyAppConfig\<close> puts into \<open>PATH\<close> for an image: after the default path, one for
  each directory of the image's \<open>PATH\<close>, in order, namely that directory under the app root with empty
  and \<open>.\<close> segments dropped. It stays under the app root, as long as the image's path does not use \<open>..\<close>.
\<close>

theorem path_envs_rooted:
  assumes "paths \<noteq> []" and "\<forall>p \<in> set (split_on (CHR '':'') paths). ''..'' \<notin> set (split_on (CHR ''/'') p)"
  shows "path_envs paths = [mk_env ''PATH'' (default_path @ join_with '':''
      (map (\<lambda>p. ''/app-root'' @ concat (map (\<lambda>s. ''/'' @ s)
         (filter (\<lambda>s. s \<noteq> [] \<and> s \<noteq> ''.'') (split_on (CHR ''/'') p)))) (split_on (CHR '':'') paths)))]"
proof -
  have "map (\<lambda>p. PathJoin [appRoot, p]) (split_on (CHR '':'') paths) =
      map (\<lambda>p. ''/app-root'' @ concat (map (\<lambda>s. ''/'' @ s)
         (filter (\<lambda>s. s \<noteq> [] \<and> s \<noteq> ''.'') (split_on (CHR ''/'') p)))) (split_on (CHR '':'') paths)"
    using assms(2) by (intro map_cong refl PathJoin_rooted) blast
  with assms(1) show ?thesis by (simp only: path_envs_def if_True simp_thms)
qed

lemma path_envs_rooted_witness:
  "path_envs ''/bin:/usr//bin/.'' = [mk_env ''PATH'' (default_path @ ''/app-root/bin:/app-root/usr/bin'')]"
  using path_envs_rooted [of "''/bin:/usr//bin/.''"] by simp

section \<open>applyAppConfig\<close>

lemma installShellContext_names:
  "map vol_Name (fst (installShellContext data rc hist ([], []))) =
     map vm_Name (snd (installShellContext data rc hist ([], [])))"
  "set (map vol_Name (fst (installShellContext data rc hist ([], [])))) \<subseteq> {''shell-rc'', ''shell-history''}"
  "distinct (map vol_Name (fst (installShellContext data rc hist ([], []))))"
  by (simp_all add: installShellContext_def shell_rc_volume_def shell_history_volume_def mount_def Let_def)

definition shell_parts :: "Volume list \<times> VolumeMount list \<Rightarrow> bool" where
  "shell_parts vm \<longleftrightarrow> map vol_Name (fst vm) = map vm_Name (snd vm) \<and> distinct (map vol_Name (fst vm))
     \<and> set (map vol_Name (fst vm)) \<subseteq> {''shell-rc'', ''shell-history''}"

lemma shell_parts_install [simp]: "shell_parts (installShellContext data rc hist ([], []))"
  unfolding shell_parts_def using installShellContext_names by blast

lemma shell_volumes_result: "calls_only (\<lambda>_. True) (shell_volumes sh cm) shell_parts"
  unfolding shell_volumes_def by (intro triple_intros) (simp_all add: shell_parts_def [of "([], [])"])

text \<open>What \<open>applyAppConfig\<close> returns: the manifest with its metadata and its target container configured.\<close>

definition configured ::
  "CliAppReconciler \<Rightarrow> CliApp \<Rightarrow> Pod \<Rightarrow> nat \<Rightarrow> EnvVar list \<Rightarrow> Volume list \<Rightarrow> VolumeMount list \<Rightarrow> Pod \<Rightarrow> bool" where
  "configured r app pod target envs vols mounts pod' \<longleftrightarrow>
     (\<exists>sh distro ctx suffix workdir paths hv hm sv sm.
        parse_hostpaths 0 (spec_HostPath (app_Spec app)) = Inr (hv, hm)
      \<and> parse_envs (spec_Env (app_Spec app)) = Inr envs
      \<and> choose_context r (app_Spec app) = (sh, distro, ctx)
      \<and> target < length (ps_Containers (pod_Spec pod))
      \<and> shell_parts (sv, sm)
      \<and> vols = hv @ [image_volume (c_Image (ps_Containers (pod_Spec pod) ! target))] @ sv
      \<and> mounts = hm @ [mount appImageVolume appRoot] @ sm
      \<and> pod' = (set_meta app suffix pod)\<lparr>pod_Spec := (pod_Spec pod)
          \<lparr>ps_Containers := (ps_Containers (pod_Spec pod))[target :=
              configured_container sh distro ctx workdir paths envs hm sm (ps_Containers (pod_Spec pod) ! target)],
           ps_Volumes := ps_Volumes (pod_Spec pod) @ vols\<rparr>\<rparr>)"

lemma configuredI:
  "parse_hostpaths 0 (spec_HostPath (app_Spec app)) = Inr (hv, hm) \<Longrightarrow>
   parse_envs (spec_Env (app_Spec app)) = Inr envs \<Longrightarrow>
   choose_context r (app_Spec app) = (sh, distro, ctx) \<Longrightarrow>
   target < length (ps_Containers (pod_Spec pod)) \<Longrightarrow> shell_parts (sv, sm) \<Longrightarrow>
   configured r app pod target envs
     (hv @ image_volume (c_Image (ps_Containers (pod_Spec pod) ! target)) # sv)
     (hm @ mount appImageVolume appRoot # sm)
     ((set_meta app suffix pod)\<lparr>pod_Spec := (pod_Spec pod)
        \<lparr>ps_Containers := (ps_Containers (pod_Spec pod))[target :=
            configured_container sh distro ctx workdir paths envs hm sm (ps_Containers (pod_Spec pod) ! target)],
         ps_Volumes := ps_Volumes (pod_Spec pod) @
            hv @ image_volume (c_Image (ps_Containers (pod_Spec pod) ! target)) # sv\<rparr>\<rparr>)"
  unfolding configured_def by (intro exI conjI) auto

lemma fetchImageConfiguration_result: "calls_only (\<lambda>_. True) (fetchImageConfiguration env img) (\<lambda>_. True)"
  unfolding fetchImageConfiguration_def by (intro triple_intros TrueI)

lemma applyAppConfig_result:
  "calls_only (\<lambda>_. True) (applyAppConfig env r pod target app cm)
     (\<lambda>res. \<forall>pod'. res = Inr pod' \<longrightarrow> (\<exists>envs vols mounts. configured r app pod target envs vols mounts pod'))"
  unfolding applyAppConfig_def
proof (intro triple_intros emitting.triple_bnd [OF fetchImageConfiguration_result]
    emitting.triple_bnd [OF shell_volumes_result], goal_cases)
  case (5 hvm hv hm envs sh dc distro ctx h conf wp workdir paths svm sv sm)
  then show ?case by (auto intro!: exI configuredI)
qed auto

lemma applyAppConfig_configured:
  assumes "applyAppConfig env r pod target app cm w = (Done (Inr pod'), w')"
  obtains envs vols mounts where "configured r app pod target envs vols mounts pod'"
  using tripleD(2) [OF applyAppConfig_result assms refl] by blast

lemma add_sys_admin_simps [simp]:
  "c_Name (add_sys_admin c) = c_Name c" "c_Image (add_sys_admin c) = c_Image c"
  "c_Env (add_sys_admin c) = c_Env c" "c_WorkingDir (add_sys_admin c) = c_WorkingDir c"
  "c_Stdin (add_sys_admin c) = c_Stdin c" "c_VolumeMounts (add_sys_admin c) = c_VolumeMounts c"
  "c_StartupProbe (add_sys_admin c) = c_StartupProbe c"
  "c_LivenessProbe (add_sys_admin c) = c_LivenessProbe c"
  "c_ReadinessProbe (add_sys_admin c) = c_ReadinessProbe c" "c_other (add_sys_admin c) = c_other c"
  by (simp_all add: add_sys_admin_def split: option.splits)

definition added_caps :: "Container \<Rightarrow> string list" where
  "added_caps c = (case c_SecurityContext c of
     None \<Rightarrow> []
   | Some sc \<Rightarrow> (case sc_Capabilities sc of None \<Rightarrow> [] | Some caps \<Rightarrow> cap_Add caps))"

lemma added_caps_sys_admin [simp]: "added_caps (add_sys_admin c) = added_caps c @ [''SYS_ADMIN'']"
  by (auto simp: add_sys_admin_def added_caps_def split: option.splits)

lemma added_caps_configured [simp]:
  "added_caps (configured_container sh distro ctx workdir paths envs hm sm c) = added_caps c @ [''SYS_ADMIN'']"
  by (simp add: configured_container_def) (simp add: added_caps_def)

text \<open>
  C20. What \<open>applyAppConfig\<close> leaves alone: the manifest's other containers and their number, its volumes, which stay
  in front of the added ones, its other labels, its annotations and everything of the pod spec that the program does
  not know of. The pod becomes one of the app: its namespace, its name, its owner and its label.
\<close>

theorem applyAppConfig_frame:
  assumes "applyAppConfig env r pod target app cm w = (Done (Inr pod'), w')"
  shows "let cs = ps_Containers (pod_Spec pod); cs' = ps_Containers (pod_Spec pod') in
      target < length cs \<and> length cs' = length cs \<and> (\<forall>i < length cs. i \<noteq> target \<longrightarrow> cs' ! i = cs ! i)
    \<and> take (length (ps_Volumes (pod_Spec pod))) (ps_Volumes (pod_Spec pod')) = ps_Volumes (pod_Spec pod)
    \<and> ps_other (pod_Spec pod') = ps_other (pod_Spec pod)
    \<and> (\<forall>k. k \<noteq> appLabel \<longrightarrow> map_get (pod_Labels pod') k = map_get (pod_Labels pod) k)
    \<and> pod_Annotations pod' = pod_Annotations pod
    \<and> belongs_to app pod'"
proof -
  obtain envs vols mounts where "configured r app pod target envs vols mounts pod'"
    using assms by (rule applyAppConfig_configured)
  then show ?thesis
    by (auto simp: configured_def Let_def) (auto simp: set_meta_def split: option.splits)
qed

text \<open>What a run that returns a pod has got from the image's configuration.\<close>

lemma applyAppConfig_target:
  assumes "applyAppConfig env r pod target app cm w = (Done (Inr pod'), w')"
  obtains sh distro ctx envs workdir paths hm sm w1 where "choose_context r (app_Spec app) = (sh, distro, ctx)"
    and "parse_envs (spec_Env (app_Spec app)) = Inr envs"
    and "fetchImageConfiguration env (c_Image (ps_Containers (pod_Spec pod) ! target))
           (w\<lparr>w_calls := w_calls w @ [CRandString 5]\<rparr>) = (Done (Inr (workdir, paths)), w1)"
    and "ps_Containers (pod_Spec pod') ! target =
           configured_container sh distro ctx workdir paths envs hm sm (ps_Containers (pod_Spec pod) ! target)"
proof -
  let ?img = "c_Image (ps_Containers (pod_Spec pod) ! target)"
  let ?w = "w\<lparr>w_calls := w_calls w @ [CRandString 5]\<rparr>"
  obtain hv hm where paths: "parse_hostpaths 0 (spec_HostPath (app_Spec app)) = Inr (hv, hm)"
    using assms by (auto simp: applyAppConfig_def ret_def split: sum.splits)
  obtain envs where envs: "parse_envs (spec_Env (app_Spec app)) = Inr envs"
    using assms by (auto simp: applyAppConfig_def paths ret_def split: sum.splits)
  obtain sh distro ctx where chosen: "choose_context r (app_Spec app) = (sh, distro, ctx)" by (metis prod_cases3)
  have target: "target < length (ps_Containers (pod_Spec pod))"
    using assms by (auto simp: applyAppConfig_def paths envs chosen bnd_def ask_def throw_def Let_def not_le [symmetric] split: if_splits)
  obtain out w1 where run: "fetchImageConfiguration env ?img ?w = (out, w1)" by force
  obtain workdir path where conf: "out = Done (Inr (workdir, path))"
    using assms target
    by (auto simp: applyAppConfig_def paths envs chosen bnd_def ask_def ret_def run Let_def split: outcome.splits sum.splits)
  obtain out2 w2 where shell: "shell_volumes sh cm w1 = (out2, w2)" by force
  obtain sv sm where vols: "out2 = Done (sv, sm)"
    using assms target
    by (auto simp: applyAppConfig_def paths envs chosen bnd_def ask_def ret_def run conf shell Let_def split: outcome.splits)
  have "ps_Containers (pod_Spec pod') ! target =
      configured_container sh distro ctx workdir path envs hm sm (ps_Containers (pod_Spec pod) ! target)"
    using assms target
    by (auto simp: applyAppConfig_def paths envs chosen bnd_def ask_def ret_def run conf shell vols Let_def)
  from that [OF chosen envs run [unfolded conf] this] show thesis .
qed

text \<open>
  C21. The workspace. The target container runs the context image under the name \<open>workspace\<close>, with standard input; its
  environment is what it was, then the app's root, distro and shell, the \<open>PATH\<close> of its own image, with each directory under the app's root, if there is one,
  and at last the app's own variables, so that these win; it keeps its working directory when it has one, and gets that of its own image, under the
  app's root, when it has none and the image has; it keeps its probes and its capabilities, to which \<open>SYS_ADMIN\<close> is added. The directory and the
  \<open>PATH\<close> of the image are those that \<open>fetchImageConfiguration\<close> answers in this run for the image that the container had.
\<close>

theorem applyAppConfig_workspace:
  assumes "applyAppConfig env r pod target app cm w = (Done (Inr pod'), w')"
  shows "let c = ps_Containers (pod_Spec pod) ! target; c' = ps_Containers (pod_Spec pod') ! target;
             (sh, distro, ctx) = choose_context r (app_Spec app) in
      c_Name c' = ''workspace'' \<and> c_Image c' = ctx \<and> c_Stdin c'
    \<and> (\<exists>workdir paths envs. parse_envs (spec_Env (app_Spec app)) = Inr envs
         \<and> fst (fetchImageConfiguration env (c_Image c) (w\<lparr>w_calls := w_calls w @ [CRandString 5]\<rparr>)) = Done (Inr (workdir, paths))
         \<and> c_Env c' = c_Env c @ [mk_env ''APP_ROOT'' ''/app-root'', mk_env ''DISTRO'' distro, mk_env ''SHELL'' sh]
             @ (if paths = [] then []
                else [mk_env ''PATH'' (''/usr/local/sbin:/usr/local/bin:/usr/sbin:/usr/bin:/sbin:/bin:'' @
                   join_with '':'' (map (\<lambda>p. PathJoin [''/app-root'', p]) (split_on (CHR '':'') paths)))])
             @ envs
         \<and> c_WorkingDir c' = (if c_WorkingDir c \<noteq> [] then c_WorkingDir c
             else if workdir \<noteq> [] then PathJoin [''/app-root'', workdir] else []))
    \<and> added_caps c' = added_caps c @ [''SYS_ADMIN'']
    \<and> c_LivenessProbe c' = c_LivenessProbe c \<and> c_ReadinessProbe c' = c_ReadinessProbe c
    \<and> c_StartupProbe c' = c_StartupProbe c \<and> c_other c' = c_other c"
proof -
  obtain sh distro ctx envs workdir paths hm sm w1 where chosen: "choose_context r (app_Spec app) = (sh, distro, ctx)"
    and envs: "parse_envs (spec_Env (app_Spec app)) = Inr envs"
    and image: "fetchImageConfiguration env (c_Image (ps_Containers (pod_Spec pod) ! target))
           (w\<lparr>w_calls := w_calls w @ [CRandString 5]\<rparr>) = (Done (Inr (workdir, paths)), w1)"
    and c: "ps_Containers (pod_Spec pod') ! target =
           configured_container sh distro ctx workdir paths envs hm sm (ps_Containers (pod_Spec pod) ! target)"
    using assms by (rule applyAppConfig_target)
  show ?thesis
    unfolding Let_def chosen prod.case c image fst_conv
    by (intro conjI exI [of _ workdir] exI [of _ paths] exI [of _ envs])
      (simp_all add: envs, simp_all add: configured_container_def path_envs_def default_path_def)
qed

text \<open>
  C22. Volumes and mounts fit. \<open>applyAppConfig\<close> adds as many mounts to the target container as it adds volumes to the pod;
  each mount is of the volume in its place, no two of the added volumes have the same name, and among them is the volume of the
  container's original image, mounted at the app root.
\<close>

theorem applyAppConfig_mounts:
  assumes "applyAppConfig env r pod target app cm w = (Done (Inr pod'), w')"
  shows "\<exists>vols mounts.
      ps_Volumes (pod_Spec pod') = ps_Volumes (pod_Spec pod) @ vols
    \<and> c_VolumeMounts (ps_Containers (pod_Spec pod') ! target)
        = c_VolumeMounts (ps_Containers (pod_Spec pod) ! target) @ mounts
    \<and> map vm_Name mounts = map vol_Name vols \<and> distinct (map vol_Name vols)
    \<and> \<lparr>vol_Name = ''app'', vol_Source = CSISource csiImageDriverName
          [''image'' \<mapsto> c_Image (ps_Containers (pod_Spec pod) ! target)]\<rparr> \<in> set vols
    \<and> \<lparr>vm_Name = ''app'', vm_MountPath = ''/app-root'', vm_other = []\<rparr> \<in> set mounts"
proof -
  obtain envs vols mounts where conf: "configured r app pod target envs vols mounts pod'"
    using assms by (rule applyAppConfig_configured)
  then obtain hv hm sv sm where host: "parse_hostpaths 0 (spec_HostPath (app_Spec app)) = Inr (hv, hm)"
    and shell: "shell_parts (sv, sm)"
    and vols: "vols = hv @ [image_volume (c_Image (ps_Containers (pod_Spec pod) ! target))] @ sv"
    and mounts: "mounts = hm @ [mount appImageVolume appRoot] @ sm"
    unfolding configured_def by blast
  let ?image = "image_volume (c_Image (ps_Containers (pod_Spec pod) ! target))"
  have "map vm_Name mounts = map vol_Name vols"
    using shell parse_hostpaths_names [OF host]
    by (simp add: vols mounts shell_parts_def image_volume_def mount_def)
  moreover have "distinct (map vol_Name vols)"
  proof -
    have hostnames: "distinct (map vol_Name hv)" "set (map vol_Name hv) \<subseteq> range (\<lambda>i. ''hostpath-'' @ show_nat i)"
      unfolding parse_hostpaths_names(1) [OF host] by (auto simp: distinct_map inj_on_def)
    have fresh: "distinct (a @ [''app''] @ b)"
      if "distinct a" "distinct b" "set a \<subseteq> range (\<lambda>i. ''hostpath-'' @ show_nat i)"
        "set b \<subseteq> {''shell-rc'', ''shell-history''}" for a b :: "string list"
      using that by (fastforce simp: disjoint_iff)
    have names: "map vol_Name vols = map vol_Name hv @ [''app''] @ map vol_Name sv"
      by (simp add: vols image_volume_def)
    show ?thesis
      unfolding names using shell unfolding shell_parts_def fst_conv
      by (intro fresh hostnames) blast+
  qed
  moreover have "ps_Volumes (pod_Spec pod') = ps_Volumes (pod_Spec pod) @ vols
      \<and> c_VolumeMounts (ps_Containers (pod_Spec pod') ! target)
          = c_VolumeMounts (ps_Containers (pod_Spec pod) ! target) @ mounts"
    using conf by (auto simp: configured_def) (auto simp: configured_container_def)
  moreover have "\<lparr>vol_Name = ''app'', vol_Source = CSISource csiImageDriverName
      [''image'' \<mapsto> c_Image (ps_Containers (pod_Spec pod) ! target)]\<rparr> \<in> set vols"
    "\<lparr>vm_Name = ''app'', vm_MountPath = ''/app-root'', vm_other = []\<rparr> \<in> set mounts"
    by (simp_all add: vols mounts image_volume_def mount_def)
  ultimately show ?thesis by blast
qed

definition sample_config_pod :: Pod where
  "sample_config_pod = zero_Pod\<lparr>pod_Spec := zero_PodSpec\<lparr>ps_Containers := [zero_Container\<lparr>c_Image := ''busybox''\<rparr>]\<rparr>\<rparr>"

lemma sample_applied:
  obtains pod' w' where
    "applyAppConfig (quiet_env sample_app []) sample_reconciler sample_config_pod 0 sample_app None idle_world =
       (Done (Inr pod'), w')"
  by (simp add: applyAppConfig_def sample_config_pod_def sample_app_def sample_spec_def bnd_def ask_def ret_def
      choose_context_def sample_reconciler_def set_meta_def zero_Pod_def fetchImageConfiguration_def
      quiet_env_def shell_volumes_def map_is_empty_def Let_def)

lemma applyAppConfig_frame_witness:
  "\<exists>pod' w'. applyAppConfig (quiet_env sample_app []) sample_reconciler sample_config_pod 0 sample_app None idle_world =
       (Done (Inr pod'), w') \<and> belongs_to sample_app pod' \<and> length (ps_Containers (pod_Spec pod')) = 1"
proof (rule sample_applied)
  fix pod' w'
  assume run: "applyAppConfig (quiet_env sample_app []) sample_reconciler sample_config_pod 0 sample_app None idle_world =
       (Done (Inr pod'), w')"
  from applyAppConfig_frame [OF run]
  have "belongs_to sample_app pod' \<and> length (ps_Containers (pod_Spec pod')) = 1"
    by (simp add: Let_def) (simp add: sample_config_pod_def)
  with run show ?thesis by blast
qed

lemma applyAppConfig_workspace_witness:
  "\<exists>pod' w'. applyAppConfig (quiet_env sample_app []) sample_reconciler sample_config_pod 0 sample_app None idle_world =
       (Done (Inr pod'), w')
     \<and> c_Image (ps_Containers (pod_Spec pod') ! 0) = ''docker.io/warmmetal/app-context-bash-alpine:latest''
     \<and> added_caps (ps_Containers (pod_Spec pod') ! 0) = [''SYS_ADMIN'']"
proof (rule sample_applied)
  fix pod' w'
  assume run: "applyAppConfig (quiet_env sample_app []) sample_reconciler sample_config_pod 0 sample_app None idle_world =
       (Done (Inr pod'), w')"
  have "choose_context sample_reconciler (app_Spec sample_app) =
      (''bash'', ''alpine'', ''docker.io/warmmetal/app-context-bash-alpine:latest'')"
    by (simp add: choose_context_def sample_reconciler_def sample_app_def sample_spec_def ToLower_def lower_char_def)
  with applyAppConfig_workspace [OF run]
  have "c_Image (ps_Containers (pod_Spec pod') ! 0) = ''docker.io/warmmetal/app-context-bash-alpine:latest''
     \<and> added_caps (ps_Containers (pod_Spec pod') ! 0) = [''SYS_ADMIN'']"
    by (simp only: Let_def prod.case) (simp add: sample_config_pod_def added_caps_def zero_Container_def)
  with run show ?thesis by blast
qed

lemma applyAppConfig_mounts_witness:
  "\<exists>pod' w'. applyAppConfig (quiet_env sample_app []) sample_reconciler sample_config_pod 0 sample_app None idle_world =
       (Done (Inr pod'), w')
     \<and> image_volume ''busybox'' \<in> set (ps_Volumes (pod_Spec pod'))"
proof (rule sample_applied)
  fix pod' w'
  assume run: "applyAppConfig (quiet_env sample_app []) sample_reconciler sample_config_pod 0 sample_app None idle_world =
       (Done (Inr pod'), w')"
  from applyAppConfig_mounts [OF run] have "image_volume ''busybox'' \<in> set (ps_Volumes (pod_Spec pod'))"
    by (auto simp: image_volume_def sample_config_pod_def)
  with run show ?thesis by blast
qed

end
