(* ===== verification/ForkProps.thy ===== *)
theory ForkProps
  imports WorkloadProps
begin

text \<open>
  Properties of the manifest that an app starts from: the fork of a workload, and the calls of
  \<open>startApp\<close>.
\<close>

section \<open>Forking a workload\<close>

lemma fetch_workload_Inr:
  assumes "fetch_workload env info fork w = (Done (Inr (pod, t)), w')"
  obtains api tmpl lbls where "workload_dispatch (info_GK info) = Fetch api"
    and "w' = w\<lparr>w_calls := w_calls w @ [CGetWorkload api (info_Namespace info) (info_Name info)]\<rparr>"
    and "e_getWorkload env (w_calls w') = Inr (tmpl, lbls)"
    and "pod = fork_pod fork tmpl lbls" and "select_target fork pod = Inr t"
  using assms
  by (auto simp: fetch_workload_def bnd_def ask_def ret_def throw_def Let_def
      split: dispatch.splits sum.splits prod.splits)

lemma fetchForkTargetPod_Inr:
  assumes "fetchForkTargetPod env r ns fork w = (Done (Inr (pod, t)), w')"
  obtains info where "e_resolve env (w_calls w @ [CResolve ns (fork_Object fork)]) = Infos [info]"
    and "fetch_workload env info fork (w\<lparr>w_calls := w_calls w @ [CResolve ns (fork_Object fork), CNewClientset]\<rparr>)
           = (Done (Inr (pod, t)), w')"
proof -
  from assms obtain infos where infos: "e_resolve env (w_calls w @ [CResolve ns (fork_Object fork)]) = Infos infos"
    and one: "infos \<noteq> []" "\<not> Suc 0 < length infos"
    and run: "fetch_workload env (hd infos) fork
        (w\<lparr>w_calls := w_calls w @ [CResolve ns (fork_Object fork), CNewClientset]\<rparr>) = (Done (Inr (pod, t)), w')"
    by (auto simp: fetchForkTargetPod_def bnd_def ask_def ret_def throw_def Let_def
        split: resolved.splits sum.splits option.splits if_splits prod.splits)
  from one obtain info where "infos = [info]" by (cases infos) auto
  with infos run that show thesis by simp
qed

text \<open>
  C23. A fork comes from exactly one object, of a kind and group that the program supports, which is
  fetched once. The manifest is its template without the probes of the containers, with the environments that they have. Without a container name the template has
  at most one container, which is the target; with a name of more than one character the target is the first container of that name. (What the options of a
  fork do against their documentation is the next claim.)
\<close>

theorem fork_manifest:
  assumes "fetchForkTargetPod env r ns fork w = (Done (Inr (pod, t)), w')"
  shows "\<exists>info api tmpl lbls.
      e_resolve env (w_calls w @ [CResolve ns (fork_Object fork)]) = Infos [info]
    \<and> workload_dispatch (info_GK info) = Fetch api
    \<and> w_calls w' = w_calls w @ [CResolve ns (fork_Object fork), CNewClientset,
        CGetWorkload api (info_Namespace info) (info_Name info)]
    \<and> e_getWorkload env (w_calls w') = Inr (tmpl, lbls)
    \<and> pod_Spec pod = tmpl\<lparr>ps_Containers := map (\<lambda>c. c\<lparr>c_StartupProbe := None, c_LivenessProbe := None,
        c_ReadinessProbe := None\<rparr>) (ps_Containers tmpl)\<rparr>
    \<and> (length (fork_Container fork) > 1 \<longrightarrow>
          t < length (ps_Containers tmpl) \<and> c_Name (ps_Containers tmpl ! t) = fork_Container fork
        \<and> (\<forall>k < t. c_Name (ps_Containers tmpl ! k) \<noteq> fork_Container fork))
    \<and> (fork_Container fork = [] \<longrightarrow> length (ps_Containers tmpl) \<le> 1 \<and> t = 0)"
proof -
  let ?w = "w\<lparr>w_calls := w_calls w @ [CResolve ns (fork_Object fork), CNewClientset]\<rparr>"
  obtain info where info: "e_resolve env (w_calls w @ [CResolve ns (fork_Object fork)]) = Infos [info]"
    and fetch: "fetch_workload env info fork ?w = (Done (Inr (pod, t)), w')"
    using assms by (rule fetchForkTargetPod_Inr)
  from fetch obtain api tmpl lbls where api: "workload_dispatch (info_GK info) = Fetch api"
    and w': "w' = ?w\<lparr>w_calls := w_calls ?w @ [CGetWorkload api (info_Namespace info) (info_Name info)]\<rparr>"
    and tmpl: "e_getWorkload env (w_calls w') = Inr (tmpl, lbls)"
    and pod: "pod = fork_pod fork tmpl lbls" and sel: "select_target fork pod = Inr t"
    by (rule fetch_workload_Inr)
  have spec: "pod_Spec pod = tmpl\<lparr>ps_Containers := map (\<lambda>c. c\<lparr>c_StartupProbe := None, c_LivenessProbe := None,
        c_ReadinessProbe := None\<rparr>) (ps_Containers tmpl)\<rparr>"
    unfolding pod fork_pod_simps by (simp add: strip_probes_def)
  let ?cs = "ps_Containers tmpl"
  have cs: "ps_Containers (pod_Spec pod) = map strip_probes ?cs" by (simp add: pod)
  have "if length (fork_Container fork) > 1
      then t < length ?cs \<and> c_Name (?cs ! t) = fork_Container fork
         \<and> (\<forall>k < t. c_Name (?cs ! k) \<noteq> fork_Container fork)
      else length ?cs \<le> 1 \<and> t = 0"
  proof (cases "length (fork_Container fork) > 1")
    case True
    with sel have "container_index 0 (map strip_probes ?cs) (fork_Container fork) = Some t"
      by (simp add: select_target_def cs Let_def split: option.splits)
    from container_index_Some [OF this] True show ?thesis by auto
  next
    case False
    with sel show ?thesis by (auto simp: select_target_def cs Let_def split: if_splits)
  qed
  with info api w' tmpl spec show ?thesis by (auto simp: pod split: if_splits)
qed

definition sample_template :: PodSpec where
  "sample_template = zero_PodSpec\<lparr>ps_Containers :=
     [zero_Container\<lparr>c_Name := ''web'', c_LivenessProbe := Some ''http''\<rparr>, zero_Container\<lparr>c_Name := ''db''\<rparr>]\<rparr>"

definition fork_env :: env where
  "fork_env = (quiet_env sample_app [])
     \<lparr>e_resolve := \<lambda>h. Infos [\<lparr>info_GK = GroupKind ''apps'' ''Deployment'', info_GVKText = ''apps/v1, Kind=Deployment'',
        info_Namespace = ''default'', info_Name = ''shop''\<rparr>],
      e_getWorkload := \<lambda>h. Inr (sample_template, Some [''app'' \<mapsto> ''shop''])\<rparr>"

definition sample_fork :: ForkObject where
  "sample_fork = \<lparr>fork_Object = ''deploy/shop'', fork_Container = ''db'', fork_WithEnvs = True\<rparr>"

lemma fork_manifest_witness:
  "\<exists>pod t w'. fetchForkTargetPod fork_env sample_reconciler ''default'' sample_fork idle_world = (Done (Inr (pod, t)), w')
     \<and> c_Name (ps_Containers sample_template ! t) = ''db''"
proof -
  obtain pod t w' where run:
      "fetchForkTargetPod fork_env sample_reconciler ''default'' sample_fork idle_world = (Done (Inr (pod, t)), w')"
    by (simp add: fetchForkTargetPod_def fork_env_def sample_fork_def sample_reconciler_def fetch_workload_def
        workload_dispatch_def select_target_def sample_template_def zero_Container_def quiet_env_def
        bnd_def ask_def ret_def Let_def)
  moreover have "e_getWorkload fork_env h = Inr (sample_template, Some [''app'' \<mapsto> ''shop''])" for h
    by (simp add: fork_env_def)
  moreover have "length (fork_Container sample_fork) > 1" "fork_Container sample_fork = ''db''"
    by (simp_all add: sample_fork_def)
  ultimately have "c_Name (ps_Containers sample_template ! t) = ''db''"
    using fork_manifest [OF run] by auto
  with run show ?thesis by blast
qed

section \<open>What the options of a fork do\<close>



definition without_labels :: "(goerror + Pod \<times> nat) outcome \<times> world \<Rightarrow> (goerror + Pod \<times> nat) outcome \<times> world" where
  "without_labels r =
     (case r of (Done (Inr (pod, t)), w') \<Rightarrow> (Done (Inr (pod\<lparr>pod_Labels := None\<rparr>, t)), w') | _ \<Rightarrow> r)"

lemma without_labels_simps [simp]:
  "without_labels (Done (Inl err), w) = (Done (Inl err), w)" "without_labels (Panic p, w) = (Panic p, w)"
  "without_labels (Done (Inr (pod, t)), w) = (Done (Inr (pod\<lparr>pod_Labels := None\<rparr>, t)), w)"
  by (simp_all add: without_labels_def)




section \<open>startApp\<close>

fun creates :: "call \<Rightarrow> bool" where
  "creates (CCreatePod p) = True"
| "creates c = False"

lemma wp_of_calls:
  assumes "calls_only P m R"
    and "\<And>x t new. w_calls t = w_calls w @ new \<Longrightarrow> list_all P new \<Longrightarrow> R x \<Longrightarrow> Q x t"
    and "\<And>p t new. w_calls t = w_calls w @ new \<Longrightarrow> list_all P new \<Longrightarrow> E p t"
  shows "wp m Q E w"
  using assms(1) unfolding triple_def by (auto elim!: wp_mono [OF allE] simp: emits_def assms(2,3))

text \<open>What \<open>startApp\<close> calls, when it returns and when it panics.\<close>

definition started :: "env \<Rightarrow> CliApp \<Rightarrow> string \<Rightarrow> string \<Rightarrow> world \<Rightarrow> goerror + Pod \<Rightarrow> world \<Rightarrow> bool" where
  "started env app d h w res w' \<longleftrightarrow>
     (\<exists>pre. list_all (\<lambda>c. \<not> creates c) pre \<and>
       ((w_calls w' = w_calls w @ pre \<and> (\<forall>p. res \<noteq> Inr p))
      \<or> (\<exists>pod. w_calls w' = w_calls w @ pre @ [CCreatePod pod] \<and> res = e_createPod env (w_calls w')
           \<and> belongs_to app pod
           \<and> annotation pod annoKeySpecDump = d \<and> annotation pod annoKeySpecHash = h)))"

lemma wp_startApp:
  "wp (startApp env r app d h) (started env app d h w)
     (\<lambda>p w'. \<exists>pre. list_all (\<lambda>c. \<not> creates c) pre \<and> w_calls w' = w_calls w @ pre) w"
proof -
  let ?P = "\<lambda>c. \<not> creates c"
  show ?thesis
    unfolding startApp_def wp_bnd
  proof (rule wp_of_calls [OF calls_generate_manifest [of ?P]], goal_cases)
    case (4 manifest t new)
    then show ?case
    proof (cases manifest)
      case (Inr pt)
      obtain pod target where pt: "pt = (pod, target)" by (cases pt)
      have app: "calls_only ?P (applyAppConfig env r pod target app cm)
          (\<lambda>res. \<forall>p. res = Inr p \<longrightarrow> belongs_to app p)" for cm
        by (rule calls_applyAppConfig) simp_all
      show ?thesis
        unfolding Inr pt sum.case prod.case wp_bnd wp_ask Let_def
      proof (rule wp_of_calls [OF app], goal_cases)
        case (1 x u new')
        with 4 show ?case
          by (cases x)
            (auto simp: started_def intro!: exI [of _ "new @ CGetConfigMap ''cliapp-system'' ''cliapp-shell-context'' # new'"])
      next
        case (2 p u new')
        with 4 show ?case
          by (intro exI [of _ "new @ CGetConfigMap ''cliapp-system'' ''cliapp-shell-context'' # new'"]) simp
      qed
    qed (auto simp: started_def)
  qed auto
qed

text \<open>
  Starting an app creates at most one pod, and after it is asked for nothing else is done: either the
  creation of a pod of the app, which carries the given dump and hash, is the last call and its answer is the
  result, or no pod is created, and then no pod is returned.
\<close>

theorem startApp_creates_once:
  "case startApp env r app d h w of (out, w') \<Rightarrow>
     \<exists>pre. list_all (\<lambda>c. \<not> creates c) pre \<and>
       ((w_calls w' = w_calls w @ pre \<and> (\<forall>p. out \<noteq> Done (Inr p)))
      \<or> (\<exists>pod. w_calls w' = w_calls w @ pre @ [CCreatePod pod] \<and> out = Done (e_createPod env (w_calls w'))
           \<and> belongs_to app pod
           \<and> annotation pod annoKeySpecDump = d \<and> annotation pod annoKeySpecHash = h))"
  using wp_startApp [of env r app d h w]
  by (auto simp: wp_def started_def split: prod.splits outcome.splits)

end
