(* ===== verification/OnePod.thy ===== *)
theory OnePod
  imports ForkProps Converge
begin

text \<open>
  How many pods an app has. The cluster's pods of the app are a function of the calls made so far; they are made by the
  controller only, and anyone may take them away. The controller makes a pod only when a list without a current pod was the answer
  just before, so that however often it runs, and whatever fails, an app never has two current pods.
\<close>

text \<open>The pods of the cluster that were made for the dump \<open>d\<close> and are not terminating.\<close>

definition current_pods :: "(call list \<Rightarrow> Pod list) \<Rightarrow> string \<Rightarrow> call list \<Rightarrow> Pod list" where
  "current_pods pods_at d h =
     filter (\<lambda>p. pod_DeletionTimestamp p = None \<and> annotation p annoKeySpecDump = d) (pods_at h)"

text \<open>
  A cluster that lists the pods it has. A call that does not create a pod makes none for any dump, a creation makes at most
  the one that was asked for.
\<close>

definition makes :: "string \<Rightarrow> call \<Rightarrow> nat" where
  "makes d c = (case c of CCreatePod p \<Rightarrow> if annotation p annoKeySpecDump = d then 1 else 0 | _ \<Rightarrow> 0)"

definition pods_follow :: "env \<Rightarrow> (call list \<Rightarrow> Pod list) \<Rightarrow> bool" where
  "pods_follow env pods_at \<longleftrightarrow>
     (\<forall>h items. e_clientListPods env h = Inr items \<longrightarrow> items = pods_at h)
   \<and> (\<forall>h c d. length (current_pods pods_at d (h @ [c])) \<le> length (current_pods pods_at d h) + makes d c)"

lemma makes_other [simp]: "\<not> creates c \<Longrightarrow> makes d c = 0"
  by (cases c) (simp_all add: makes_def)

lemma pods_follow_calls:
  assumes "pods_follow env pods_at"
  shows "length (current_pods pods_at d (h @ cs)) \<le> length (current_pods pods_at d h) + sum_list (map (makes d) cs)"
proof (induction cs rule: rev_induct)
  case (snoc c cs)
  have "length (current_pods pods_at d ((h @ cs) @ [c])) \<le> length (current_pods pods_at d (h @ cs)) + makes d c"
    using assms unfolding pods_follow_def by blast
  with snoc show ?case by simp
qed simp

lemma sum_makes_none: "list_all (\<lambda>c. makes d c = 0) cs \<Longrightarrow> sum_list (map (makes d) cs) = 0"
  by (induction cs) auto

text \<open>Code that makes no pod for \<open>d\<close>.\<close>

lemma wp_makes_none:
  assumes "pods_follow env pods_at" and "calls_only P m R" and "\<And>c. P c \<Longrightarrow> makes d c = 0"
  shows "wp m (\<lambda>x t. length (current_pods pods_at d (w_calls t)) \<le> length (current_pods pods_at d (w_calls w)) \<and> R x)
      (\<lambda>p t. length (current_pods pods_at d (w_calls t)) \<le> length (current_pods pods_at d (w_calls w))) w"
proof (rule wp_of_calls [OF assms(2)], goal_cases)
  case (1 x t new)
  then have "sum_list (map (makes d) new) = 0"
    using assms(3) by (intro sum_makes_none) (auto simp: list_all_iff)
  with 1 pods_follow_calls [OF assms(1), of d "w_calls w" new] show ?case by simp
next
  case (2 p t new)
  then have "sum_list (map (makes d) new) = 0"
    using assms(3) by (intro sum_makes_none) (auto simp: list_all_iff)
  with 2 pods_follow_calls [OF assms(1), of d "w_calls w" new] show ?case by simp
qed

abbreviation pod_count :: "(call list \<Rightarrow> Pod list) \<Rightarrow> string \<Rightarrow> world \<Rightarrow> nat" where
  "pod_count pods_at d w \<equiv> length (current_pods pods_at d (w_calls w))"

lemma pods_follow_none:
  assumes "pods_follow env pods_at" and "w_calls t = w_calls w @ cs" and "list_all (\<lambda>c. \<not> creates c) cs"
  shows "pod_count pods_at d t \<le> pod_count pods_at d w"
proof -
  have "sum_list (map (makes d) cs) = 0" using assms(3) by (intro sum_makes_none) (auto simp: list_all_iff)
  with pods_follow_calls [OF assms(1), of d "w_calls w" cs] assms(2) show ?thesis by simp
qed

lemma no_current_listed:
  assumes "pods_follow env pods_at" and "e_clientListPods env h = Inr items" and "snd (sort_pods d s items) = []"
  shows "current_pods pods_at d h = []"
  using assms by (auto simp: pods_follow_def current_pods_def sort_pods_eq Let_def filter_empty_conv)

lemma wp_claimPods_count:
  assumes "pods_follow env pods_at"
  shows "wp (claimPods env r app d s)
      (\<lambda>res t. pod_count pods_at d t \<le> pod_count pods_at d w \<and> (res = Inr None \<longrightarrow> pod_count pods_at d t = 0))
      (\<lambda>p t. pod_count pods_at d t \<le> pod_count pods_at d w) w"
proof (cases "r_ToRESTConfig r ()")
  case (Inr config)
  let ?w1 = "w\<lparr>w_calls := w_calls w @ [CNewClientset]\<rparr>"
  let ?list = "CClientListPods (app_Namespace app) (appLabel @ ''='' @ app_Name app)"
  let ?w2 = "w\<lparr>w_calls := w_calls ?w1 @ [?list]\<rparr>"
  have less1: "pod_count pods_at d ?w1 \<le> pod_count pods_at d w"
    by (rule pods_follow_none [OF assms, where cs = "[CNewClientset]"]) simp_all
  have less2: "pod_count pods_at d ?w2 \<le> pod_count pods_at d w"
    by (rule pods_follow_none [OF assms, where cs = "[CNewClientset, ?list]"]) simp_all
  note less = less1 less2
  show ?thesis
  proof (cases "e_newClientset env (w_calls ?w1)")
    case None
    show ?thesis
    proof (cases "e_clientListPods env (w_calls ?w2)")
      case (Inr items)
      obtain old new where sort: "sort_pods d s items = (old, new)" by force
      let ?dels = "map (\<lambda>p. CClientDeletePod (app_Namespace app) (pod_Name p)) old"
      let ?w3 = "?w2\<lparr>w_calls := w_calls ?w2 @ ?dels\<rparr>"
      have "pod_count pods_at d ?w3 \<le> pod_count pods_at d ?w2"
        by (rule pods_follow_none [OF assms, where cs = ?dels]) (simp_all add: list_all_iff)
      moreover have "pod_count pods_at d ?w2 = 0" if "new = []"
        using no_current_listed [OF assms Inr, of d s] sort that by simp
      ultimately show ?thesis
        using \<open>r_ToRESTConfig r () = Inr config\<close> None Inr less(2)
        by (cases new) (simp_all add: claimPods_def sort wp_recycle_pods del: appLabel_def)
    qed (use Inr None less in \<open>simp add: claimPods_def\<close>)
  qed (use Inr less in \<open>simp add: claimPods_def\<close>)
qed (simp add: claimPods_def)

lemma wp_startApp_count:
  assumes "pods_follow env pods_at"
  shows "wp (startApp env r app d s) (\<lambda>_ t. pod_count pods_at d t \<le> pod_count pods_at d w + 1)
      (\<lambda>_ t. pod_count pods_at d t \<le> pod_count pods_at d w + 1) w"
proof (rule wp_mono [OF wp_startApp], goal_cases)
  case (1 res t)
  then obtain pre where pre: "list_all (\<lambda>c. \<not> creates c) pre"
    and t: "w_calls t = w_calls w @ pre \<or> (\<exists>pod. w_calls t = w_calls w @ pre @ [CCreatePod pod])"
    by (auto simp: started_def)
  let ?u = "w\<lparr>w_calls := w_calls w @ pre\<rparr>"
  have u: "pod_count pods_at d ?u \<le> pod_count pods_at d w"
    by (rule pods_follow_none [OF assms, where cs = pre]) (simp_all add: pre)
  from t show ?case
  proof
    assume "\<exists>pod. w_calls t = w_calls w @ pre @ [CCreatePod pod]"
    then obtain pod where "w_calls t = w_calls ?u @ [CCreatePod pod]" by auto
    moreover have "makes d (CCreatePod pod) \<le> 1" by (simp add: makes_def)
    ultimately show ?thesis
      using pods_follow_calls [OF assms, of d "w_calls ?u" "[CCreatePod pod]"] u by simp
  qed (use u in simp)
next
  case (2 p t)
  then obtain pre where "list_all (\<lambda>c. \<not> creates c) pre" "w_calls t = w_calls w @ pre" by blast
  then have "pod_count pods_at d t \<le> pod_count pods_at d w" by (intro pods_follow_none [OF assms, where cs = pre])
  then show ?case by simp
qed

text \<open>A run of the handler of \<open>Recovering\<close> leaves one current pod, if there was at most one.\<close>

abbreviation at_most_one :: "(call list \<Rightarrow> Pod list) \<Rightarrow> string \<Rightarrow> world \<Rightarrow> world \<Rightarrow> bool" where
  "at_most_one pods_at d w t \<equiv> pod_count pods_at d t \<le> max 1 (pod_count pods_at d w)"

lemma wp_transit_count:
  assumes "pods_follow env pods_at"
  shows "wp (transitPhaseTo env app p) (\<lambda>_ t. pod_count pods_at d t \<le> pod_count pods_at d w)
    (\<lambda>_ t. pod_count pods_at d t \<le> pod_count pods_at d w) w"
  by (rule wp_mono [OF wp_makes_none [OF assms calls_transitPhaseTo [where P = "\<lambda>c. \<not> creates c" and R = "\<lambda>_. True"]]])
    auto

lemma wp_recovering_count:
  assumes "pods_follow env pods_at" and "d = encodeSpec (app_Spec app)"
  shows "wp (recovering_case env r app) (\<lambda>_. at_most_one pods_at d w) (\<lambda>_. at_most_one pods_at d w) w"
  unfolding recovering_case_def Let_def wp_bnd assms(2) [symmetric]
proof (rule wp_mono [OF wp_claimPods_count [OF assms(1)]], goal_cases)
  case (1 claimed t)
  consider (failed) e where "claimed = Inl e" | (missing) "claimed = Inr None" | (found) p where "claimed = Inr (Some p)"
    by (metis obj_sumE option.exhaust)
  then show ?case
  proof cases
    case failed
    with 1 show ?thesis by simp
  next
    case missing
    show ?thesis
      unfolding missing sum.case option.case wp_bnd wp_ret
      by (rule wp_mono [OF wp_startApp_count [OF assms(1), where d = d and w = t]]) (use 1 missing in auto)
  next
    case found
    show ?thesis
      unfolding found sum.case option.case
      using 1 by (auto simp: wp_if case_prod_beta intro!: wp_mono [OF wp_transit_count [OF assms(1), where d = d and w = t]])
  qed
qed simp

lemma calls_begin_building:
  "calls_only (\<lambda>c. \<not> creates c) (begin_building env r app) (\<lambda>_. True)"
  unfolding begin_building_def
  by (intro triple_intros emitting.triple_bnd [OF calls_transitPhaseTo [where R = "\<lambda>_. True"]]) auto

lemma no_create_unless_recovering:
  assumes "reconcile_call_ok env app c"
    and "\<not> (TargetPhase app = CliAppPhaseLive \<and> Phase app = CliAppPhaseRecovering \<and> d = encodeSpec (app_Spec app))"
  shows "makes d c = 0"
  using assms by (cases c) (auto simp: makes_def reconcile_call_ok_def rest_call_ok_def live_call_ok_def)

lemma wp_body_count:
  assumes "pods_follow env pods_at"
  shows "wp (reconcile_body env r app) (\<lambda>_. at_most_one pods_at d w) (\<lambda>_. at_most_one pods_at d w) w"
proof (cases "TargetPhase app = CliAppPhaseLive \<and> Phase app = CliAppPhaseRecovering \<and> d = encodeSpec (app_Spec app)")
  case False
  show ?thesis
    by (rule wp_mono [OF wp_makes_none [OF assms calls_reconcile_body]])
      (use no_create_unless_recovering [OF _ False] in auto)
next
  case True
  have build: "wp (begin_building env r app) (\<lambda>_. at_most_one pods_at d w) (\<lambda>_. at_most_one pods_at d w) w"
    by (rule wp_mono [OF wp_makes_none [OF assms calls_begin_building, where d = d and w = w]]) auto
  have "wp (makeAppLive env r app) (\<lambda>_. at_most_one pods_at d w) (\<lambda>_. at_most_one pods_at d w) w"
    unfolding makeAppLive_def
    using True build wp_recovering_count [OF assms, of d app r w] by (simp add: wp_if)
  with True show ?thesis by (simp add: reconcile_body_def split: option.splits)
qed

lemma wp_report_count:
  assumes "pods_follow env pods_at"
  shows "wp (report_error env x) (\<lambda>_ t. pod_count pods_at d t \<le> pod_count pods_at d w)
    (\<lambda>_ t. pod_count pods_at d t \<le> pod_count pods_at d w) w"
proof -
  have "calls_only (\<lambda>c. \<not> creates c) (report_error env x) (\<lambda>_. True)"
    unfolding report_error_def by (intro triple_intros) auto
  from wp_makes_none [OF assms this] show ?thesis by (rule wp_mono) auto
qed

lemma wp_Reconcile_count:
  assumes "pods_follow env pods_at"
  shows "wp (Reconcile env r ns name) (\<lambda>_. at_most_one pods_at d w) (\<lambda>_. at_most_one pods_at d w) w"
proof -
  let ?w = "w\<lparr>w_calls := w_calls w @ [CGetApp ns name]\<rparr>"
  have get: "pod_count pods_at d ?w \<le> pod_count pods_at d w"
    by (rule pods_follow_none [OF assms, where cs = "[CGetApp ns name]"]) simp_all
  show ?thesis
  proof (cases "e_getApp env (w_calls ?w)")
    case (Inr app)
    have "wp (bnd (reconcile_body env r (set_Error [] app)) (report_error env))
        (\<lambda>_. at_most_one pods_at d ?w) (\<lambda>_. at_most_one pods_at d ?w) ?w"
      unfolding wp_bnd
    proof (rule wp_mono [OF wp_body_count [OF assms, where d = d]], goal_cases)
      case (1 x t)
      show ?case by (rule wp_mono [OF wp_report_count [OF assms, where d = d and w = t]]) (use 1 in auto)
    qed auto
    then have "wp (bnd (reconcile_body env r (set_Error [] app)) (report_error env))
        (\<lambda>_. at_most_one pods_at d w) (\<lambda>_. at_most_one pods_at d w) ?w"
      by (rule wp_mono) (use get in auto)
    with Inr show ?thesis by (simp add: Reconcile_def)
  qed (use get in \<open>simp add: Reconcile_def\<close>)
qed

text \<open>
  C11. One workspace. However often the controller runs, and whatever of it fails, there is at most one pod
  that was made for a dump and is not terminating, or no more than there were at first. This holds for every dump, so that it
  does not matter how the spec of the app changes between the runs.
\<close>

theorem one_current_pod:
  assumes "pods_follow env pods_at"
  shows "length (current_pods pods_at d (w_calls ((run_once env r app0 ^^ k) w)))
      \<le> max 1 (length (current_pods pods_at d (w_calls w)))"
proof (induction k)
  case (Suc k)
  let ?w = "(run_once env r app0 ^^ k) w"
  have "at_most_one pods_at d ?w (run_once env r app0 ?w)"
    unfolding run_once_def by (rule wp_final [OF wp_Reconcile_count [OF assms]])
  with Suc show ?case by simp
qed simp

text \<open>The pods of a cluster in which nothing else happens: those that were created.\<close>

fun created :: "call list \<Rightarrow> Pod list" where
  "created [] = []"
| "created (CCreatePod p # cs) = p # created cs"
| "created (c # cs) = created cs"

lemma created_append: "created (xs @ ys) = created xs @ created ys"
  by (induction xs rule: created.induct) auto

definition own_pods_env :: env where
  "own_pods_env = (quiet_env (set_TargetPhase CliAppPhaseLive (set_Phase CliAppPhaseRecovering sample_app)) [])
     \<lparr>e_clientListPods := (\<lambda>h. Inr (created h))\<rparr>"

lemma one_current_pod_witness:
  "\<forall>d. length (current_pods created d (w_calls ((run_once own_pods_env sample_reconciler sample_app ^^ 2) idle_world))) \<le> 1"
proof -
  have "created (h @ [c]) = created h @ (case c of CCreatePod p \<Rightarrow> [p] | _ \<Rightarrow> [])" for h c
    by (cases c) (simp_all add: created_append)
  then have "pods_follow own_pods_env created"
    by (auto simp: pods_follow_def own_pods_env_def current_pods_def makes_def split: call.splits)
  from one_current_pod [OF this, where r = sample_reconciler and ?app0.0 = sample_app and k = 2 and w = idle_world]
  show ?thesis by (simp add: idle_world_def current_pods_def)
qed

end
