(* ===== verification/ConvergeLive.thy ===== *)
theory ConvergeLive
  imports Converge ClaimProps
begin

text \<open>
  Convergence to live: once the cluster runs a ready pod with the current spec, the controller brings
  an app that shall be live to the phase Live, with that pod's name in its status, and keeps it there.
\<close>

definition live_bound :: "CliApp \<Rightarrow> bool" where
  "live_bound app \<longleftrightarrow> validateApp app = None \<and> TargetPhase app = CliAppPhaseLive
     \<and> spec_Image (app_Spec app) \<noteq> []"

text \<open>
  From some point on, the cluster answers with the pods \<open>items\<close>, the first current one of which is the
  ready pod \<open>p\<close>.
\<close>

definition settles :: "env \<Rightarrow> CliApp \<Rightarrow> Pod \<Rightarrow> nat \<Rightarrow> bool" where
  "settles env app0 p n \<longleftrightarrow>
     (\<exists>items ps. snd (sort_pods (encodeSpec (app_Spec app0)) (computeHash env (app_Spec app0)) items) = p # ps
       \<and> (\<forall>h. n \<le> length h \<longrightarrow> e_newClientset env h = None \<and> e_clientListPods env h = Inr items))
   \<and> IsPodReady p \<and> pod_Name p \<noteq> []"

lemma live_bound_stored:
  "fixed_as a app0 w \<Longrightarrow> live_bound a \<Longrightarrow> live_bound (set_Error [] (stored_in app0 w))"
  using validateApp_spec [of "stored_in app0 w" a] by (simp add: fixed_as_def live_bound_def)

lemma live_run_wp:
  assumes "consistent app0 env" "fixed_as a app0 w" "live_bound a"
    and "wp (bnd (makeAppLive env r (set_Error [] (stored_in app0 w))) (report_error env))
           (\<lambda>_ w'. P (stored_in app0 w')) (\<lambda>_ w'. P (stored_in app0 w'))
           (w\<lparr>w_calls := w_calls w @ [CGetApp (app_Namespace app0) (app_Name app0)]\<rparr>)"
  shows "P (stored_in app0 (run_once env r app0 w))"
proof -
  have "wp (Reconcile env r (app_Namespace app0) (app_Name app0))
      (\<lambda>_ w'. P (stored_in app0 w')) (\<lambda>_ w'. P (stored_in app0 w')) w"
    unfolding wp_Reconcile_stored [OF assms(1)]
    using live_bound_stored [OF assms(2,3)] assms(4)
    by (simp add: live_bound_def reconcile_body_def)
  then show ?thesis unfolding run_once_def by (rule wp_final)
qed

lemma live_run_start:
  assumes "consistent app0 env" "fixed_as a app0 w" "live_bound a"
    and "Phase (stored_in app0 w) \<in> {[], CliAppPhaseShuttingDown, CliAppPhaseWaitingForSessions,
          CliAppPhaseRest, CliAppPhaseBuilding}"
  shows "Phase (stored_in app0 (run_once env r app0 w)) = CliAppPhaseRecovering"
  by (rule live_run_wp [OF assms(1-3)])
    (use assms live_bound_stored [OF assms(2,3)] in
      \<open>auto simp: live_bound_def makeAppLive_def building_case_def wp_simps wp_report_error Let_def
        transit_ok_def transited_def\<close>)

lemma settles_claim:
  assumes "settles env a p n" "n \<le> length (w_calls w)" "r_ToRESTConfig r () = Inr c"
    and "app_Spec app = app_Spec a"
  obtains calls where "list_all (\<lambda>c. \<not> writes c) calls"
    and "\<And>Q E. wp (claimPods env r app (encodeSpec (app_Spec app)) (computeHash env (app_Spec app))) Q E w =
           Q (Inr (Some p)) (w\<lparr>w_calls := w_calls w @ calls\<rparr>)"
proof -
  obtain items ps where sorted:
      "snd (sort_pods (encodeSpec (app_Spec a)) (computeHash env (app_Spec a)) items) = p # ps"
    and answers: "\<And>h. n \<le> length h \<Longrightarrow> e_newClientset env h = None \<and> e_clientListPods env h = Inr items"
    using assms(1) unfolding settles_def by blast
  let ?old = "fst (sort_pods (encodeSpec (app_Spec a)) (computeHash env (app_Spec a)) items)"
  let ?calls = "claim_calls app @ map (\<lambda>p. CClientDeletePod (app_Namespace app) (pod_Name p)) ?old"
  show thesis
  proof (rule that)
    show "list_all (\<lambda>c. \<not> writes c) ?calls" by (simp add: claim_calls_def list_all_iff)
    show "wp (claimPods env r app (encodeSpec (app_Spec app)) (computeHash env (app_Spec app))) Q E w =
        Q (Inr (Some p)) (w\<lparr>w_calls := w_calls w @ ?calls\<rparr>)" for Q E
      using answers assms(2)
      by (subst wp_claimPods [OF assms(3)]) (simp_all add: assms(4) case_prod_beta, subst sorted, simp)
  qed
qed

lemma live_run_recovering:
  assumes "consistent app0 env" "fixed_as a app0 w" "live_bound a"
    and "settles env a p n" "n \<le> length (w_calls w)" "r_ToRESTConfig r () = Inr c"
    and "Phase (stored_in app0 w) = CliAppPhaseRecovering"
  shows "Phase (stored_in app0 (run_once env r app0 w)) = CliAppPhaseLive
    \<and> PodName (stored_in app0 (run_once env r app0 w)) = pod_Name p"
proof -
  let ?w = "w\<lparr>w_calls := w_calls w @ [CGetApp (app_Namespace app0) (app_Name app0)]\<rparr>"
  have spec: "app_Spec (set_Error [] (stored_in app0 w)) = app_Spec a"
    using assms(2) by (simp add: fixed_as_def)
  have "n \<le> length (w_calls ?w)" using assms(5) by simp
  from settles_claim [OF assms(4) this assms(6) spec] obtain calls
    where calls: "list_all (\<lambda>c. \<not> writes c) calls"
      and claim: "\<And>Q E. wp (claimPods env r (set_Error [] (stored_in app0 w))
          (encodeSpec (app_Spec a)) (computeHash env (app_Spec a))) Q E ?w =
          Q (Inr (Some p)) (?w\<lparr>w_calls := w_calls ?w @ calls\<rparr>)"
    by (auto simp: spec)
  show ?thesis
    by (rule live_run_wp [OF assms(1-3)])
      (use assms live_bound_stored [OF assms(2,3)] spec apply_no_writes [OF calls] in
        \<open>simp add: live_bound_def settles_def makeAppLive_def recovering_case_def claim wp_simps
          wp_report_error Let_def transit_ok_def transited_def\<close>)
qed

lemma live_run_live:
  assumes "consistent app0 env" "fixed_as a app0 w" "live_bound a"
    and "settles env a p n" "n \<le> length (w_calls w)" "r_ToRESTConfig r () = Inr c"
    and "Phase (stored_in app0 w) = CliAppPhaseLive"
  shows "Phase (stored_in app0 (run_once env r app0 w)) = CliAppPhaseLive
    \<and> PodName (stored_in app0 (run_once env r app0 w)) = pod_Name p"
proof -
  let ?w = "w\<lparr>w_calls := w_calls w @ [CGetApp (app_Namespace app0) (app_Name app0)]\<rparr>"
  have spec: "app_Spec (set_Error [] (stored_in app0 w)) = app_Spec a"
    using assms(2) by (simp add: fixed_as_def)
  have "n \<le> length (w_calls ?w)" using assms(5) by simp
  from settles_claim [OF assms(4) this assms(6) spec] obtain calls
    where calls: "list_all (\<lambda>c. \<not> writes c) calls"
      and claim: "\<And>Q E. wp (claimPods env r (set_Error [] (stored_in app0 w))
          (encodeSpec (app_Spec a)) (computeHash env (app_Spec a))) Q E ?w =
          Q (Inr (Some p)) (?w\<lparr>w_calls := w_calls ?w @ calls\<rparr>)"
    by (auto simp: spec)
  show ?thesis
    by (rule live_run_wp [OF assms(1-3)])
      (use assms live_bound_stored [OF assms(2,3)] spec apply_no_writes [OF calls] in
        \<open>simp add: live_bound_def settles_def makeAppLive_def live_case_def claim wp_simps
          wp_report_error Let_def transit_ok_def transited_def\<close>)
qed

definition live_with :: "CliApp \<Rightarrow> CliApp \<Rightarrow> Pod \<Rightarrow> nat \<Rightarrow> world \<Rightarrow> bool" where
  "live_with a app0 p n w \<longleftrightarrow> fixed_as a app0 w \<and> Phase (stored_in app0 w) = CliAppPhaseLive \<and> PodName (stored_in app0 w) = pod_Name p
     \<and> n \<le> length (w_calls w)"

definition late :: "CliApp \<Rightarrow> CliApp \<Rightarrow> nat \<Rightarrow> world \<Rightarrow> bool" where
  "late a app0 n w \<longleftrightarrow> fixed_as a app0 w \<and> n \<le> length (w_calls w)"

lemma live_with_late:
  "live_with a app0 p n w \<longleftrightarrow> late a app0 n w \<and> Phase (stored_in app0 w) = CliAppPhaseLive
     \<and> PodName (stored_in app0 w) = pod_Name p"
  by (auto simp: live_with_def late_def)

lemma late_run:
  assumes "consistent app0 env" "live_bound a" "late a app0 n w"
  shows "late a app0 n (run_once env r app0 w)"
  using assms fixed_as_run [of app0 env a w r] run_progress.grows [of w env r app0]
  by (simp add: late_def live_bound_def)

lemma late_run_live:
  assumes "consistent app0 env" "live_bound a" "settles env a p n"
    and "r_ToRESTConfig r () = Inr c" "late a app0 n w"
    and "Phase (stored_in app0 w) = CliAppPhaseRecovering \<or> Phase (stored_in app0 w) = CliAppPhaseLive"
  shows "live_with a app0 p n (run_once env r app0 w)"
  using late_run [OF assms(1,2,5), of r] assms(5,6)
    live_run_recovering [OF assms(1) _ assms(2,3) _ assms(4), of w]
    live_run_live [OF assms(1) _ assms(2,3) _ assms(4), of w]
  unfolding live_with_late late_def by blast

lemma late_leads_to_live:
  assumes "consistent app0 env" "live_bound a" "settles env a p n"
    and "r_ToRESTConfig r () = Inr c" "late a app0 n w"
  shows "\<exists>k. live_with a app0 p n ((run_once env r app0 ^^ k) w)"
proof (cases "Phase (stored_in app0 w) = CliAppPhaseRecovering \<or> Phase (stored_in app0 w) = CliAppPhaseLive")
  case True
  from late_run_live [OF assms this] show ?thesis by (intro exI [of _ 1]) simp
next
  case False
  with assms(5) have "Phase (stored_in app0 w) \<in> {[], CliAppPhaseShuttingDown,
      CliAppPhaseWaitingForSessions, CliAppPhaseRest, CliAppPhaseBuilding}"
    by (auto simp: late_def fixed_as_def declared_phases_def)
  with assms(5) have "Phase (stored_in app0 (run_once env r app0 w)) = CliAppPhaseRecovering"
    by (intro live_run_start [OF assms(1) _ assms(2)]) (simp_all add: late_def)
  from late_run_live [OF assms(1-4) late_run [OF assms(1,2,5)] disjI1 [OF this]]
  show ?thesis by (intro exI [of _ 2]) (simp add: numeral_2_eq_2)
qed

lemma leads_to_live:
  assumes "consistent app0 env" "live_bound a" "settles env a p n"
    and "r_ToRESTConfig r () = Inr c" "fixed_as a app0 w"
  shows "\<exists>k. live_with a app0 p n ((run_once env r app0 ^^ k) w)"
proof -
  have "fixed_as a app0 (run_once env r app0 w)" if "fixed_as a app0 w" for w
    by (rule fixed_as_run [OF assms(1) that]) (use assms(2) in \<open>simp add: live_bound_def\<close>)
  from run_progress.kept_funpow [of "fixed_as a app0", OF this assms(5)]
  have "fixed_as a app0 ((run_once env r app0 ^^ n) w)" .
  moreover have "n \<le> length (w_calls ((run_once env r app0 ^^ n) w))"
    using run_progress.size_funpow [of w n env r app0] by linarith
  ultimately have "late a app0 n ((run_once env r app0 ^^ n) w)" by (simp add: late_def)
  from late_leads_to_live [OF assms(1-4) this] show ?thesis
    by (metis funpow_add comp_apply)
qed

lemma eventually_live_with:
  assumes "consistent app0 env" and "settles env app0 p n" and "r_ToRESTConfig r () = Inr c"
    and "validateApp app0 = None" and "TargetPhase app0 = CliAppPhaseLive"
    and "spec_Image (app_Spec app0) \<noteq> []" and "Phase app0 \<in> insert [] declared_phases"
    and "w_calls w = []"
  shows "\<exists>k. \<forall>j \<ge> k. live_with app0 app0 p n ((run_once env r app0 ^^ j) w)"
proof -
  have bound: "live_bound app0" using assms(4-6) by (simp add: live_bound_def)
  have start: "fixed_app app0 w" using assms(7,8) by (simp add: fixed_as_def)
  show ?thesis
  proof (rule run_progress.stays [OF leads_to_live [OF assms(1) bound assms(2,3) start]])
    fix w assume "live_with app0 app0 p n w"
    then show "live_with app0 app0 p n (run_once env r app0 w)"
      by (intro late_run_live [OF assms(1) bound assms(2,3)]) (simp_all add: live_with_late)
  qed
qed

text \<open>
  C4. Convergence to live. An app with an image that shall be live reaches the phase Live after finitely
  many runs, from every declared phase and from none, with the name of the ready pod in its status,
  and stays so, whatever happened before the cluster settled on a list of pods whose first current
  one is ready.
\<close>

theorem reconcile_converges_to_live:
  assumes "consistent app0 env" and "settles env app0 p n" and "r_ToRESTConfig r () = Inr c"
    and "validateApp app0 = None" and "TargetPhase app0 = CliAppPhaseLive"
    and "spec_Image (app_Spec app0) \<noteq> []" and "Phase app0 \<in> insert [] declared_phases"
    and "w_calls w = []"
  shows "\<exists>k. \<forall>j \<ge> k. let app = stored_in app0 ((run_once env r app0 ^^ j) w)
           in Phase app = CliAppPhaseLive \<and> PodName app = pod_Name p \<and> app_Spec app = app_Spec app0"
  using eventually_live_with [OF assms] unfolding live_with_def fixed_as_def Let_def by blast

definition sample_wake :: CliApp where
  "sample_wake = set_TargetPhase CliAppPhaseLive (set_Phase CliAppPhaseRest sample_app)"

definition ready_pod :: Pod where
  "ready_pod = (sample_pod ''box-1'' (encodeSpec (app_Spec sample_wake)) (show_nat (unat (fnv32a ''busybox''))))
     \<lparr>pod_Status := \<lparr>pst_Phase = ''Running'', pst_Conditions = [\<lparr>pc_Type = ''Ready'', pc_Status = ''True''\<rparr>]\<rparr>\<rparr>"

lemma ready_pod_settles: "settles (quiet_env sample_wake [ready_pod]) sample_wake ready_pod 0"
proof -
  let ?dump = "encodeSpec (app_Spec sample_wake)"
  have marks: "annotation ready_pod annoKeySpecDump = ?dump" "pod_DeletionTimestamp ready_pod = None"
    "IsPodReady ready_pod" "pod_Name ready_pod \<noteq> []"
    by (simp_all add: ready_pod_def sample_pod_def zero_Pod_def IsPodReady_find)
  have "snd (sort_pods ?dump h [ready_pod]) = [ready_pod]" for h
    by (simp add: sort_pods_eq marks Let_def del: annoKeySpecDump_def)
  then show ?thesis
    using marks unfolding settles_def
    by (intro conjI exI [of _ "[ready_pod]"] exI [of _ "[]"]) (simp_all add: quiet_env_def)
qed

lemma reconcile_converges_to_live_witness:
  "\<exists>k. \<forall>j \<ge> k. let app = stored_in sample_wake
         ((run_once (quiet_env sample_wake [ready_pod]) sample_reconciler sample_wake ^^ j) idle_world)
     in Phase app = CliAppPhaseLive \<and> PodName app = pod_Name ready_pod
      \<and> app_Spec app = app_Spec sample_wake"
proof (rule reconcile_converges_to_live [OF _ ready_pod_settles])
  show "r_ToRESTConfig sample_reconciler () = Inr ''config''" by (simp add: sample_reconciler_def)
qed (simp_all add: validateApp_def sample_wake_def sample_app_def sample_spec_def declared_phases_def
      idle_world_def)

end
