(* ===== verification/ComesUp.thy ===== *)
theory ComesUp
  imports ConvergeLive ForkProps
begin

text \<open>
  The controller and the cluster as a closed loop: the pods of the cluster are those that the controller created and did not delete, and they get
  ready at some time. So an app comes up from nothing.
\<close>

section \<open>The cluster\<close>

text \<open>The pods that the calls so far leave in the cluster, as they were created.\<close>

fun pods_after :: "call \<Rightarrow> Pod list \<Rightarrow> Pod list" where
  "pods_after (CCreatePod p) ps = ps @ [p]"
| "pods_after (CDeletePod q) ps = filter (\<lambda>p. pod_Name p \<noteq> pod_Name q) ps"
| "pods_after (CClientDeletePod ns name) ps = filter (\<lambda>p. pod_Name p \<noteq> name) ps"
| "pods_after c ps = ps"

definition cluster_pods :: "call list \<Rightarrow> Pod list" where
  "cluster_pods h = fold pods_after h []"

lemma cluster_pods_simps [simp]:
  "cluster_pods [] = []"
  "cluster_pods (h @ cs) = fold pods_after cs (cluster_pods h)"
  by (simp_all add: cluster_pods_def)

text \<open>
  A cluster that accepts every pod and lists the pods that it has, each with the status that \<open>st\<close> gives it at that time; from
  some time on every pod is ready.
\<close>

definition with_status :: "(call list \<Rightarrow> Pod \<Rightarrow> PodStatus) \<Rightarrow> call list \<Rightarrow> Pod \<Rightarrow> Pod" where
  "with_status st h p = p\<lparr>pod_Status := st h p\<rparr>"

definition runs_pods :: "env \<Rightarrow> (call list \<Rightarrow> Pod \<Rightarrow> PodStatus) \<Rightarrow> nat \<Rightarrow> bool" where
  "runs_pods env st n \<longleftrightarrow>
     (\<forall>h. e_newClientset env h = None \<and> e_clientListPods env h = Inr (map (with_status st h) (cluster_pods h))
        \<and> (\<exists>q. e_createPod env h = Inr q))
   \<and> (\<forall>h p. n \<le> length h \<longrightarrow> IsPodReady (with_status st h p))"

section \<open>Starting the pod\<close>

text \<open>What the spec and the runtime of the containers must give for a pod to be made.\<close>

definition startable :: "env \<Rightarrow> CliAppReconciler \<Rightarrow> CliApp \<Rightarrow> bool" where
  "startable env r app \<longleftrightarrow> proper_config r \<and> validateApp app = None \<and> spec_Fork (app_Spec app) = None
   \<and> (\<exists>v. parse_hostpaths 0 (spec_HostPath (app_Spec app)) = Inr v) \<and> (\<exists>es. parse_envs (spec_Env (app_Spec app)) = Inr es)
   \<and> (\<forall>h. \<exists>info. e_imageStatus env h = Inr info
        \<and> (map_get info ''info'' \<noteq> [] \<longrightarrow> unmarshal_imageInfo (map_get info ''info'') \<noteq> None))"

text \<open>The third instance of \<open>go_rules\<close>: code that returns from every world.\<close>

abbreviation returns :: "(world, 'a) go \<Rightarrow> ('a \<Rightarrow> bool) \<Rightarrow> bool" where
  "returns \<equiv> triple (\<lambda>_ _. True) (\<lambda>_ _. False)"

interpretation returning: go_rules "\<lambda>_ _. True" "\<lambda>_ _. False"
  by unfold_locales auto

lemma returns_bnd_ask [triple_intros]: "(\<And>h. returns (k (f h)) R) \<Longrightarrow> returns (bnd (ask c f) k) R"
  by (rule returning.triple_bnd [where S = "\<lambda>x. \<exists>h. x = f h"]) (auto simp: triple_def)

lemma returns_applyAppConfig:
  assumes "startable env r app" and "target < length (ps_Containers (pod_Spec pod))" and "pod_DeletionTimestamp pod = None"
  shows "returns (applyAppConfig env r pod target app cm) (\<lambda>res. \<exists>p. res = Inr p \<and> pod_DeletionTimestamp p = None)"
proof -
  note ok = assms(1) [unfolded startable_def]
  have answered: "e_imageStatus env h \<noteq> Inl err" for h err using ok by (metis sum.distinct(1))
  have readable: "unmarshal_imageInfo (map_get info ''info'') \<noteq> None"
    if "e_imageStatus env h = Inr info" "map_get info ''info'' \<noteq> []" for h info
    using ok that by (metis sum.inject(2))
  have image: "returns (fetchImageConfiguration env img) (\<lambda>res. \<exists>c. res = Inr c)" for img
    unfolding fetchImageConfiguration_def by (intro triple_intros) (use answered readable in auto)
  have shell: "returns (shell_volumes sh cm) (\<lambda>_. True)" if "sh = CliAppShellZsh \<or> sh = CliAppShellBash" for sh
    unfolding shell_volumes_def by (intro triple_intros TrueI) (use that in auto)
  have meta: "pod_DeletionTimestamp (set_meta app x pod) = None" for x using assms(3) by (simp add: set_meta_def)
  show ?thesis
    unfolding applyAppConfig_def
    by (intro triple_intros returning.triple_bnd [OF image] returning.triple_bnd [OF shell])
      (use ok assms(2) meta choose_context_shell [of r app] in auto)
qed

text \<open>A pod that was made for the app as it is.\<close>

definition made_now :: "env \<Rightarrow> CliApp \<Rightarrow> Pod \<Rightarrow> bool" where
  "made_now env app p \<longleftrightarrow> belongs_to app p \<and> pod_DeletionTimestamp p = None
   \<and> annotation p annoKeySpecDump = encodeSpec (app_Spec app) \<and> annotation p annoKeySpecHash = computeHash env (app_Spec app)"

text \<open>Calls that leave the stored app and the pods alone.\<close>

definition reads :: "call \<Rightarrow> bool" where
  "reads c \<longleftrightarrow> \<not> writes c \<and> pods_after c = (\<lambda>ps. ps)"

lemma reads_simps [simp]:
  "reads (CGetApp ns name)" "reads CNow" "reads CNewClientset" "reads (CClientListPods ns name)" "reads (CGetConfigMap ns name)"
  "reads (CImageStatus img)" "reads (CRandString k)"
  by (auto simp: reads_def)

lemma reads_keep: "list_all reads cs \<Longrightarrow> fold pods_after cs ps = ps \<and> foldl apply_call app cs = app"
  by (induction cs arbitrary: ps app) (auto simp: reads_def)

lemma wp_conj: "wp m Q E s \<Longrightarrow> wp m Q' E' s \<Longrightarrow> wp m (\<lambda>x t. Q x t \<and> Q' x t) (\<lambda>p t. E p t \<and> E' p t) s"
  by (auto simp: wp_def split: prod.splits outcome.splits)

lemma wp_startApp_makes:
  assumes "startable env r app" and "\<And>h. \<exists>q. e_createPod env h = Inr q"
  shows "wp (startApp env r app (encodeSpec (app_Spec app)) (computeHash env (app_Spec app)))
      (\<lambda>res t. (\<exists>q. res = Inr q) \<and>
         (\<exists>pre pod. w_calls t = w_calls w @ pre @ [CCreatePod pod] \<and> list_all reads pre \<and> made_now env app pod))
      (\<lambda>_ _. False) w"
proof -
  let ?cm = "CGetConfigMap ''cliapp-system'' ''cliapp-shell-context''"
  let ?m = "\<lambda>cm. applyAppConfig env r (convertToManifest app) 0 app cm"
  have fork: "spec_Fork (app_Spec app) = None" using assms(1) by (simp add: startable_def)
  have result: "wp (?m cm) (\<lambda>res t. \<exists>p. res = Inr p \<and> pod_DeletionTimestamp p = None) (\<lambda>_ _. False) u" for cm u
    using returns_applyAppConfig [OF assms(1), of 0 "convertToManifest app" cm]
    by (simp add: triple_def convertToManifest_def zero_PodSpec_def zero_Pod_def)
  have calls: "wp (?m cm) (\<lambda>res t. (\<exists>new. w_calls t = w_calls u @ new \<and> list_all reads new) \<and> (\<forall>p. res = Inr p \<longrightarrow> belongs_to app p))
      (\<lambda>_ _. True) u" for cm u
    by (rule wp_of_calls [OF calls_applyAppConfig [of reads]]) auto
  show ?thesis
    unfolding startApp_def generate_manifest_def fork option.case wp_bnd wp_ret sum.case prod.case wp_ask Let_def
  proof (rule wp_mono [OF wp_conj [OF result calls]], goal_cases)
    case (1 res t)
    then obtain p new where p: "res = Inr p" "pod_DeletionTimestamp p = None" "belongs_to app p"
      and new: "w_calls t = w_calls w @ ?cm # new" "list_all reads new"
      by auto
    let ?pod = "annotate (encodeSpec (app_Spec app)) (computeHash env (app_Spec app)) p"
    have "made_now env app ?pod" using p by (simp add: made_now_def) (simp add: annotate_def Let_def)
    moreover have "list_all reads (?cm # new)" using new(2) by simp
    moreover have "w_calls t @ [CCreatePod ?pod] = w_calls w @ (?cm # new) @ [CCreatePod ?pod]" using new(1) by simp
    ultimately have "\<exists>pre pod. w_calls t @ [CCreatePod ?pod] = w_calls w @ pre @ [CCreatePod pod] \<and> list_all reads pre \<and> made_now env app pod"
      by blast
    with assms(2) [of "w_calls t @ [CCreatePod ?pod]"] show ?case by (simp add: p(1))
  qed simp
qed

section \<open>Claiming the pod\<close>

lemma with_status_simps [simp]:
  "pod_Name (with_status st h p) = pod_Name p" "pod_DeletionTimestamp (with_status st h p) = pod_DeletionTimestamp p"
  "pod_Annotations (with_status st h p) = pod_Annotations p" "annotation (with_status st h p) k = annotation p k"
  by (simp_all add: with_status_def)

lemma made_now_named: "made_now env app p \<Longrightarrow> pod_Name p \<noteq> []"
  by (auto simp: made_now_def belongs_to_def HasPrefix_iff)

lemma sort_made_now:
  assumes "made_now env app p"
  shows "sort_pods (encodeSpec (app_Spec app)) (computeHash env (app_Spec app)) [with_status st h p] = ([], [with_status st h p])"
proof -
  have marks: "pod_DeletionTimestamp p = None" "annotation p annoKeySpecDump = encodeSpec (app_Spec app)"
    "annotation p annoKeySpecHash = computeHash env (app_Spec app)"
    using assms by (simp_all add: made_now_def)
  then have "\<not> map_is_empty (pod_Annotations p)"
    using map_is_empty_get [of "pod_Annotations p" annoKeySpecDump] encodeSpec_not_Nil [of "app_Spec app"]
    by auto
  with marks show ?thesis by (simp add: sort_pods_eq Let_def del: annoKeySpecDump_def annoKeySpecHash_def)
qed

lemma stored_owner [simp]:
  "app_APIVersion (stored app0 h) = app_APIVersion app0" "app_Kind (stored app0 h) = app_Kind app0" "app_UID (stored app0 h) = app_UID app0"
proof -
  have "app_APIVersion (apply_call app c) = app_APIVersion app \<and> app_Kind (apply_call app c) = app_Kind app
      \<and> app_UID (apply_call app c) = app_UID app" for app c
    by (cases c) simp_all
  then show "app_APIVersion (stored app0 h) = app_APIVersion app0" "app_Kind (stored app0 h) = app_Kind app0" "app_UID (stored app0 h) = app_UID app0"
    by (induction h rule: rev_induct) simp_all
qed

lemma made_now_stored:
  "fixed_app app0 w \<Longrightarrow> made_now env (set_Error [] (stored_in app0 w)) p \<longleftrightarrow> made_now env app0 p"
  by (simp add: made_now_def belongs_to_def fixed_as_def)

text \<open>The pod that a run finds in the cluster, as it is listed, if there is one.\<close>

abbreviation (input) listing :: "CliApp \<Rightarrow> world \<Rightarrow> call list" where
  "listing app0 w \<equiv> w_calls w @ CGetApp (app_Namespace app0) (app_Name app0) # claim_calls app0"

definition found_pod :: "(call list \<Rightarrow> Pod \<Rightarrow> PodStatus) \<Rightarrow> CliApp \<Rightarrow> world \<Rightarrow> Pod option" where
  "found_pod st app0 w =
     (case cluster_pods (w_calls w) of [] \<Rightarrow> None | p # ps \<Rightarrow> Some (with_status st (listing app0 w) p))"

definition at_most_own_pod :: "env \<Rightarrow> CliApp \<Rightarrow> world \<Rightarrow> bool" where
  "at_most_own_pod env app0 w \<longleftrightarrow>
     cluster_pods (w_calls w) = [] \<or> (\<exists>p. cluster_pods (w_calls w) = [p] \<and> made_now env app0 p)"

abbreviation (input) got_app :: "CliApp \<Rightarrow> world \<Rightarrow> world" where
  "got_app app0 w \<equiv> w\<lparr>w_calls := w_calls w @ [CGetApp (app_Namespace app0) (app_Name app0)]\<rparr>"

lemma wp_claim_own:
  assumes "runs_pods env st n" and "fixed_app app0 w" and "at_most_own_pod env app0 w" and "r_ToRESTConfig r () = Inr c"
  shows "wp (claimPods env r (set_Error [] (stored_in app0 w)) (encodeSpec (app_Spec (stored_in app0 w)))
        (computeHash env (app_Spec (stored_in app0 w)))) Q E (got_app app0 w) =
      Q (Inr (found_pod st app0 w)) (w\<lparr>w_calls := listing app0 w\<rparr>)"
proof -
  let ?app = "set_Error [] (stored_in app0 w)"
  have spec: "app_Spec (stored_in app0 w) = app_Spec app0" using assms(2) by (simp add: fixed_as_def)
  have claim: "claim_calls ?app = claim_calls app0" by (simp add: claim_calls_def)
  have reads: "fold pods_after (CGetApp (app_Namespace app0) (app_Name app0) # claim_calls app0) ps = ps" for ps
    by (simp add: claim_calls_def)
  have new: "e_newClientset env (w_calls (got_app app0 w) @ [CNewClientset]) = None" using assms(1) by (simp add: runs_pods_def)
  have list: "e_clientListPods env (w_calls (got_app app0 w) @ claim_calls ?app) =
      Inr (map (with_status st (listing app0 w)) (cluster_pods (w_calls w)))"
    using assms(1) reads unfolding runs_pods_def claim by simp
  from assms(3) show ?thesis
    unfolding at_most_own_pod_def
  proof
    assume none: "cluster_pods (w_calls w) = []"
    show ?thesis
      unfolding wp_claimPods [OF assms(4) new list] claim by (simp add: none sort_pods_def found_pod_def)
  next
    assume "\<exists>p. cluster_pods (w_calls w) = [p] \<and> made_now env app0 p"
    then obtain p where p: "cluster_pods (w_calls w) = [p]" and made: "made_now env app0 p" by blast
    have "sort_pods (encodeSpec (app_Spec app0)) (computeHash env (app_Spec app0)) (map (with_status st (listing app0 w)) [p]) =
        ([], [with_status st (listing app0 w) p])"
      using sort_made_now [OF made] by simp
    then show ?thesis
      unfolding wp_claimPods [OF assms(4) new list] claim spec p by (simp add: found_pod_def p)
  qed
qed

section \<open>Runs in the closed loop\<close>

definition closed_loop :: "env \<Rightarrow> CliAppReconciler \<Rightarrow> CliApp \<Rightarrow> (call list \<Rightarrow> Pod \<Rightarrow> PodStatus) \<Rightarrow> nat \<Rightarrow> bool" where
  "closed_loop env r app0 st n \<longleftrightarrow> consistent app0 env \<and> runs_pods env st n \<and> startable env r app0 \<and> live_bound app0"

lemma closed_loopD:
  assumes "closed_loop env r app0 st n"
  shows "consistent app0 env" "runs_pods env st n" "startable env r app0" "live_bound app0" "\<exists>c. r_ToRESTConfig r () = Inr c"
    "validateApp app0 = None" "spec_Image (app_Spec app0) \<noteq> []" "TargetPhase app0 = CliAppPhaseLive"
  using assms by (auto simp: closed_loop_def startable_def proper_config_def live_bound_def)

lemma startable_spec: "app_Spec a = app_Spec b \<Longrightarrow> startable env r a = startable env r b"
  using validateApp_spec [of a b] by (simp add: startable_def)

lemma loop_run:
  assumes "closed_loop env r app0 st n" and "fixed_app app0 w"
    and "wp (bnd (makeAppLive env r (set_Error [] (stored_in app0 w))) (report_error env)) (\<lambda>_. P) (\<lambda>_. P) (got_app app0 w)"
  shows "P (run_once env r app0 w)"
proof -
  note loop = closed_loopD [OF assms(1)]
  have "wp (Reconcile env r (app_Namespace app0) (app_Name app0)) (\<lambda>_. P) (\<lambda>_. P) w"
    unfolding wp_Reconcile_stored [OF loop(1)]
    using live_bound_stored [OF assms(2) loop(4)] assms(3)
    by (simp add: live_bound_def reconcile_body_def)
  then show ?thesis unfolding run_once_def by (rule wp_final)
qed

lemma loop_run_start:
  assumes "closed_loop env r app0 st n" and "fixed_app app0 w"
    and "Phase (stored_in app0 w) \<in> {[], CliAppPhaseShuttingDown, CliAppPhaseWaitingForSessions,
          CliAppPhaseRest, CliAppPhaseBuilding}"
  shows "Phase (stored_in app0 (run_once env r app0 w)) = CliAppPhaseRecovering
    \<and> cluster_pods (w_calls (run_once env r app0 w)) = cluster_pods (w_calls w)"
  by (rule loop_run [OF assms(1,2)])
    (use assms closed_loopD(1) [OF assms(1)] live_bound_stored [OF assms(2) closed_loopD(4) [OF assms(1)]] in
      \<open>auto simp: live_bound_def makeAppLive_def building_case_def wp_simps wp_report_error Let_def
        transit_ok_def transited_def\<close>)

lemma loop_run_live:
  assumes "closed_loop env r app0 st n" and "fixed_app app0 w" and "at_most_own_pod env app0 w"
    and "Phase (stored_in app0 w) = CliAppPhaseLive"
  shows "cluster_pods (w_calls (run_once env r app0 w)) = cluster_pods (w_calls w)
    \<and> (case found_pod st app0 w of
         Some p \<Rightarrow> if IsPodReady p
           then Phase (stored_in app0 (run_once env r app0 w)) = CliAppPhaseLive \<and> PodName (stored_in app0 (run_once env r app0 w)) = pod_Name p
           else Phase (stored_in app0 (run_once env r app0 w)) = CliAppPhaseRecovering
       | None \<Rightarrow> Phase (stored_in app0 (run_once env r app0 w)) = CliAppPhaseRecovering)"
proof -
  note loop = closed_loopD [OF assms(1)]
  obtain c where c: "r_ToRESTConfig r () = Inr c" using loop(5) by blast
  note claim = wp_claim_own [OF loop(2) assms(2,3) c]
  have reads: "list_all reads (CGetApp (app_Namespace app0) (app_Name app0) # claim_calls app0)" by (simp add: claim_calls_def)
  show ?thesis
    by (rule loop_run [OF assms(1,2)])
      (use assms(4) loop(1) live_bound_stored [OF assms(2) loop(4)] reads_keep [OF reads] in
        \<open>auto simp: live_bound_def makeAppLive_def live_case_def claim wp_simps wp_report_error Let_def
          transit_ok_def transited_def split: option.splits\<close>)
qed

text \<open>A run that finds no pod while the app recovers makes one, and writes nothing.\<close>

lemma loop_run_creates:
  assumes "closed_loop env r app0 st n" and "fixed_app app0 w" and "cluster_pods (w_calls w) = []"
    and "Phase (stored_in app0 w) = CliAppPhaseRecovering"
  shows "\<exists>pre pod. w_calls (run_once env r app0 w) = listing app0 w @ pre @ [CCreatePod pod] \<and> list_all reads pre
    \<and> made_now env app0 pod"
proof -
  note loop = closed_loopD [OF assms(1)]
  obtain c where c: "r_ToRESTConfig r () = Inr c" using loop(5) by blast
  have "at_most_own_pod env app0 w" and None: "found_pod st app0 w = None"
    using assms(3) by (simp_all add: at_most_own_pod_def found_pod_def)
  note claim = wp_claim_own [OF loop(2) assms(2) this(1) c]
  let ?app = "set_Error [] (stored_in app0 w)"
  have spec: "app_Spec ?app = app_Spec app0" using assms(2) by (simp add: fixed_as_def)
  have "startable env r ?app" using loop(3) startable_spec [OF spec] by blast
  moreover have "\<exists>q. e_createPod env h = Inr q" for h using loop(2) by (simp add: runs_pods_def)
  ultimately have start: "wp (startApp env r ?app (encodeSpec (app_Spec ?app)) (computeHash env (app_Spec ?app)))
    (\<lambda>res t. (\<exists>q. res = Inr q) \<and> (\<exists>pre pod. w_calls t = listing app0 w @ pre @ [CCreatePod pod] \<and> list_all reads pre
       \<and> made_now env ?app pod)) (\<lambda>_ _. False) (w\<lparr>w_calls := listing app0 w\<rparr>)"
    using wp_startApp_makes [of env r ?app "w\<lparr>w_calls := listing app0 w\<rparr>"] by simp
  let ?P = "\<lambda>t. \<exists>pre pod. w_calls t = listing app0 w @ pre @ [CCreatePod pod] \<and> list_all reads pre \<and> made_now env app0 pod"
  have same: "app_Spec ?app = app_Spec (stored_in app0 w)" by simp
  have created: "wp (startApp env r ?app (encodeSpec (app_Spec (stored_in app0 w))) (computeHash env (app_Spec (stored_in app0 w))))
      (\<lambda>res t. (\<exists>q. res = Inr q) \<and> ?P t) (\<lambda>_ _. False) (w\<lparr>w_calls := listing app0 w\<rparr>)"
    by (rule wp_mono [OF start [unfolded same]]) (use made_now_stored [OF assms(2)] in blast)+
  show ?thesis
  proof (rule loop_run [OF assms(1,2)])
    have "makeAppLive env r ?app = recovering_case env r ?app"
      using assms(4) live_bound_stored [OF assms(2) loop(4)] by (simp add: live_bound_def makeAppLive_def)
    then show "wp (bnd (makeAppLive env r ?app) (report_error env)) (\<lambda>_. ?P) (\<lambda>_. ?P) (got_app app0 w)"
      by (simp only: recovering_case_def Let_def same wp_bnd claim None sum.case option.case)
        (rule wp_mono [OF created], auto simp: wp_report_error)
  qed
qed

lemma loop_run_recovering:
  assumes "closed_loop env r app0 st n" and "fixed_app app0 w" and "at_most_own_pod env app0 w"
    and "Phase (stored_in app0 w) = CliAppPhaseRecovering"
  shows "case found_pod st app0 w of
      Some p \<Rightarrow> cluster_pods (w_calls (run_once env r app0 w)) = cluster_pods (w_calls w)
        \<and> (if IsPodReady p
           then Phase (stored_in app0 (run_once env r app0 w)) = CliAppPhaseLive \<and> PodName (stored_in app0 (run_once env r app0 w)) = pod_Name p
           else Phase (stored_in app0 (run_once env r app0 w)) = CliAppPhaseRecovering)
    | None \<Rightarrow> Phase (stored_in app0 (run_once env r app0 w)) = CliAppPhaseRecovering
        \<and> (\<exists>p. cluster_pods (w_calls (run_once env r app0 w)) = [p] \<and> made_now env app0 p)"
proof -
  note loop = closed_loopD [OF assms(1)]
  obtain c where c: "r_ToRESTConfig r () = Inr c" using loop(5) by blast
  note claim = wp_claim_own [OF loop(2) assms(2,3) c]
  have reads: "list_all reads (CGetApp (app_Namespace app0) (app_Name app0) # claim_calls app0)" by (simp add: claim_calls_def)
  let ?app = "set_Error [] (stored_in app0 w)"
  have spec: "app_Spec ?app = app_Spec app0" using assms(2) by (simp add: fixed_as_def)
  have named: "pod_Name p \<noteq> []" if "found_pod st app0 w = Some p" for p
    using that assms(3) made_now_named by (auto simp: found_pod_def at_most_own_pod_def)
  show ?thesis
  proof (cases "found_pod st app0 w")
    case (Some p)
    show ?thesis
      unfolding Some option.case
      by (rule loop_run [OF assms(1,2)])
        (use assms(4) loop(1) live_bound_stored [OF assms(2) loop(4)] reads_keep [OF reads] named [OF Some] in
          \<open>auto simp: live_bound_def makeAppLive_def recovering_case_def claim Some wp_simps wp_report_error Let_def
            transit_ok_def transited_def\<close>)
  next
    case None
    then have empty: "cluster_pods (w_calls w) = []" by (simp add: found_pod_def split: list.splits)
    from loop_run_creates [OF assms(1,2) this assms(4)] obtain pre pod
      where t: "w_calls (run_once env r app0 w) = listing app0 w @ pre @ [CCreatePod pod]" "list_all reads pre" "made_now env app0 pod"
      by blast
    show ?thesis
      using t reads_keep [OF reads] reads_keep [OF t(2)] empty assms(4) by (simp add: None)
  qed
qed

section \<open>From nothing to live\<close>

definition in_loop :: "env \<Rightarrow> CliApp \<Rightarrow> world \<Rightarrow> bool" where
  "in_loop env app0 w \<longleftrightarrow> fixed_app app0 w \<and> at_most_own_pod env app0 w"

definition has_pod :: "env \<Rightarrow> CliApp \<Rightarrow> Pod \<Rightarrow> nat \<Rightarrow> world \<Rightarrow> bool" where
  "has_pod env app0 p k w \<longleftrightarrow> fixed_app app0 w \<and> cluster_pods (w_calls w) = [p] \<and> made_now env app0 p \<and> k \<le> length (w_calls w)"

lemma loop_fixed:
  assumes "closed_loop env r app0 st n" and "fixed_app app0 w"
  shows "fixed_app app0 (run_once env r app0 w)"
  using fixed_as_run [OF closed_loopD(1) [OF assms(1)] assms(2)] closed_loopD(7) [OF assms(1)] by blast

lemma declared_split:
  assumes "fixed_app app0 w"
  obtains (start) "Phase (stored_in app0 w) \<in> {[], CliAppPhaseShuttingDown, CliAppPhaseWaitingForSessions,
      CliAppPhaseRest, CliAppPhaseBuilding}"
  | (recovering) "Phase (stored_in app0 w) = CliAppPhaseRecovering"
  | (live) "Phase (stored_in app0 w) = CliAppPhaseLive"
  using assms by (auto simp: fixed_as_def declared_phases_def)

text \<open>Without a pod one run leads to Recovering, and the next one makes the pod.\<close>

lemma loop_makes_pod:
  assumes "closed_loop env r app0 st n" and "fixed_app app0 w" and "cluster_pods (w_calls w) = []"
  shows "\<exists>k p. has_pod env app0 p 0 ((run_once env r app0 ^^ k) w)"
proof -
  let ?run = "run_once env r app0"
  have made: "\<exists>p. has_pod env app0 p 0 (?run u)"
    if "fixed_app app0 u" "cluster_pods (w_calls u) = []" "Phase (stored_in app0 u) = CliAppPhaseRecovering" for u
    using loop_run_recovering [OF assms(1) that(1) _ that(3)] loop_fixed [OF assms(1) that(1)] that(2)
    by (auto simp: at_most_own_pod_def found_pod_def has_pod_def)
  show ?thesis
    using assms(2)
  proof (cases rule: declared_split)
    case recovering
    with made [OF assms(2,3)] show ?thesis by (intro exI [of _ 1]) simp
  next
    case start
    with made [OF loop_fixed [OF assms(1,2)]] loop_run_start [OF assms(1,2)] assms(3)
    show ?thesis by (intro exI [of _ 2]) (simp add: numeral_2_eq_2)
  next
    case live
    have "Phase (stored_in app0 (?run w)) = CliAppPhaseRecovering \<and> cluster_pods (w_calls (?run w)) = []"
      using loop_run_live [OF assms(1,2) _ live] assms(3) by (simp add: at_most_own_pod_def found_pod_def)
    with made [OF loop_fixed [OF assms(1,2)]] show ?thesis by (intro exI [of _ 2]) (simp add: numeral_2_eq_2)
  qed
qed

text \<open>A ready pod is kept, and its name is in the status from then on.\<close>

definition up_with :: "env \<Rightarrow> CliApp \<Rightarrow> Pod \<Rightarrow> nat \<Rightarrow> world \<Rightarrow> bool" where
  "up_with env app0 p k w \<longleftrightarrow> has_pod env app0 p k w
     \<and> Phase (stored_in app0 w) = CliAppPhaseLive \<and> PodName (stored_in app0 w) = pod_Name p"

lemma has_pod_found:
  "has_pod env app0 p k w \<Longrightarrow> at_most_own_pod env app0 w \<and> found_pod st app0 w = Some (with_status st (listing app0 w) p)"
  by (simp add: has_pod_def at_most_own_pod_def found_pod_def)

lemma longer_run: "k \<le> length (w_calls w) \<Longrightarrow> k \<le> length (w_calls (run_once env r app0 w))"
  using run_progress.grows [of w env r app0] by simp

lemma has_pod_run:
  assumes "closed_loop env r app0 st n" and "has_pod env app0 p k w"
  shows "has_pod env app0 p k (run_once env r app0 w)"
proof -
  have w: "fixed_app app0 w" using assms(2) by (simp add: has_pod_def)
  note found = has_pod_found [OF assms(2), of st]
  have "cluster_pods (w_calls (run_once env r app0 w)) = cluster_pods (w_calls w)"
    using w
  proof (cases rule: declared_split)
    case start
    then show ?thesis using loop_run_start [OF assms(1) w] by blast
  next
    case recovering
    then show ?thesis using loop_run_recovering [OF assms(1) w _ recovering] found by simp
  next
    case live
    then show ?thesis using loop_run_live [OF assms(1) w _ live] found by blast
  qed
  then show ?thesis using assms loop_fixed [OF assms(1) w] longer_run [of k w] by (simp add: has_pod_def)
qed

lemma ready_pod_run:
  assumes "closed_loop env r app0 st n" and "has_pod env app0 p n w"
    and "Phase (stored_in app0 w) = CliAppPhaseRecovering \<or> Phase (stored_in app0 w) = CliAppPhaseLive"
  shows "up_with env app0 p n (run_once env r app0 w)"
proof -
  have w: "fixed_app app0 w" "n \<le> length (listing app0 w)" using assms(2) by (simp_all add: has_pod_def)
  note found = has_pod_found [OF assms(2), of st]
  have "IsPodReady (with_status st (listing app0 w) p)"
    using closed_loopD(2) [OF assms(1)] w(2) unfolding runs_pods_def by blast
  then show ?thesis
    using assms(3) has_pod_run [OF assms(1,2)] found
      loop_run_recovering [OF assms(1) w(1)] loop_run_live [OF assms(1) w(1)]
    by (auto simp: up_with_def)
qed

lemma pod_leads_to_live:
  assumes "closed_loop env r app0 st n" and "has_pod env app0 p 0 w"
  shows "\<exists>k. up_with env app0 p n ((run_once env r app0 ^^ k) w)"
proof -
  let ?run = "run_once env r app0" and ?w = "(run_once env r app0 ^^ n) w"
  have "has_pod env app0 p 0 ?w"
    by (rule run_progress.kept_funpow [of "has_pod env app0 p 0"]) (use has_pod_run [OF assms(1)] assms(2) in auto)
  moreover have "n \<le> length (w_calls ?w)" using run_progress.size_funpow [of w n env r app0] by linarith
  ultimately have late: "has_pod env app0 p n ?w" by (simp add: has_pod_def)
  have "\<exists>k. up_with env app0 p n ((?run ^^ k) ?w)"
  proof (cases "Phase (stored_in app0 ?w) = CliAppPhaseRecovering \<or> Phase (stored_in app0 ?w) = CliAppPhaseLive")
    case True
    from ready_pod_run [OF assms(1) late True] show ?thesis by (intro exI [of _ 1]) simp
  next
    case False
    have fixed: "fixed_app app0 ?w" using late by (simp add: has_pod_def)
    from this False have "Phase (stored_in app0 (?run ?w)) = CliAppPhaseRecovering"
      by (cases rule: declared_split) (use loop_run_start [OF assms(1) fixed] in auto)
    from ready_pod_run [OF assms(1) has_pod_run [OF assms(1) late] disjI1 [OF this]]
    show ?thesis by (intro exI [of _ 2]) (simp add: numeral_2_eq_2)
  qed
  then show ?thesis by (metis funpow_add comp_apply)
qed

text \<open>
  C5. An app comes up from nothing. In a cluster that runs the pods that it is given, an app that shall be live, whose image can be read and whose host paths and
  variables are well formed, reaches the phase Live after finitely many runs, from every declared phase and from none. Exactly one pod is in the cluster
  from then on: one that the controller made for the app as it is; its name is in the status, and the app stays live.
\<close>

theorem app_comes_up_from_nothing:
  assumes "closed_loop env r app0 st n" and "Phase app0 \<in> insert [] declared_phases" and "w_calls w = []"
  shows "\<exists>k p. made_now env app0 p \<and> (\<forall>j \<ge> k. let w' = (run_once env r app0 ^^ j) w in
     cluster_pods (w_calls w') = [p] \<and> Phase (stored_in app0 w') = CliAppPhaseLive
     \<and> PodName (stored_in app0 w') = pod_Name p \<and> app_Spec (stored_in app0 w') = app_Spec app0)"
proof -
  have start: "fixed_app app0 w" "cluster_pods (w_calls w) = []" using assms(2,3) by (simp_all add: fixed_as_def)
  from loop_makes_pod [OF assms(1) this] obtain i p where "has_pod env app0 p 0 ((run_once env r app0 ^^ i) w)" by blast
  from pod_leads_to_live [OF assms(1) this] have "\<exists>k. up_with env app0 p n ((run_once env r app0 ^^ k) w)"
    by (metis funpow_add comp_apply)
  then have "\<exists>k. \<forall>j \<ge> k. up_with env app0 p n ((run_once env r app0 ^^ j) w)"
  proof (rule run_progress.stays)
    show "up_with env app0 p n (run_once env r app0 u)" if "up_with env app0 p n u" for u
      by (rule ready_pod_run [OF assms(1)]) (use that in \<open>simp_all add: up_with_def\<close>)
  qed
  then obtain k where k: "\<And>j. k \<le> j \<Longrightarrow> up_with env app0 p n ((run_once env r app0 ^^ j) w)" by blast
  then have "made_now env app0 p" by (auto simp: up_with_def has_pod_def)
  with k show ?thesis
    by (intro exI [of _ k] exI [of _ p]) (auto simp: up_with_def has_pod_def fixed_as_def Let_def)
qed

section \<open>The test of the controller\<close>

text \<open>
  controllers/cliapp_controller_test.go creates this app, and expects it to be live at some time; the UID is the server's.
\<close>

definition test_CliApp :: CliApp where
  "test_CliApp =
     \<lparr>app_APIVersion = ''core.cliapp.warm-metal.tech/v1'', app_Kind = ''CliApp'', app_Name = ''ctr'', app_Namespace = ''app'', app_UID = ''u1'',
      app_Spec = \<lparr>spec_Fork = None, spec_Image = ''docker.io/warmmetal/ctr:v1'', spec_Dockerfile = [], spec_Command = [''ctr''],
        spec_HostPath = [''/var/run/containerd/containerd.sock''], spec_Env = [], spec_Distro = [], spec_Shell = [],
        spec_TargetPhase = CliAppPhaseLive, spec_UninstallUnlessLive = False\<rparr>,
      app_Status = \<lparr>status_Phase = [], status_LastPhaseTransition = 0, status_PodName = [], status_Error = []\<rparr>\<rparr>"

text \<open>A cluster in which a pod is ready after thirty calls.\<close>

definition slow_status :: "call list \<Rightarrow> Pod \<Rightarrow> PodStatus" where
  "slow_status h p =
     \<lparr>pst_Phase = ''Running'', pst_Conditions = [\<lparr>pc_Type = ''Ready'', pc_Status = (if 30 \<le> length h then ''True'' else ''False'')\<rparr>]\<rparr>"

definition slow_cluster :: "CliApp \<Rightarrow> env" where
  "slow_cluster app = (quiet_env app [])\<lparr>e_clientListPods := \<lambda>h. Inr (map (with_status slow_status h) (cluster_pods h))\<rparr>"

lemma test_in_slow_cluster:
  assumes same: "app_Spec app = app_Spec test_CliApp"
  shows "closed_loop (slow_cluster app) sample_reconciler app slow_status 30"
proof -
  have path: "parse_hostpath ''/var/run/containerd/containerd.sock'' =
      Inr (''/var/run/containerd/containerd.sock'', ''/var/run/containerd/containerd.sock'')"
    by code_simp
  have spec: "validateApp app = None" "spec_Fork (app_Spec app) = None" "TargetPhase app = CliAppPhaseLive"
    "spec_HostPath (app_Spec app) = [''/var/run/containerd/containerd.sock'']" "spec_Env (app_Spec app) = []"
    "spec_Image (app_Spec app) \<noteq> []"
    by (simp_all add: same test_CliApp_def validateApp_def)
  have "consistent app (slow_cluster app)" by (simp add: consistent_def slow_cluster_def quiet_env_def)
  moreover have "runs_pods (slow_cluster app) slow_status 30"
    by (simp add: runs_pods_def slow_cluster_def quiet_env_def with_status_def slow_status_def IsPodReady_find)
  moreover have "startable (slow_cluster app) sample_reconciler app"
    by (simp add: startable_def spec path proper_config_def sample_reconciler_def slow_cluster_def quiet_env_def Let_def)
  moreover have "live_bound app" using spec by (simp add: live_bound_def)
  ultimately show ?thesis by (simp add: closed_loop_def)
qed

lemma app_comes_up_from_nothing_witness:
  "\<exists>k. \<forall>j \<ge> k. Phase (stored_in test_CliApp ((run_once (slow_cluster test_CliApp) sample_reconciler test_CliApp ^^ j) idle_world)) = CliAppPhaseLive"
proof -
  have "Phase test_CliApp \<in> insert [] declared_phases" "w_calls idle_world = []"
    by (simp_all add: test_CliApp_def idle_world_def)
  from app_comes_up_from_nothing [OF test_in_slow_cluster [OF refl] this] show ?thesis unfolding Let_def by blast
qed

end
