(* ===== verification/SessionApp.thy ===== *)
theory SessionApp
  imports Store
begin

text \<open>
  pkg/gate/session.go: what the session gate does to an app. \<open>session_startApp\<close> and
  \<open>session_closeApp\<close> are the methods \<open>startApp\<close> and \<open>closeApp\<close> of an \<open>appSession\<close>; \<open>watch_loop\<close> is the
  \<open>for\<close> loop of the former. Deadlines show as errors of the calls. The lines that the loop writes to the
  client are part of its result.
\<close>

section \<open>The watch loop\<close>

text \<open>
  An event of the watch: the types of \<open>watch.Event\<close>, where an error carries a status or something else, as its
  text, and any other type is \<open>OtherType\<close>.
\<close>

datatype watch_event =
    Added CliApp | Modified CliApp | Deleted | StatusError string | UnknownError string | OtherType string

text \<open>What one \<open>select\<close> yields: an event, the closed result channel, or the end of the context with its error.\<close>

datatype selected = Event watch_event | ChanClosed | CtxDone "goerror option"

text \<open>\<open>Waiting\<close>: the loop is blocked in \<open>select\<close>, nothing more having happened.\<close>

datatype watch_result = Waiting | Returned "goerror + CliApp" | LoopPanic string

definition progress_lines :: "CliApp \<Rightarrow> string list" where
  "progress_lines app =
     (if Phase app = CliAppPhaseRecovering then
        (if spec_UninstallUnlessLive (app_Spec app) then [''preparing Pods...''] else [])
      else if Phase app = CliAppPhaseWaitingForSessions then []
      else if Phase app = CliAppPhaseBuilding then [''building image...'']
      else [''preparing Pods...''])"

fun watch_loop :: "selected list \<Rightarrow> string list \<times> watch_result" where
  "watch_loop [] = ([], Waiting)"
| "watch_loop (s # ss) =
     (let changed = (\<lambda>app.
        if Phase app = CliAppPhaseLive then ([], Returned (Inr app))
        else if length (status_Error (app_Status app)) > 0 then
          ([], Returned (Inl (Errorf (status_Error (app_Status app)))))
        else (case watch_loop ss of (out, r) \<Rightarrow> (progress_lines app @ out, r)))
      in case s of
        ChanClosed \<Rightarrow> ([], Returned (Inl (Errorf ''remote watch closed'')))
      | Event (Added app) \<Rightarrow> changed app
      | Event (Modified app) \<Rightarrow> changed app
      | Event Deleted \<Rightarrow> ([], Returned (Inl (Errorf ''app is deleted'')))
      | Event (StatusError st) \<Rightarrow> ([], Returned (Inl (Errorf (''failed '' @ st))))
      | Event (UnknownError st) \<Rightarrow> ([], Returned (Inl (Errorf (''unknown error:'' @ st))))
      | Event (OtherType t) \<Rightarrow> ([], LoopPanic t)
      | CtxDone err \<Rightarrow>
          ([], Returned (Inl (case err of Some e \<Rightarrow> e | None \<Rightarrow> Errorf ''context closed''))))"

section \<open>startApp\<close>

text \<open>
  The closure that is retried: it reads the app and, unless it is live or shall be, sets its target phase. The
  variable that it assigns holds the app that was read or stored last; after an error nobody reads it.
\<close>

definition start_attempt ::
  "env \<Rightarrow> string \<Rightarrow> string \<Rightarrow> CliApp option \<Rightarrow> (world, goerror option \<times> CliApp option) go" where
  "start_attempt env ns name = (\<lambda>app.
     bnd (ask (CGetApp ns name) (e_getApp env)) (\<lambda>resp.
     case resp of
       Inl err \<Rightarrow> ret (Some err, app)
     | Inr app \<Rightarrow>
         if Phase app = CliAppPhaseLive \<or> TargetPhase app = CliAppPhaseLive then ret (None, Some app)
         else
           bnd (ask (CUpdate (set_TargetPhase CliAppPhaseLive app)) (e_update env)) (\<lambda>resp.
           case resp of
             Inl err \<Rightarrow> ret (Some err, Some app)
           | Inr updated \<Rightarrow> ret (None, Some updated))))"

text \<open>\<open>watch\<close> answers the \<open>Watch\<close> call: an error, or what the loop's \<open>select\<close> will yield.\<close>

definition session_startApp ::
  "env \<Rightarrow> (call list \<Rightarrow> goerror + selected list) \<Rightarrow> string \<Rightarrow> string
     \<Rightarrow> (world, string list \<times> watch_result) go" where
  "session_startApp env watch ns name =
     bnd (RetryOnConflict (e_retrySteps env) (start_attempt env ns name) None) (\<lambda>(err, app).
     case err of
       Some e \<Rightarrow> ret ([], Returned (Inl e))
     | None \<Rightarrow>
         (case app of
            None \<Rightarrow> throw ''nil pointer dereference''
          | Some app \<Rightarrow>
              if Phase app = CliAppPhaseLive then ret ([], Returned (Inr app))
              else
                bnd (ask (CWatchApp (app_Namespace app) (app_Name app)) watch) (\<lambda>watcher.
                case watcher of
                  Inl e \<Rightarrow> ret ([], Returned (Inl e))
                | Inr selects \<Rightarrow>
                    (case watch_loop selects of
                       (out, LoopPanic t) \<Rightarrow> throw t
                     | r \<Rightarrow> ret r))))"

section \<open>closeApp\<close>

definition close_attempt ::
  "env \<Rightarrow> string \<Rightarrow> string \<Rightarrow> unit \<Rightarrow> (world, goerror option \<times> unit) go" where
  "close_attempt env ns name = (\<lambda>_.
     bnd (ask (CGetApp ns name) (e_getApp env)) (\<lambda>resp.
     case resp of
       Inl err \<Rightarrow> ret (Some err, ())
     | Inr app \<Rightarrow>
         if TargetPhase app = CliAppPhaseRest then ret (None, ())
         else
           bnd (ask (CUpdate (set_TargetPhase CliAppPhaseRest app)) (e_update env)) (\<lambda>resp.
           case resp of
             Inl err \<Rightarrow> ret (Some err, ())
           | Inr updated \<Rightarrow> ret (None, ()))))"

definition session_closeApp :: "env \<Rightarrow> string \<Rightarrow> string \<Rightarrow> (world, goerror option) go" where
  "session_closeApp env ns name =
     bnd (RetryOnConflict (e_retrySteps env) (close_attempt env ns name) ()) (\<lambda>(err, _). ret err)"

section \<open>Properties\<close>

text \<open>An event that tells the loop nothing final: a change of an app that is not live and has no error.\<close>

fun pending :: "selected \<Rightarrow> bool" where
  "pending (Event (Added a)) = (Phase a \<noteq> CliAppPhaseLive \<and> status_Error (app_Status a) = [])"
| "pending (Event (Modified a)) = (Phase a \<noteq> CliAppPhaseLive \<and> status_Error (app_Status a) = [])"
| "pending s = False"

fun selected_lines :: "selected \<Rightarrow> string list" where
  "selected_lines (Event (Added a)) = progress_lines a"
| "selected_lines (Event (Modified a)) = progress_lines a"
| "selected_lines s = []"

lemma watch_loop_pending:
  "list_all pending pre \<Longrightarrow>
     watch_loop (pre @ ss) = (concat (map selected_lines pre) @ fst (watch_loop ss), snd (watch_loop ss))"
proof (induction pre)
  case (Cons s pre)
  then show ?case by (cases s rule: pending.cases) (simp_all add: Let_def)
qed simp

lemma watch_loop_final: "\<not> pending s \<Longrightarrow> watch_loop (s # ss) = watch_loop [s] \<and> fst (watch_loop [s]) = []
    \<and> snd (watch_loop [s]) \<noteq> Waiting"
  by (cases s rule: pending.cases) (auto simp: Let_def)

lemma watch_loop_eq:
  "watch_loop ss = (concat (map selected_lines (takeWhile pending ss)),
     case dropWhile pending ss of [] \<Rightarrow> Waiting | s # post \<Rightarrow> snd (watch_loop [s]))"
proof (induction ss)
  case (Cons s ss)
  show ?case
  proof (cases "pending s")
    case True
    with watch_loop_pending [of "[s]" ss] Cons show ?thesis by simp
  next
    case False
    with watch_loop_final [of s ss] show ?thesis by (simp add: prod_eq_iff)
  qed
qed simp

lemma watch_loop_live_event:
  "\<not> pending s \<Longrightarrow> snd (watch_loop [s]) = Returned (Inr app) \<longleftrightarrow>
     (s = Event (Added app) \<or> s = Event (Modified app)) \<and> Phase app = CliAppPhaseLive"
  by (cases s rule: pending.cases) (auto simp: Let_def)

lemma dropWhile_split: "dropWhile P xs = x # post \<longleftrightarrow> (\<exists>pre. xs = pre @ x # post \<and> list_all P pre \<and> \<not> P x)"
proof
  assume d: "dropWhile P xs = x # post"
  then have "xs = takeWhile P xs @ x # post" by (metis takeWhile_dropWhile_id)
  moreover have "list_all P (takeWhile P xs)" by (auto simp: list_all_iff dest: set_takeWhileD)
  moreover have "\<not> P x" using d by (metis hd_dropWhile list.sel(1) list.distinct(1))
  ultimately show "\<exists>pre. xs = pre @ x # post \<and> list_all P pre \<and> \<not> P x" by blast
qed (auto simp: list_all_iff dropWhile_append2)

text \<open>
  C30. The gate waits for an app to become live and for nothing less: it goes on waiting as long as the app only changes
  without an error and without being live, reporting the progress of each change in order; the first other event
  ends the wait, with the app exactly if that event is a change to an app in phase Live.
\<close>

theorem watch_loop_spec:
  "(snd (watch_loop ss) = Waiting \<longleftrightarrow> list_all pending ss)
   \<and> (snd (watch_loop ss) = Returned (Inr app) \<longleftrightarrow>
        (\<exists>pre s post. ss = pre @ s # post \<and> list_all pending pre
           \<and> (s = Event (Added app) \<or> s = Event (Modified app)) \<and> Phase app = CliAppPhaseLive))
   \<and> fst (watch_loop ss) = concat (map selected_lines (takeWhile pending ss))"
proof (intro conjI)
  have final: "snd (watch_loop [s]) \<noteq> Waiting" if "\<not> pending s" for s
    using watch_loop_final [OF that, of "[]"] by simp
  show "snd (watch_loop ss) = Waiting \<longleftrightarrow> list_all pending ss"
  proof (cases "dropWhile pending ss")
    case Nil
    then have "list_all pending ss" by (simp add: dropWhile_eq_Nil_conv list_all_iff)
    then show ?thesis unfolding watch_loop_eq [of ss] Nil by simp
  next
    case (Cons s post)
    then have "\<not> pending s" "\<not> list_all pending ss" unfolding dropWhile_split by auto
    with final [of s] Cons show ?thesis by (simp add: watch_loop_eq [of ss])
  qed
  show "snd (watch_loop ss) = Returned (Inr app) \<longleftrightarrow>
        (\<exists>pre s post. ss = pre @ s # post \<and> list_all pending pre
           \<and> (s = Event (Added app) \<or> s = Event (Modified app)) \<and> Phase app = CliAppPhaseLive)" (is "?l \<longleftrightarrow> ?r")
  proof
    assume ?l
    then obtain s post where d: "dropWhile pending ss = s # post" and r: "snd (watch_loop [s]) = Returned (Inr app)"
      by (auto simp: watch_loop_eq [of ss] split: list.splits)
    from d obtain pre where "ss = pre @ s # post" "list_all pending pre" "\<not> pending s"
      unfolding dropWhile_split by blast
    with watch_loop_live_event r show ?r by blast
  next
    assume ?r
    then obtain pre s post where "ss = pre @ s # post" "list_all pending pre"
      and s: "s = Event (Added app) \<or> s = Event (Modified app)" "Phase app = CliAppPhaseLive" by blast
    moreover have "\<not> pending s" using s by auto
    ultimately have "dropWhile pending ss = s # post" unfolding dropWhile_split by blast
    then show ?l using watch_loop_live_event [OF \<open>\<not> pending s\<close>] s by (simp add: watch_loop_eq [of ss])
  qed
  show "fst (watch_loop ss) = concat (map selected_lines (takeWhile pending ss))"
    by (simp add: watch_loop_eq [of ss])
qed

lemma watch_loop_Inr_live: "snd (watch_loop ss) = Returned (Inr app) \<Longrightarrow> Phase app = CliAppPhaseLive"
  by (induction ss rule: watch_loop.induct)
    (auto simp: Let_def split: selected.splits watch_event.splits if_splits prod.splits)

text \<open>What the gate may ask of the API for an app: to read it, and to set the target phase of what it read.\<close>

definition gate_call_ok :: "env \<Rightarrow> CliAppPhase \<Rightarrow> string \<Rightarrow> string \<Rightarrow> call \<Rightarrow> bool" where
  "gate_call_ok env target ns name c \<longleftrightarrow>
     (case c of
        CGetApp ns' name' \<Rightarrow> ns' = ns \<and> name' = name
      | CUpdate a \<Rightarrow> (\<exists>h read. e_getApp env h = Inr read \<and> TargetPhase read \<noteq> target
          \<and> a = set_TargetPhase target read)
      | CWatchApp ns' name' \<Rightarrow> target = CliAppPhaseLive
      | _ \<Rightarrow> False)"

lemma calls_start_attempt:
  "calls_only (gate_call_ok env CliAppPhaseLive ns name) (start_attempt env ns name a)
     (\<lambda>(err, app). err = None \<longrightarrow> app \<noteq> None)"
  unfolding start_attempt_def
  by (intro triple_intros) (auto simp: gate_call_ok_def)

lemma calls_session_startApp:
  "calls_only (gate_call_ok env CliAppPhaseLive ns name) (session_startApp env watch ns name)
     (\<lambda>(out, r). \<forall>app. r = Returned (Inr app) \<longrightarrow> Phase app = CliAppPhaseLive)"
proof -
  have retry: "calls_only (gate_call_ok env CliAppPhaseLive ns name)
      (RetryOnConflict n (start_attempt env ns name) a) (\<lambda>_. True)" for n a
    by (rule emitting.triple_RetryOnConflict [where J = "\<lambda>_. True"])
      (auto intro: calls_mono [OF calls_start_attempt])
  have loop: "calls_only P (case watch_loop selects of (out, LoopPanic t) \<Rightarrow> throw t | r \<Rightarrow> ret r)
      (\<lambda>(out, r). \<forall>app. r = Returned (Inr app) \<longrightarrow> Phase app = CliAppPhaseLive)" for P selects
    using watch_loop_Inr_live [of selects]
    by (cases "watch_loop selects"; cases "snd (watch_loop selects)") (auto intro!: triple_intros)
  show ?thesis
    unfolding session_startApp_def
    by (intro triple_intros emitting.triple_bnd [OF retry] loop) (auto simp: gate_call_ok_def)
qed

lemma calls_session_closeApp:
  "calls_only (gate_call_ok env CliAppPhaseRest ns name) (session_closeApp env ns name) (\<lambda>_. True)"
proof -
  have attempt: "calls_only (gate_call_ok env CliAppPhaseRest ns name) (close_attempt env ns name a) (\<lambda>_. True)" for a
    unfolding close_attempt_def by (intro triple_intros) (auto simp: gate_call_ok_def)
  have retry: "calls_only (gate_call_ok env CliAppPhaseRest ns name)
      (RetryOnConflict n (close_attempt env ns name) a) (\<lambda>_. True)" for n a
    by (rule emitting.triple_RetryOnConflict [where J = "\<lambda>_. True"])
      (auto intro: calls_mono [OF attempt])
  show ?thesis
    unfolding session_closeApp_def by (intro triple_intros emitting.triple_bnd [OF retry])
qed

text \<open>
  C31. Opening an app returns it only live. Opening, the gate only reads the app, watches it, and updates what it
  read by setting its target phase to Live; closing, it only reads the app and updates what it read by setting its
  target phase to Rest. Neither writes to an app that has the target phase already, and every retry
  starts from a new read.
\<close>

theorem session_app_calls:
  "(case session_startApp env watch ns name w of (out, w') \<Rightarrow>
      (\<exists>new. w_calls w' = w_calls w @ new \<and> list_all (gate_call_ok env CliAppPhaseLive ns name) new)
    \<and> (\<forall>lines app. out = Done (lines, Returned (Inr app)) \<longrightarrow> Phase app = CliAppPhaseLive))
   \<and> (case session_closeApp env ns name w of (out, w') \<Rightarrow>
      \<exists>new. w_calls w' = w_calls w @ new \<and> list_all (gate_call_ok env CliAppPhaseRest ns name) new)"
proof -
  obtain out w' where run: "session_startApp env watch ns name w = (out, w')" by force
  obtain out' w'' where close: "session_closeApp env ns name w = (out', w'')" by force
  from tripleD(1,2) [OF calls_session_startApp run] tripleD(1) [OF calls_session_closeApp close]
  show ?thesis by (auto simp: run close emits_def)
qed

lemma session_app_calls_witness:
  "case session_startApp (quiet_env sample_app []) (\<lambda>h. Inr [Event (Modified (set_Phase CliAppPhaseLive sample_app))])
      ''default'' ''box'' idle_world of (out, w') \<Rightarrow>
     \<exists>new. w_calls w' = new \<and> list_all (gate_call_ok (quiet_env sample_app []) CliAppPhaseLive ''default'' ''box'') new"
proof -
  have "w_calls idle_world = []" by (simp add: idle_world_def)
  with session_app_calls [where env = "quiet_env sample_app []" and name = "''box''" and ns = "''default''"
      and watch = "\<lambda>h. Inr [Event (Modified (set_Phase CliAppPhaseLive sample_app))]" and w = idle_world]
  show ?thesis by (simp only: append_Nil case_prod_beta)
qed

end
