(* ===== verification/EndToEnd.thy ===== *)
theory EndToEnd
  imports ComesUp SessionApp
begin

text \<open>
  The gate and the controller together. They share nothing but the stored app: the gate sets its target phase and watches
  it, the controller, run again and again, moves it there, and the watch reports the app as each run left it.
\<close>

text \<open>
  The app as the \<open>j\<close>-th run of the controller left it, and what a watch yields that starts after some run and reports the app after later ones: the first
  event adds the app, as Kubernetes documents of a watch with no resource version, the others are changes. It may skip runs, and report a state several times.
\<close>

definition app_after :: "env \<Rightarrow> CliAppReconciler \<Rightarrow> CliApp \<Rightarrow> world \<Rightarrow> nat \<Rightarrow> CliApp" where
  "app_after env r app w j = stored_in app ((run_once env r app ^^ j) w)"

definition reports :: "env \<Rightarrow> CliAppReconciler \<Rightarrow> CliApp \<Rightarrow> world \<Rightarrow> nat \<Rightarrow> nat list \<Rightarrow> selected list" where
  "reports env r app w i js =
     Event (Added (app_after env r app w i)) # map (\<lambda>j. Event (Modified (app_after env r app w j))) js"

text \<open>Without an error in any of them, a stream of reports with a live one among them ends the wait with the first live app.\<close>

lemma watch_changes:
  assumes "\<And>j. status_Error (app_Status (app_after env r app w j)) = []"
    and "k \<in> set js" and "Phase (app_after env r app w k) = CliAppPhaseLive"
  shows "\<exists>j. Phase (app_after env r app w j) = CliAppPhaseLive
    \<and> snd (watch_loop (map (\<lambda>j. Event (Modified (app_after env r app w j))) js)) = Returned (Inr (app_after env r app w j))"
  using assms(2)
proof (induction js)
  case (Cons i js)
  show ?case
  proof (cases "Phase (app_after env r app w i) = CliAppPhaseLive")
    case False
    with Cons.prems assms(3) have "k \<in> set js" by auto
    from Cons.IH [OF this] False assms(1) show ?thesis by (auto simp: Let_def split: prod.splits)
  qed (auto simp: Let_def)
qed simp

lemma watch_reports:
  assumes "\<And>j. status_Error (app_Status (app_after env r app w j)) = []"
    and "k \<in> set (i # js)" and "Phase (app_after env r app w k) = CliAppPhaseLive"
  shows "\<exists>j. Phase (app_after env r app w j) = CliAppPhaseLive
    \<and> snd (watch_loop (reports env r app w i js)) = Returned (Inr (app_after env r app w j))"
proof (cases "Phase (app_after env r app w i) = CliAppPhaseLive")
  case False
  with assms(2,3) have "k \<in> set js" by auto
  from watch_changes [OF assms(1) this assms(3)] False assms(1) show ?thesis
    by (auto simp: reports_def Let_def split: prod.splits)
qed (auto simp: reports_def Let_def)

text \<open>
  The gate's part: the app that it reads is at rest, the update is stored, and it watches.
\<close>

lemma startApp_from_rest:
  assumes "\<forall>h. e_getApp ge h = Inr app0" and "\<forall>h. e_update ge h = Inr (set_TargetPhase CliAppPhaseLive app0)"
    and "0 < e_retrySteps ge"
    and "Phase app0 \<noteq> CliAppPhaseLive" and "TargetPhase app0 \<noteq> CliAppPhaseLive"
    and "\<And>t. snd (watch_loop selects) \<noteq> LoopPanic t"
  shows "fst (session_startApp ge (\<lambda>_. Inr selects) ns name w) = Done (watch_loop selects)"
proof -
  obtain n where n: "e_retrySteps ge = Suc n" using assms(3) gr0_implies_Suc by blast
  obtain out res where loop: "watch_loop selects = (out, res)" by force
  show ?thesis
    using assms(1,2,4,5) assms(6) [unfolded loop] loop
    by (cases res) (auto simp: session_startApp_def start_attempt_def n bnd_def ask_def ret_def Let_def)
qed

section \<open>No run leaves an error\<close>

definition no_error :: "CliApp \<Rightarrow> world \<Rightarrow> bool" where
  "no_error app0 w \<longleftrightarrow> status_Error (app_Status (stored_in app0 w)) = []"

text \<open>In the closed loop every run starts and ends without an error in the status, with no pod or with the app's own.\<close>

definition goes_well :: "env \<Rightarrow> CliApp \<Rightarrow> world \<Rightarrow> bool" where
  "goes_well env app0 w \<longleftrightarrow> fixed_app app0 w \<and> at_most_own_pod env app0 w \<and> no_error app0 w
     \<and> (Phase (stored_in app0 w) = CliAppPhaseLive \<longrightarrow> (\<exists>p. cluster_pods (w_calls w) = [p] \<and> PodName (stored_in app0 w) = pod_Name p))"

lemma run_leaves_no_error:
  assumes "closed_loop env r app0 st n" and "fixed_app app0 w" and "at_most_own_pod env app0 w" and "no_error app0 w"
  shows "no_error app0 (run_once env r app0 w)"
proof -
  note loop = closed_loopD [OF assms(1)]
  note bound = live_bound_stored [OF assms(2) loop(4)]
  obtain c where c: "r_ToRESTConfig r () = Inr c" using loop(5) by blast
  note claim = wp_claim_own [OF loop(2) assms(2,3) c]
  have reads: "list_all reads (CGetApp (app_Namespace app0) (app_Name app0) # claim_calls app0)" by (simp add: claim_calls_def)
  note run = loop_run [OF assms(1,2), of "no_error app0"]
  note unfolds = live_bound_def makeAppLive_def claim wp_simps wp_report_error Let_def transit_ok_def transited_def no_error_def
  show ?thesis
    using assms(2)
  proof (cases rule: declared_split)
    case start
    show ?thesis
      by (rule run) (use start assms(4) loop(1) bound in \<open>auto simp: unfolds building_case_def\<close>)
  next
    case live
    show ?thesis
      by (rule run) (use live assms(4) loop(1) bound reads_keep [OF reads] in \<open>auto simp: unfolds live_case_def split: option.splits\<close>)
  next
    case recovering
    show ?thesis
    proof (cases "found_pod st app0 w")
      case (Some p)
      then have "pod_Name p \<noteq> []" using assms(3) made_now_named by (auto simp: found_pod_def at_most_own_pod_def)
      then show ?thesis
        by (intro run) (use recovering assms(4) loop(1) bound reads_keep [OF reads] Some in \<open>auto simp: unfolds recovering_case_def\<close>)
    next
      case None
      then have "cluster_pods (w_calls w) = []" by (simp add: found_pod_def split: list.splits)
      from loop_run_creates [OF assms(1,2) this recovering] obtain pre pod
        where t: "w_calls (run_once env r app0 w) = listing app0 w @ pre @ [CCreatePod pod]" "list_all reads pre" by blast
      show ?thesis using t reads_keep [OF reads] reads_keep [OF t(2)] assms(4) by (simp add: no_error_def)
    qed
  qed
qed

lemma goes_well_run:
  assumes "closed_loop env r app0 st n" and "goes_well env app0 w"
  shows "goes_well env app0 (run_once env r app0 w)"
proof -
  have w: "fixed_app app0 w" "at_most_own_pod env app0 w" "no_error app0 w" using assms(2) by (simp_all add: goes_well_def)
  have err: "no_error app0 (run_once env r app0 w)" by (rule run_leaves_no_error [OF assms(1) w])
  have found: "\<exists>q. cluster_pods (w_calls w) = [q] \<and> made_now env app0 q \<and> pod_Name q = pod_Name p" if "found_pod st app0 w = Some p" for p
    using that w(2) by (auto simp: found_pod_def at_most_own_pod_def)
  have none: "cluster_pods (w_calls w) = []" if "found_pod st app0 w = None"
    using that by (simp add: found_pod_def split: list.splits)
  have "at_most_own_pod env app0 (run_once env r app0 w) \<and> (Phase (stored_in app0 (run_once env r app0 w)) = CliAppPhaseLive \<longrightarrow>
      (\<exists>p. cluster_pods (w_calls (run_once env r app0 w)) = [p] \<and> PodName (stored_in app0 (run_once env r app0 w)) = pod_Name p))"
    using w(1)
  proof (cases rule: declared_split)
    case start
    with loop_run_start [OF assms(1) w(1)] w(2) show ?thesis by (simp add: at_most_own_pod_def)
  next
    case recovering
    from loop_run_recovering [OF assms(1) w(1,2) this] w(2) show ?thesis
      by (auto simp: at_most_own_pod_def dest: found none split: option.splits if_splits)
  next
    case live
    from loop_run_live [OF assms(1) w(1,2) this] w(2) show ?thesis
      by (auto simp: at_most_own_pod_def dest: found none split: option.splits if_splits)
  qed
  with err loop_fixed [OF assms(1) w(1)] show ?thesis by (simp add: goes_well_def)
qed

lemma goes_well_always:
  assumes "closed_loop env r app0 st n" and "Phase app0 \<in> insert [] declared_phases" and "status_Error (app_Status app0) = []"
    and "Phase app0 \<noteq> CliAppPhaseLive" and "w_calls w = []"
  shows "goes_well env app0 ((run_once env r app0 ^^ j) w)"
proof (rule run_progress.kept_funpow [of "goes_well env app0"])
  show "goes_well env app0 w"
    using assms(2-5) by (simp add: goes_well_def fixed_as_def at_most_own_pod_def no_error_def)
qed (rule goes_well_run [OF assms(1)])

text \<open>The pod of a live app is the one that the cluster has later.\<close>

lemma same_pod_later:
  assumes "closed_loop env r app0 st n" and "goes_well env app0 u" and "Phase (stored_in app0 u) = CliAppPhaseLive"
    and "cluster_pods (w_calls ((run_once env r app0 ^^ i) u)) = [p]"
  shows "PodName (stored_in app0 u) = pod_Name p"
proof -
  obtain q where q: "cluster_pods (w_calls u) = [q]" "PodName (stored_in app0 u) = pod_Name q"
    using assms(2,3) by (auto simp: goes_well_def)
  with assms(2) have "has_pod env app0 q 0 u" by (auto simp: goes_well_def at_most_own_pod_def has_pod_def)
  then have "has_pod env app0 q 0 ((run_once env r app0 ^^ i) u)"
    by (rule run_progress.kept_funpow [of "has_pod env app0 q 0", rotated]) (rule has_pod_run [OF assms(1)])
  with q(2) assms(4) show ?thesis by (simp add: has_pod_def)
qed

text \<open>
  C9. The gate and the controller together. A client opens an app that is at rest, with no error in its status, in a cluster that runs the pods that it is given: the
  gate asks for the app to be live, the controller runs, and after finitely many runs there is one pod in the cluster, made for the app as it is. A watch that starts
  after any of the runs and reports the app as runs of the controller left it, one of the late ones among them, hands out the live app: with the spec that was asked for, and
  the name of that pod in its status.
\<close>

theorem opened_app_comes_up:
  assumes "\<forall>h. e_getApp ge h = Inr app0" and "\<forall>h. e_update ge h = Inr app1" and "0 < e_retrySteps ge"
    and "app1 = set_TargetPhase CliAppPhaseLive app0"
    and "Phase app0 = CliAppPhaseRest" and "TargetPhase app0 = CliAppPhaseRest" and "status_Error (app_Status app0) = []"
    and "closed_loop env r app1 st n" and "w_calls w = []"
  shows "\<exists>k p. made_now env app1 p
    \<and> (\<forall>j \<ge> k. cluster_pods (w_calls ((run_once env r app1 ^^ j) w)) = [p])
    \<and> (\<forall>i js. (\<exists>j \<in> set (i # js). k \<le> j) \<longrightarrow> (\<exists>out app.
         fst (session_startApp ge (\<lambda>_. Inr (reports env r app1 w i js)) (app_Namespace app0) (app_Name app0) wg) =
           Done (out, Returned (Inr app))
       \<and> Phase app = CliAppPhaseLive \<and> PodName app = pod_Name p \<and> app_Spec app = app_Spec app1))"
proof -
  have app1: "Phase app1 \<in> insert [] declared_phases" "Phase app1 \<noteq> CliAppPhaseLive" "status_Error (app_Status app1) = []"
    using assms(4-7) by (simp_all add: declared_phases_def)
  note well = goes_well_always [OF assms(8) app1(1,3,2) assms(9)]
  obtain k p where p: "made_now env app1 p"
    and k: "\<And>j. k \<le> j \<Longrightarrow> cluster_pods (w_calls ((run_once env r app1 ^^ j) w)) = [p] \<and> Phase (app_after env r app1 w j) = CliAppPhaseLive"
    using app_comes_up_from_nothing [OF assms(8) app1(1) assms(9)] unfolding Let_def app_after_def by blast
  have opened: "\<exists>out app. fst (session_startApp ge (\<lambda>_. Inr (reports env r app1 w i js)) (app_Namespace app0) (app_Name app0) wg) =
      Done (out, Returned (Inr app)) \<and> Phase app = CliAppPhaseLive \<and> PodName app = pod_Name p \<and> app_Spec app = app_Spec app1"
    if "\<exists>j \<in> set (i # js). k \<le> j" for i js
  proof -
    have "status_Error (app_Status (app_after env r app1 w j)) = []" for j
      using well [of j] by (simp add: goes_well_def no_error_def app_after_def)
    with watch_reports k that obtain j where j: "Phase (app_after env r app1 w j) = CliAppPhaseLive"
      "snd (watch_loop (reports env r app1 w i js)) = Returned (Inr (app_after env r app1 w j))" by metis
    have later: "cluster_pods (w_calls ((run_once env r app1 ^^ k) ((run_once env r app1 ^^ j) w))) = [p]"
      using k [of "k + j"] by (simp add: funpow_add)
    have "PodName (app_after env r app1 w j) = pod_Name p"
      unfolding app_after_def by (rule same_pod_later [OF assms(8) well _ later]) (use j(1) in \<open>simp add: app_after_def\<close>)
    moreover have "app_Spec (app_after env r app1 w j) = app_Spec app1"
      using well [of j] by (simp add: goes_well_def fixed_as_def app_after_def)
    moreover have "fst (session_startApp ge (\<lambda>_. Inr (reports env r app1 w i js)) (app_Namespace app0) (app_Name app0) wg) =
        Done (watch_loop (reports env r app1 w i js))"
      by (rule startApp_from_rest) (use assms(1-6) j(2) in auto)
    ultimately show ?thesis using j by (metis prod.collapse)
  qed
  with p k show ?thesis by blast
qed

text \<open>The app of the controller's test, at rest, and opened in a cluster where its pod is ready after thirty calls.\<close>

definition resting_app :: CliApp where
  "resting_app = set_Phase CliAppPhaseRest (set_TargetPhase CliAppPhaseRest test_CliApp)"

definition woken_app :: CliApp where
  "woken_app = set_TargetPhase CliAppPhaseLive resting_app"

definition sample_gate_env :: env where
  "sample_gate_env = (quiet_env resting_app [])\<lparr>e_update := (\<lambda>h. Inr woken_app), e_getApp := (\<lambda>h. Inr resting_app)\<rparr>"

lemma opened_app_comes_up_witness:
  "\<exists>k p. made_now (slow_cluster woken_app) woken_app p \<and> (\<exists>out app.
     fst (session_startApp sample_gate_env
       (\<lambda>_. Inr (reports (slow_cluster woken_app) sample_reconciler woken_app idle_world 0 [1..<k + 2]))
       (app_Namespace resting_app) (app_Name resting_app) idle_world) = Done (out, Returned (Inr app))
     \<and> Phase app = CliAppPhaseLive \<and> PodName app = pod_Name p)"
proof -
  have spec: "app_Spec woken_app = app_Spec test_CliApp" by (simp add: woken_app_def resting_app_def test_CliApp_def)
  have sample: "Phase resting_app = CliAppPhaseRest" "TargetPhase resting_app = CliAppPhaseRest" "w_calls idle_world = []"
    "status_Error (app_Status resting_app) = []" "\<forall>h. e_getApp sample_gate_env h = Inr resting_app"
    "\<forall>h. e_update sample_gate_env h = Inr woken_app" "0 < e_retrySteps sample_gate_env"
    by (simp_all add: resting_app_def test_CliApp_def idle_world_def sample_gate_env_def quiet_env_def)
  have late: "\<exists>j \<in> set (0 # [1..<k + 2]). k \<le> j" for k :: nat by (intro bexI [of _ "k + 1"]) auto
  from opened_app_comes_up [OF sample(5-7) woken_app_def sample(1,2,4) test_in_slow_cluster [OF spec] sample(3)]
  obtain k p where kp: "made_now (slow_cluster woken_app) woken_app p"
    "\<And>i js. \<exists>j \<in> set (i # js). k \<le> j \<Longrightarrow> \<exists>out app.
       fst (session_startApp sample_gate_env (\<lambda>_. Inr (reports (slow_cluster woken_app) sample_reconciler woken_app idle_world i js))
         (app_Namespace resting_app) (app_Name resting_app) idle_world) = Done (out, Returned (Inr app))
     \<and> Phase app = CliAppPhaseLive \<and> PodName app = pod_Name p \<and> app_Spec app = app_Spec woken_app" by metis
  show ?thesis using kp(1) kp(2) [OF late [of k]] by blast
qed

end
