(* ===== verification/GoesDown.thy ===== *)
theory GoesDown
  imports ComesUp
begin

text \<open>
  The way down in the closed loop: a cluster in which the pods that the controller deletes terminate for a while and are gone then. An app that
  shall be at rest leaves no pod behind.
\<close>

section \<open>The cluster\<close>

definition pods_left :: "Pod list \<Rightarrow> call list \<Rightarrow> Pod list" where
  "pods_left ps0 h = fold pods_after h ps0"

lemma pods_left_append [simp]: "pods_left ps0 (h @ cs) = fold pods_after cs (pods_left ps0 h)"
  by (simp add: pods_left_def)

fun deletes :: "call \<Rightarrow> bool" where
  "deletes (CDeletePod p) = True"
| "deletes c = False"

text \<open>
  A cluster that had the pods \<open>ps0\<close>, none of which was terminating, and lists those that are left, and the terminating ones: there are none of these
  once the controller has not deleted a pod for \<open>g\<close> calls.
\<close>

definition terminates_pods :: "env \<Rightarrow> Pod list \<Rightarrow> (call list \<Rightarrow> Pod \<Rightarrow> PodStatus) \<Rightarrow> (call list \<Rightarrow> Pod list) \<Rightarrow> nat \<Rightarrow> bool" where
  "terminates_pods env ps0 st leaving g \<longleftrightarrow>
     (\<forall>h. e_listPods env h = Inr (map (with_status st h) (pods_left ps0 h) @ leaving h))
   \<and> (\<forall>h. \<forall>p \<in> set (leaving h). pod_DeletionTimestamp p \<noteq> None)
   \<and> (\<forall>p \<in> set ps0. pod_DeletionTimestamp p = None)
   \<and> (\<forall>h h'. list_all (\<lambda>c. \<not> deletes c) h' \<longrightarrow> g \<le> length h' \<longrightarrow> leaving (h @ h') = [])"

section \<open>One run\<close>

text \<open>No pod of the app is made while it shall be at rest, so none that is left is terminating.\<close>

lemma delete_all:
  "fold pods_after (map CDeletePod qs) ps = filter (\<lambda>p. pod_Name p \<notin> pod_Name ` set qs) ps"
  by (induction qs arbitrary: ps) (auto intro: filter_cong)

lemma rest_run_world:
  assumes "consistent app0 env" "fixed_app app0 w" "rest_bound app0"
    and "Phase (stored_in app0 w) \<noteq> CliAppPhaseRest"
    and "wp (bnd (makeAppRest env r (set_Error [] (stored_in app0 w))) (report_error env)) (\<lambda>_. P) (\<lambda>_. P) (got_app app0 w)"
  shows "P (run_once env r app0 w)"
proof -
  have "wp (Reconcile env r (app_Namespace app0) (app_Name app0)) (\<lambda>_. P) (\<lambda>_. P) w"
    unfolding wp_Reconcile_stored [OF assms(1)]
    using rest_bound_stored [OF assms(2,3)] assms(4,5)
    by (simp add: rest_bound_def reconcile_body_def)
  then show ?thesis unfolding run_once_def by (rule wp_final)
qed

lemma other_phases_keep_pods:
  assumes "consistent app0 env" "fixed_app app0 w" "rest_bound app0"
    and "Phase (stored_in app0 w) \<noteq> CliAppPhaseRest" "Phase (stored_in app0 w) \<noteq> CliAppPhaseShuttingDown"
  shows "pods_left ps0 (w_calls (run_once env r app0 w)) = pods_left ps0 (w_calls w)"
  by (rule rest_run_world [OF assms(1-4)])
    (use assms rest_bound_stored [OF assms(2,3)] in
      \<open>auto simp add: rest_bound_def makeAppRest_def wp_simps wp_report_error Let_def transit_ok_def split: option.splits\<close>)

abbreviation (input) list_at :: "CliApp \<Rightarrow> world \<Rightarrow> call list" where
  "list_at app0 w \<equiv> w_calls w @ [CGetApp (app_Namespace app0) (app_Name app0), CListPods (app_Namespace app0) (app_Name app0)]"

definition none_terminating :: "Pod list \<Rightarrow> bool" where
  "none_terminating ps \<longleftrightarrow> (\<forall>p \<in> set ps. pod_DeletionTimestamp p = None)"

text \<open>Shutting down: nothing is left and the app comes to rest, or pods terminate and the run waits for them, or it deletes all that are left.\<close>

lemma shutting_down_empty:
  assumes "consistent app0 env" "fixed_app app0 w" "rest_bound app0" and "Phase (stored_in app0 w) = CliAppPhaseShuttingDown"
    and "e_listPods env (list_at app0 w) = Inr []"
  shows "Phase (stored_in app0 (run_once env r app0 w)) = CliAppPhaseRest
    \<and> pods_left ps0 (w_calls (run_once env r app0 w)) = pods_left ps0 (w_calls w)"
proof -
  have id: "app_Name (stored_in app0 w) = app_Name app0" "app_Namespace (stored_in app0 w) = app_Namespace app0"
    by simp_all
  show ?thesis
    by (rule rest_run_world [OF assms(1-3)])
      (use assms rest_bound_stored [OF assms(2,3)] in
        \<open>auto simp add: rest_bound_def makeAppRest_def shut_down_def id wp_simps wp_report_error Let_def transit_ok_def transited_def\<close>)
qed

lemma wp_shut_down_listed:
  assumes "e_listPods env (list_at app0 w) = Inr items" and "items \<noteq> []"
  shows "wp (shut_down env (set_Error [] (stored_in app0 w)) res) Q E (got_app app0 w) =
    (let res = res\<lparr>res_RequeueAfter := DefaultRequeueDuration\<rparr>; app = set_Error [] (stored_in app0 w); w1 = w\<lparr>w_calls := list_at app0 w\<rparr>
     in if filter (\<lambda>p. pod_DeletionTimestamp p \<noteq> None) items \<noteq> [] then Q (res, None, app) w1
        else wp (delete_pods env (g_ready (groupPods items) @ g_starting (groupPods items)) None) (\<lambda>err. Q (res, err, app)) E w1)"
proof -
  have id: "app_Name (set_Error [] (stored_in app0 w)) = app_Name app0" "app_Namespace (set_Error [] (stored_in app0 w)) = app_Namespace app0"
    by simp_all
  have "w_calls (got_app app0 w) @ [CListPods (app_Namespace app0) (app_Name app0)] = list_at app0 w" by simp
  moreover have "wp (ret x) Q E = Q x" for x :: "Result \<times> goerror option \<times> CliApp" by (rule ext) simp
  ultimately show ?thesis
    using assms by (simp add: shut_down_def id Let_def del: groupPods_simps(2,3) not_None_eq)
qed

lemma shutting_run:
  assumes "consistent app0 env" "fixed_app app0 w" "rest_bound app0" and "Phase (stored_in app0 w) = CliAppPhaseShuttingDown"
    and "wp (shut_down env (set_Error [] (stored_in app0 w)) zero_Result) (\<lambda>x. wp (report_error env x) (\<lambda>_. P) (\<lambda>_. P)) (\<lambda>_. P) (got_app app0 w)"
  shows "P (run_once env r app0 w)"
proof -
  have "makeAppRest env r (set_Error [] (stored_in app0 w)) = shut_down env (set_Error [] (stored_in app0 w)) zero_Result"
    using assms(4) rest_bound_stored [OF assms(2,3)] by (simp add: rest_bound_def makeAppRest_def)
  then have "wp (bnd (makeAppRest env r (set_Error [] (stored_in app0 w))) (report_error env)) (\<lambda>_. P) (\<lambda>_. P) (got_app app0 w)"
    unfolding wp_bnd using assms(5) by (simp only:)
  from rest_run_world [OF assms(1-3) _ this] assms(4) show ?thesis by simp
qed

lemma shutting_down_waits:
  assumes "consistent app0 env" "fixed_app app0 w" "rest_bound app0" and "Phase (stored_in app0 w) = CliAppPhaseShuttingDown"
    and "e_listPods env (list_at app0 w) = Inr items" and "p \<in> set items" "pod_DeletionTimestamp p \<noteq> None"
  shows "Phase (stored_in app0 (run_once env r app0 w)) = CliAppPhaseShuttingDown
    \<and> w_calls (run_once env r app0 w) = list_at app0 w"
proof -
  let ?P = "\<lambda>t. Phase (stored_in app0 t) = CliAppPhaseShuttingDown \<and> w_calls t = list_at app0 w"
  have "items \<noteq> []" "filter (\<lambda>p. pod_DeletionTimestamp p \<noteq> None) items \<noteq> []" using assms(6,7) by (auto simp: filter_empty_conv)
  with assms(4) have "wp (shut_down env (set_Error [] (stored_in app0 w)) zero_Result)
      (\<lambda>x. wp (report_error env x) (\<lambda>_. ?P) (\<lambda>_. ?P)) (\<lambda>_. ?P) (got_app app0 w)"
    by (simp add: wp_shut_down_listed [OF assms(5)] wp_report_error Let_def)
  from shutting_run [where P = ?P, OF assms(1-4) this] show ?thesis .
qed

lemma shutting_down_deletes:
  assumes "consistent app0 env" "fixed_app app0 w" "rest_bound app0" and "Phase (stored_in app0 w) = CliAppPhaseShuttingDown"
    and "e_listPods env (list_at app0 w) = Inr (map (with_status st h) (pods_left ps0 (w_calls w)))"
    and "pods_left ps0 (w_calls w) \<noteq> []" and "none_terminating (pods_left ps0 (w_calls w))"
  shows "Phase (stored_in app0 (run_once env r app0 w)) = CliAppPhaseShuttingDown
    \<and> pods_left ps0 (w_calls (run_once env r app0 w)) = []"
proof -
  let ?ps = "map (with_status st h) (pods_left ps0 (w_calls w))"
  let ?P = "\<lambda>t. Phase (stored_in app0 t) = CliAppPhaseShuttingDown \<and> pods_left ps0 (w_calls t) = []"
  have alive: "filter (\<lambda>p. pod_DeletionTimestamp p \<noteq> None) ?ps = []" and some: "?ps \<noteq> []"
    using assms(6,7) by (auto simp: filter_empty_conv none_terminating_def)
  define qs where "qs = g_ready (groupPods ?ps) @ g_starting (groupPods ?ps)"
  have "set qs = set ?ps" using assms(7) by (auto simp: qs_def none_terminating_def)
  then have names: "pod_Name ` set qs = pod_Name ` set (pods_left ps0 (w_calls w))" by (simp add: image_image)
  have gone: "fold pods_after (map CDeletePod qs) (pods_left ps0 (w_calls w)) = []"
    unfolding delete_all names by (simp add: filter_empty_conv)
  have kept: "foldl apply_call app (map CDeletePod qs) = app" for app qs by (induction qs) auto
  have "wp (delete_pods env qs None) (\<lambda>err. wp (report_error env (res, err, set_Error [] (stored_in app0 w))) (\<lambda>_. ?P) (\<lambda>_. ?P)) (\<lambda>_. ?P)
      (w\<lparr>w_calls := list_at app0 w\<rparr>)" for res
  proof (rule wp_delete_pods)
    fix err
    define h1 where "h1 = list_at app0 w @ map CDeletePod qs"
    have after: "stored app0 h1 = stored_in app0 w" "pods_left ps0 h1 = []"
      using gone kept unfolding h1_def by (simp_all del: fold_map)
    have "wp (report_error env (res, err, set_Error [] (stored_in app0 w))) (\<lambda>_. ?P) (\<lambda>_. ?P) (w\<lparr>w_calls := h1\<rparr>)"
      using after assms(4) by (simp add: wp_report_error split: option.split)
    then show "wp (report_error env (res, err, set_Error [] (stored_in app0 w))) (\<lambda>_. ?P) (\<lambda>_. ?P)
        ((w\<lparr>w_calls := list_at app0 w\<rparr>)\<lparr>w_calls := w_calls (w\<lparr>w_calls := list_at app0 w\<rparr>) @ map CDeletePod qs\<rparr>)"
      by (simp add: h1_def)
  qed
  then have "wp (shut_down env (set_Error [] (stored_in app0 w)) zero_Result)
      (\<lambda>x. wp (report_error env x) (\<lambda>_. ?P) (\<lambda>_. ?P)) (\<lambda>_. ?P) (got_app app0 w)"
    by (simp only: wp_shut_down_listed [OF assms(5) some] alive Let_def qs_def simp_thms if_False)
  from shutting_run [where P = ?P, OF assms(1-4) this] show ?thesis .
qed

section \<open>Down to nothing\<close>

definition rest_loop :: "env \<Rightarrow> CliApp \<Rightarrow> Pod list \<Rightarrow> (call list \<Rightarrow> Pod \<Rightarrow> PodStatus) \<Rightarrow> (call list \<Rightarrow> Pod list) \<Rightarrow> nat \<Rightarrow> bool" where
  "rest_loop env app0 ps0 st leaving g \<longleftrightarrow>
     consistent app0 env \<and> clock_runs env \<and> terminates_pods env ps0 st leaving g \<and> rest_bound app0"

lemma rest_loopD:
  assumes "rest_loop env app0 ps0 st leaving g"
  shows "consistent app0 env" "clock_runs env" "rest_bound app0"
    "e_listPods env h = Inr (map (with_status st h) (pods_left ps0 h) @ leaving h)"
    "p \<in> set (leaving h) \<Longrightarrow> pod_DeletionTimestamp p \<noteq> None"
    "none_terminating ps0"
    "list_all (\<lambda>c. \<not> deletes c) h' \<Longrightarrow> g \<le> length h' \<Longrightarrow> leaving (h @ h') = []"
  using assms unfolding rest_loop_def terminates_pods_def none_terminating_def by blast+

text \<open>A run of an app that shuts down, with the pods that are left and without.\<close>

lemma left_at_list [simp]: "pods_left ps0 (list_at app0 w) = pods_left ps0 (w_calls w)"
  by simp

lemma shutting_down_run:
  assumes "rest_loop env app0 ps0 st leaving g" and "in_phase app0 CliAppPhaseShuttingDown w"
    and "none_terminating (pods_left ps0 (w_calls w))"
  shows "leaving (list_at app0 w) \<noteq> [] \<Longrightarrow> in_phase app0 CliAppPhaseShuttingDown (run_once env r app0 w)
        \<and> w_calls (run_once env r app0 w) = list_at app0 w" (is "_ \<Longrightarrow> ?waits")
    and "leaving (list_at app0 w) = [] \<Longrightarrow> pods_left ps0 (w_calls w) = [] \<Longrightarrow> in_phase app0 CliAppPhaseRest (run_once env r app0 w)
        \<and> pods_left ps0 (w_calls (run_once env r app0 w)) = []"
    and "leaving (list_at app0 w) = [] \<Longrightarrow> pods_left ps0 (w_calls w) \<noteq> [] \<Longrightarrow> in_phase app0 CliAppPhaseShuttingDown (run_once env r app0 w)
        \<and> pods_left ps0 (w_calls (run_once env r app0 w)) = []"
proof -
  note loop = rest_loopD [OF assms(1)]
  have w: "fixed_app app0 w" "Phase (stored_in app0 w) = CliAppPhaseShuttingDown" using assms(2) by (simp_all add: in_phase_def)
  have fixed: "fixed_app app0 (run_once env r app0 w)"
    using fixed_as_run [OF loop(1) w(1)] loop(3) by (simp add: rest_bound_def)
  have list: "e_listPods env (list_at app0 w) =
      Inr (map (with_status st (list_at app0 w)) (pods_left ps0 (w_calls w)) @ leaving (list_at app0 w))"
    using loop(4) [of "list_at app0 w"] unfolding left_at_list .
  show ?waits if some: "leaving (list_at app0 w) \<noteq> []"
  proof -
    have last: "last (leaving (list_at app0 w)) \<in> set (leaving (list_at app0 w))" using some by simp
    show ?thesis
      using shutting_down_waits [OF loop(1) w(1) loop(3) w(2) list, of "last (leaving (list_at app0 w))"] last loop(5) [OF last] fixed w(2)
      by (simp add: in_phase_def)
  qed
  show "in_phase app0 CliAppPhaseRest (run_once env r app0 w) \<and> pods_left ps0 (w_calls (run_once env r app0 w)) = []"
    if "leaving (list_at app0 w) = []" "pods_left ps0 (w_calls w) = []"
  proof -
    have "e_listPods env (list_at app0 w) = Inr []" using list that by (simp only: list.map append_Nil)
    from shutting_down_empty [OF loop(1) w(1) loop(3) w(2) this] fixed that(2) show ?thesis by (simp add: in_phase_def)
  qed
  show "in_phase app0 CliAppPhaseShuttingDown (run_once env r app0 w) \<and> pods_left ps0 (w_calls (run_once env r app0 w)) = []"
    if "leaving (list_at app0 w) = []" "pods_left ps0 (w_calls w) \<noteq> []"
  proof -
    have "e_listPods env (list_at app0 w) = Inr (map (with_status st (list_at app0 w)) (pods_left ps0 (w_calls w)))"
      using list that(1) by (simp only: append_Nil2)
    from shutting_down_deletes [OF loop(1) w(1) loop(3) w(2) this that(2) assms(3)] fixed show ?thesis by (simp add: in_phase_def)
  qed
qed

text \<open>The terminating pods go while the controller waits.\<close>

definition waits_since :: "call list \<Rightarrow> CliApp \<Rightarrow> Pod list \<Rightarrow> Pod list \<Rightarrow> world \<Rightarrow> bool" where
  "waits_since h1 app0 ps0 ps w \<longleftrightarrow> in_phase app0 CliAppPhaseShuttingDown w \<and> pods_left ps0 (w_calls w) = ps
     \<and> (\<exists>h2. w_calls w = h1 @ h2 \<and> list_all (\<lambda>c. \<not> deletes c) h2)"

lemma waiting_leads_to:
  assumes "rest_loop env app0 ps0 st leaving g" and "waits_since h1 app0 ps0 ps w" and "none_terminating ps"
    and goes: "\<And>u. waits_since h1 app0 ps0 ps u \<Longrightarrow> leaving (list_at app0 u) = [] \<Longrightarrow> Q (run_once env r app0 u)"
  shows "\<exists>k. Q ((run_once env r app0 ^^ k) w)"
proof (rule run_progress.leads_to [where P = "waits_since h1 app0 ps0 ps" and n = "length h1 + g"])
  show "waits_since h1 app0 ps0 ps w" by fact
  fix u assume u: "waits_since h1 app0 ps0 ps u"
  then obtain h2 where h2: "w_calls u = h1 @ h2" "list_all (\<lambda>c. \<not> deletes c) h2"
    and phase: "in_phase app0 CliAppPhaseShuttingDown u" and left: "pods_left ps0 (w_calls u) = ps"
    by (auto simp: waits_since_def)
  have longer: "list_at app0 u = h1 @ (h2 @ [CGetApp (app_Namespace app0) (app_Name app0), CListPods (app_Namespace app0) (app_Name app0)])"
    "list_all (\<lambda>c. \<not> deletes c) (h2 @ [CGetApp (app_Namespace app0) (app_Name app0), CListPods (app_Namespace app0) (app_Name app0)])"
    using h2 by simp_all
  show "waits_since h1 app0 ps0 ps (run_once env r app0 u) \<or> Q (run_once env r app0 u)"
  proof (cases "leaving (list_at app0 u) = []")
    case False
    from shutting_down_run(1) [OF assms(1) phase _ False] assms(3) left
    have run: "in_phase app0 CliAppPhaseShuttingDown (run_once env r app0 u)" "w_calls (run_once env r app0 u) = list_at app0 u"
      by auto
    have "pods_left ps0 (w_calls (run_once env r app0 u)) = ps" unfolding run(2) left_at_list by (rule left)
    with run longer show ?thesis unfolding waits_since_def by metis
  qed (use goes [OF u] in simp)
  assume "length h1 + g \<le> length (w_calls u)"
  with h2(1) have "g \<le> length (h2 @ [CGetApp (app_Namespace app0) (app_Name app0), CListPods (app_Namespace app0) (app_Name app0)])"
    by simp
  then have "leaving (list_at app0 u) = []" unfolding longer(1) by (rule rest_loopD(7) [OF assms(1) longer(2)])
  then show "Q (run_once env r app0 u)" by (rule goes [OF u])
qed

abbreviation (input) down_in :: "CliApp \<Rightarrow> Pod list \<Rightarrow> CliAppPhase \<Rightarrow> Pod list \<Rightarrow> world \<Rightarrow> bool" where
  "down_in app0 ps0 p ps w \<equiv> in_phase app0 p w \<and> pods_left ps0 (w_calls w) = ps"

lemma waits_start: "down_in app0 ps0 CliAppPhaseShuttingDown ps w \<Longrightarrow> waits_since (w_calls w) app0 ps0 ps w"
  by (simp add: waits_since_def)

lemma empty_leads_to_rest:
  assumes "rest_loop env app0 ps0 st leaving g" and "down_in app0 ps0 CliAppPhaseShuttingDown [] w"
  shows "\<exists>k. down_in app0 ps0 CliAppPhaseRest [] ((run_once env r app0 ^^ k) w)"
  by (rule waiting_leads_to [OF assms(1) waits_start [OF assms(2)]])
    (use shutting_down_run(2) [OF assms(1)] in \<open>auto simp: waits_since_def none_terminating_def\<close>)

lemma shutting_leads_to_rest:
  assumes "rest_loop env app0 ps0 st leaving g" and "down_in app0 ps0 CliAppPhaseShuttingDown ps0 w"
  shows "\<exists>k. down_in app0 ps0 CliAppPhaseRest [] ((run_once env r app0 ^^ k) w)"
proof (cases "ps0 = []")
  case True
  with assms empty_leads_to_rest [OF assms(1)] show ?thesis by simp
next
  case False
  have "\<exists>k. down_in app0 ps0 CliAppPhaseShuttingDown [] ((run_once env r app0 ^^ k) w)"
    by (rule waiting_leads_to [OF assms(1) waits_start [OF assms(2)] rest_loopD(6) [OF assms(1)]])
      (use shutting_down_run(3) [OF assms(1)] rest_loopD(6) [OF assms(1)] False in \<open>auto simp: waits_since_def\<close>)
  from run_progress.leads_to_trans [OF this empty_leads_to_rest [OF assms(1)]] show ?thesis .
qed

lemma loop_leads_to_shutting_down:
  assumes "rest_loop env app0 ps0 st leaving g" and "fixed_app app0 w" and "Phase (stored_in app0 w) \<noteq> CliAppPhaseRest"
    and "pods_left ps0 (w_calls w) = ps0"
  shows "\<exists>k. down_in app0 ps0 CliAppPhaseShuttingDown ps0 ((run_once env r app0 ^^ k) w)"
proof -
  let ?f = "run_once env r app0"
  note loop = rest_loopD [OF assms(1)]
  note trans = run_progress.leads_to_trans [of _ env r app0]
  have fixed: "fixed_app app0 (?f u)" if "fixed_app app0 u" for u
    using fixed_as_run [OF loop(1) that] loop(3) by (simp add: rest_bound_def)
  have kept: "pods_left ps0 (w_calls (?f u)) = ps0"
    if "fixed_app app0 u" "Phase (stored_in app0 u) \<noteq> CliAppPhaseRest" "Phase (stored_in app0 u) \<noteq> CliAppPhaseShuttingDown"
      "pods_left ps0 (w_calls u) = ps0" for u
    using other_phases_keep_pods [OF loop(1) that(1) loop(3) that(2,3)] that(4) by simp
  have step: "down_in app0 ps0 p ps0 (?f u) \<Longrightarrow> \<exists>k. down_in app0 ps0 p ps0 ((?f ^^ k) u)" for p u
    by (rule exI [of _ 1]) simp
  have waiting: "\<exists>k. down_in app0 ps0 CliAppPhaseShuttingDown ps0 ((?f ^^ k) u)"
    if "down_in app0 ps0 CliAppPhaseWaitingForSessions ps0 u" for u
  proof (rule run_progress.kept_until [where J = "\<lambda>t. pods_left ps0 (w_calls t) = ps0 \<and> in_phase app0 CliAppPhaseWaitingForSessions t"])
    show "\<exists>k. in_phase app0 CliAppPhaseShuttingDown ((?f ^^ k) u)"
      by (rule waiting_leads_to_shutting_down [OF loop(1,3,2)]) (use that in simp)
    fix t assume t: "pods_left ps0 (w_calls t) = ps0 \<and> in_phase app0 CliAppPhaseWaitingForSessions t"
    then show "pods_left ps0 (w_calls (?f t)) = ps0 \<and> in_phase app0 CliAppPhaseWaitingForSessions (?f t)
        \<or> down_in app0 ps0 CliAppPhaseShuttingDown ps0 (?f t)"
      using rest_run_waiting [OF loop(1) _ loop(3) _ refl, of t r] kept [of t] fixed [of t]
      unfolding in_phase_def by (auto split: if_splits)
    show "\<not> in_phase app0 CliAppPhaseShuttingDown t" using t by (auto simp: in_phase_def)
  qed (use that in simp_all)
  consider "in_phase app0 CliAppPhaseLive w" | "in_phase app0 CliAppPhaseWaitingForSessions w"
    | "Phase (stored_in app0 w) \<in> {[], CliAppPhaseRecovering, CliAppPhaseBuilding}" | "in_phase app0 CliAppPhaseShuttingDown w"
    using assms(2,3) by (auto simp: in_phase_def fixed_as_def declared_phases_def)
  then show ?thesis
  proof cases
    case 1
    then have "down_in app0 ps0 CliAppPhaseWaitingForSessions ps0 (?f w)"
      using rest_run_live [OF loop(1) _ loop(3)] kept [of w] fixed assms(4) by (simp add: in_phase_def)
    from trans [OF step [OF this] waiting] show ?thesis .
  next
    case 3
    then have "down_in app0 ps0 CliAppPhaseShuttingDown ps0 (?f w)"
      using rest_run_direct [OF loop(1) assms(2) loop(3)] kept [of w] fixed assms(2,4) by (auto simp: in_phase_def)
    from step [OF this] show ?thesis .
  next
    case 4
    with assms(4) show ?thesis by (intro exI [of _ 0]) simp
  qed (use waiting assms(4) in auto)
qed

lemma resting_keeps:
  assumes "consistent app0 env" "rest_bound app0" and "down_in app0 ps0 CliAppPhaseRest [] w"
  shows "down_in app0 ps0 CliAppPhaseRest [] (run_once env r app0 w)"
proof -
  have w: "fixed_app app0 w" "Phase (stored_in app0 w) = CliAppPhaseRest" "pods_left ps0 (w_calls w) = []"
    using assms(3) by (simp_all add: in_phase_def)
  let ?P = "\<lambda>t. Phase (stored_in app0 t) = CliAppPhaseRest \<and> pods_left ps0 (w_calls t) = []"
  have "wp (Reconcile env r (app_Namespace app0) (app_Name app0)) (\<lambda>_. ?P) (\<lambda>_. ?P) w"
    unfolding wp_Reconcile_stored [OF assms(1)]
    using rest_bound_stored [OF w(1) assms(2)] w(2,3)
    by (simp add: rest_bound_def reconcile_body_def wp_report_error)
  from wp_final [OF this] have "?P (run_once env r app0 w)" unfolding run_once_def .
  with fixed_as_run [OF assms(1) w(1)] assms(2) show ?thesis by (simp add: in_phase_def rest_bound_def)
qed

text \<open>
  C6. An app goes down to nothing. In a cluster in which deleted pods terminate and are gone after a while, an app that shall be at rest and stays installed
  reaches the phase Rest after finitely many runs, from every phase in which it may have pods, and stays there: then the
  controller has deleted every pod that the app had, it has left none of its own, and the spec is what it was.
\<close>

theorem app_goes_down_to_nothing:
  assumes "rest_loop env app0 ps0 st leaving g" and "Phase app0 \<in> insert [] declared_phases"
    and "Phase app0 = CliAppPhaseRest \<longrightarrow> ps0 = []" and "w_calls w = []"
  shows "\<exists>k. \<forall>j \<ge> k. let w' = (run_once env r app0 ^^ j) w in
     Phase (stored_in app0 w') = CliAppPhaseRest \<and> pods_left ps0 (w_calls w') = [] \<and> app_Spec (stored_in app0 w') = app_Spec app0"
proof -
  note loop = rest_loopD [OF assms(1)]
  have start: "fixed_app app0 w" "stored_in app0 w = app0" "pods_left ps0 (w_calls w) = ps0"
    using assms(2,4) by (simp_all add: fixed_as_def pods_left_def)
  have "\<exists>k. down_in app0 ps0 CliAppPhaseRest [] ((run_once env r app0 ^^ k) w)"
  proof (cases "Phase app0 = CliAppPhaseRest")
    case True
    with start assms(3) show ?thesis by (intro exI [of _ 0]) (simp add: in_phase_def)
  next
    case False
    from loop_leads_to_shutting_down [OF assms(1) start(1) _ start(3)] False start(2)
    have "\<exists>k. down_in app0 ps0 CliAppPhaseShuttingDown ps0 ((run_once env r app0 ^^ k) w)" by simp
    from run_progress.leads_to_trans [OF this shutting_leads_to_rest [OF assms(1)]] show ?thesis .
  qed
  then have "\<exists>k. \<forall>j \<ge> k. down_in app0 ps0 CliAppPhaseRest [] ((run_once env r app0 ^^ j) w)"
    by (rule run_progress.stays) (rule resting_keeps [OF loop(1,3)])
  then show ?thesis by (auto simp: in_phase_def fixed_as_def Let_def)
qed

text \<open>A live app with its pod: a deleted pod is listed as terminating until seven calls have followed the deletion.\<close>

definition old_pod :: Pod where
  "old_pod = zero_Pod\<lparr>pod_Name := ''cliapp-1-abcde''\<rparr>"

definition still_leaving :: "call list \<Rightarrow> Pod list" where
  "still_leaving h =
     map (\<lambda>c. old_pod\<lparr>pod_DeletionTimestamp := Some 0\<rparr>) (filter deletes (drop (length h - 7) h))"

definition leaving_cluster :: env where
  "leaving_cluster =
     (quiet_env sample_live [])\<lparr>e_listPods := \<lambda>h. Inr (map (with_status slow_status h) (pods_left [old_pod] h) @ still_leaving h)\<rparr>"

lemma sample_in_leaving_cluster: "rest_loop leaving_cluster sample_live [old_pod] slow_status still_leaving 7"
proof -
  have "consistent sample_live leaving_cluster" by (simp add: consistent_def leaving_cluster_def quiet_env_def)
  moreover have "clock_runs leaving_cluster"
    using quiet_clock_runs [of sample_live "[]"] by (simp add: clock_runs_def leaving_cluster_def)
  moreover have "still_leaving (h @ h') = []" if "list_all (\<lambda>c. \<not> deletes c) h'" "7 \<le> length h'" for h h'
  proof -
    have "filter deletes h' = []" using that(1) by (simp add: filter_empty_conv list_all_iff)
    moreover have "set (drop (length h' - 7) h') \<subseteq> set h'" by (rule set_drop_subset)
    ultimately show ?thesis using that(2) by (auto simp: still_leaving_def filter_empty_conv)
  qed
  then have "terminates_pods leaving_cluster [old_pod] slow_status still_leaving 7"
    by (auto simp: terminates_pods_def leaving_cluster_def still_leaving_def old_pod_def zero_Pod_def)
  moreover have "rest_bound sample_live"
    by (simp add: rest_bound_def validateApp_def sample_live_def sample_app_def sample_spec_def)
  ultimately show ?thesis by (simp add: rest_loop_def)
qed

lemma app_goes_down_to_nothing_witness:
  "\<exists>k. \<forall>j \<ge> k. let w' = (run_once leaving_cluster sample_reconciler sample_live ^^ j) idle_world in
     Phase (stored_in sample_live w') = CliAppPhaseRest \<and> pods_left [old_pod] (w_calls w') = []
     \<and> app_Spec (stored_in sample_live w') = app_Spec sample_live"
  by (rule app_goes_down_to_nothing [OF sample_in_leaving_cluster])
    (simp_all add: sample_live_def sample_app_def declared_phases_def idle_world_def)

end
