(* ===== verification/Wakeups.thy ===== *)
theory Wakeups
  imports EndToEnd ForkProps
begin

text \<open>
  What makes the controller run again. Its work queue holds an app when a run asked for it (\<open>Result\<close>), or when an event of the app or of a
  pod of it came. The deferred function of \<open>Reconcile\<close> (controllers/cliapp_controller.go) drops every error after it has noted it in the status
  of the app, so that an error is retried only through the event of this note.
\<close>

section \<open>Events\<close>

text \<open>
  What a call of the controller lets its watches see, as Kubernetes documents: a pod that is created, a pod or an app that is deleted, and a write that
  changes the stored app. A write that changes nothing makes no new version of the app, and so no event.
\<close>

definition call_event :: "env \<Rightarrow> CliApp \<Rightarrow> call list \<Rightarrow> call \<Rightarrow> bool" where
  "call_event env app0 h c =
     (let g = h @ [c] in
      case c of
        CCreatePod p \<Rightarrow> (case e_createPod env g of Inl err \<Rightarrow> False | Inr q \<Rightarrow> True)
      | CDeletePod p \<Rightarrow> e_deletePod env g = None
      | CClientDeletePod ns name \<Rightarrow> e_clientDeletePod env g = None
      | CDeleteApp a \<Rightarrow> e_deleteApp env g = None
      | _ \<Rightarrow> apply_call (stored app0 h) c \<noteq> stored app0 h)"

fun woken :: "env \<Rightarrow> CliApp \<Rightarrow> call list \<Rightarrow> call list \<Rightarrow> bool" where
  "woken env app0 h [] = False"
| "woken env app0 h (c # cs) = (call_event env app0 h c \<or> woken env app0 (h @ [c]) cs)"

text \<open>
  Whether the controller runs again after a run that started in \<open>w\<close>, with no help from outside: controller-runtime queues the app again after an error, for
  \<open>Requeue\<close> and for a positive \<open>RequeueAfter\<close>.
\<close>

definition asks_again :: "Result \<times> goerror option \<Rightarrow> bool" where
  "asks_again = (\<lambda>(res, err). err \<noteq> None \<or> res_Requeue res \<or> dur_less 0 (res_RequeueAfter res))"

definition followed :: "env \<Rightarrow> CliApp \<Rightarrow> world \<Rightarrow> Result \<times> goerror option \<Rightarrow> world \<Rightarrow> bool" where
  "followed env app0 w res w' \<longleftrightarrow>
     asks_again res \<or> woken env app0 (w_calls w) (drop (length (w_calls w)) (w_calls w'))"

lemma update_Status_id [simp]:
  "app\<lparr>app_Status := st\<rparr> = app \<longleftrightarrow> app_Status app = st"
  by (cases app) auto

lemma status_eqD:
  fixes s t :: CliAppStatus
  shows "s = t \<Longrightarrow> status_Phase s = status_Phase t \<and> status_PodName s = status_PodName t"
  by simp

lemma call_event_simps [simp]:
  "call_event env app0 h (CCreatePod p) \<longleftrightarrow> (\<exists>q. e_createPod env (h @ [CCreatePod p]) = Inr q)"
  "call_event env app0 h (CDeletePod p) \<longleftrightarrow> e_deletePod env (h @ [CDeletePod p]) = None"
  "call_event env app0 h (CClientDeletePod ns name) \<longleftrightarrow> e_clientDeletePod env (h @ [CClientDeletePod ns name]) = None"
  "call_event env app0 h (CDeleteApp a) \<longleftrightarrow> e_deleteApp env (h @ [CDeleteApp a]) = None"
  "call_event env app0 h (CStatusUpdate a) \<longleftrightarrow> app_Status a \<noteq> app_Status (stored app0 h)"
  by (auto simp: call_event_def split: sum.splits)

lemma call_event_read: "\<not> writes c \<Longrightarrow> \<not> call_event env app0 h c \<Longrightarrow> apply_call app c = app"
  by simp

lemma call_event_reads [simp]:
  "\<not> call_event env app0 h (CGetApp ns name)" "\<not> call_event env app0 h (CListPods ns name)" "\<not> call_event env app0 h CNow"
  "\<not> call_event env app0 h CNewClientset" "\<not> call_event env app0 h (CClientListPods ns name)"
  by (simp_all add: call_event_def)

lemma woken_append [simp]:
  "woken env app0 h (cs @ ds) \<longleftrightarrow> woken env app0 h cs \<or> woken env app0 (h @ cs) ds"
  by (induction cs arbitrary: h) auto

lemma unwoken_stored: "\<not> woken env app0 h cs \<Longrightarrow> stored app0 (h @ cs) = stored app0 h"
proof (induction cs arbitrary: h)
  case (Cons c cs)
  have "apply_call (stored app0 h) c = stored app0 h"
    using Cons.prems by (cases c) (auto simp: call_event_def)
  with Cons.IH [of "h @ [c]"] Cons.prems show ?case by simp
qed simp

lemma Spec_set_Error: "app_Spec (set_Error e app) = app_Spec app"
  by simp

section \<open>When a run need not be followed\<close>

text \<open>The answer to the list of pods that \<open>claimPods\<close> makes first in a run, and the pods of it that are current.\<close>

definition listed_current :: "env \<Rightarrow> CliApp \<Rightarrow> world \<Rightarrow> Pod list" where
  "listed_current env app0 w =
     (let app = stored_in app0 w;
          h = w_calls w @ CGetApp (app_Namespace app0) (app_Name app0) # claim_calls app
      in case e_clientListPods env h of
           Inl err \<Rightarrow> []
         | Inr items \<Rightarrow> snd (sort_pods (encodeSpec (app_Spec app)) (computeHash env (app_Spec app)) items))"

text \<open>The app is where it shall be, or it waits for a pod that is there and not ready.\<close>

definition settled :: "env \<Rightarrow> CliApp \<Rightarrow> world \<Rightarrow> bool" where
  "settled env app0 w \<longleftrightarrow>
     (let app = stored_in app0 w in
      if TargetPhase app = CliAppPhaseRest then Phase app = CliAppPhaseRest
      else Phase app = CliAppPhaseLive \<and>
        (case listed_current env app0 w of [] \<Rightarrow> False | p # ps \<Rightarrow> IsPodReady p \<and> PodName app = pod_Name p))"

definition waits_for_pod :: "env \<Rightarrow> CliApp \<Rightarrow> world \<Rightarrow> bool" where
  "waits_for_pod env app0 w \<longleftrightarrow>
     TargetPhase (stored_in app0 w) = CliAppPhaseLive \<and> Phase (stored_in app0 w) = CliAppPhaseRecovering \<and>
     (case listed_current env app0 w of [] \<Rightarrow> False | p # ps \<Rightarrow> \<not> IsPodReady p)"

text \<open>The last call of a run reports what the status of the app says already.\<close>

definition reports_again :: "CliApp \<Rightarrow> world \<Rightarrow> world \<Rightarrow> bool" where
  "reports_again app0 w w' \<longleftrightarrow>
     (case last (w_calls w') of CStatusUpdate a \<Rightarrow> app_Status a = app_Status (stored_in app0 w) | _ \<Rightarrow> False)"

abbreviation (input) got_app :: "CliApp \<Rightarrow> world \<Rightarrow> world" where
  "got_app app0 w \<equiv> w\<lparr>w_calls := w_calls w @ [CGetApp (app_Namespace app0) (app_Name app0)]\<rparr>"

text \<open>What the body of \<open>Reconcile\<close> leaves behind, before the deferred function.\<close>

definition goes_on :: "env \<Rightarrow> CliApp \<Rightarrow> world \<Rightarrow> Result \<times> goerror option \<times> CliApp \<Rightarrow> world \<Rightarrow> bool" where
  "goes_on env app0 w = (\<lambda>(res, err, a) t.
     (\<exists>new. w_calls t = w_calls w @ new) \<and>
     (err \<noteq> None \<or> settled env app0 w \<or> waits_for_pod env app0 w \<or> followed env app0 w (res, None) t))"

text \<open>
  A run of an app that shall be at rest is followed whatever else happens, deletions of pods that fail included, unless the pods cannot be listed or the app
  itself is deleted.
\<close>

definition rest_goes_on :: "env \<Rightarrow> CliApp \<Rightarrow> world \<Rightarrow> Result \<times> goerror option \<times> CliApp \<Rightarrow> world \<Rightarrow> bool" where
  "rest_goes_on env app0 w = (\<lambda>(res, err, a) t.
     (\<exists>new. w_calls t = w_calls w @ new) \<and>
     (followed env app0 w (res, None) t
      \<or> err \<noteq> None \<and> (spec_UninstallUnlessLive (app_Spec (stored_in app0 w)) \<or> (\<exists>h e. e_listPods env h = Inl e))))"

lemma wp_makeAppRest_goes_on:
  assumes "consistent app0 env" and "TargetPhase (stored_in app0 w) = CliAppPhaseRest"
    and "Phase (stored_in app0 w) \<noteq> CliAppPhaseRest"
    and "status_LastPhaseTransition (app_Status (stored_in app0 w)) \<le>
       e_now env (w_calls w @ [CGetApp (app_Namespace app0) (app_Name app0), CNow])"
  shows "wp (makeAppRest env r (set_Error [] (stored_in app0 w))) (rest_goes_on env app0 w)
      (\<lambda>_ _. Phase (stored_in app0 w) \<notin> insert [] declared_phases) (got_app app0 w)"
proof -
  have id: "app_Name (stored_in app0 w) = app_Name app0" "app_Namespace (stored_in app0 w) = app_Namespace app0"
    by simp_all
  have left: "0 < sint (d - time_sub t u)" if "dur_less (time_sub t u) d" "u \<le> t" for d t u
  proof -
    have "0 \<le> sint (time_sub t u)" using that(2) by (simp add: sint_time_sub)
    then have "sint (d - time_sub t u) = sint d - sint (time_sub t u)"
      using that(1) sint_dur_bounds [of d] by (intro sint_dur_diff) (simp_all add: dur_less_def)
    with that(1) show ?thesis by (simp add: dur_less_def)
  qed
  note defs = makeAppRest_def rest_goes_on_def followed_def asks_again_def dur_less_def [of 0] zero_Result_def
    declared_phases_def
  show ?thesis
    using assms left
    by (auto simp: defs shut_down_def id wp_simps Let_def transit_ok_def transited_def
        intro!: wp_delete_pods dest: status_eqD split: sum.splits option.splits)
qed

text \<open>Every end of \<open>claimPods\<close> that returns: an error, or what the list says, after reads and deletions.\<close>

lemma wp_claimPods_goes_on:
  assumes "consistent app0 env"
    and "\<And>err t new. w_calls t = w_calls w @ new \<Longrightarrow> Q (Inl err) t"
    and "\<And>t new. w_calls t = w_calls w @ new \<Longrightarrow>
       Q (Inr (case listed_current env app0 w of [] \<Rightarrow> None | p # ps \<Rightarrow> Some p)) t"
  shows "wp (claimPods env r (set_Error [] (stored_in app0 w)) (encodeSpec (app_Spec (stored_in app0 w)))
      (computeHash env (app_Spec (stored_in app0 w)))) Q (\<lambda>_ _. True) (got_app app0 w)"
proof (cases "r_ToRESTConfig r ()")
  case (Inl err)
  then show ?thesis by (simp add: claimPods_def)
next
  case c: (Inr c)
  let ?app = "set_Error [] (stored_in app0 w)"
  show ?thesis
  proof (cases "e_newClientset env (w_calls (got_app app0 w) @ [CNewClientset])")
    case (Some err)
    then show ?thesis using assms(2) by (simp add: claimPods_def c)
  next
    case new: None
    show ?thesis
    proof (cases "e_clientListPods env (w_calls (got_app app0 w) @ claim_calls ?app)")
      case (Inl err)
      with new show ?thesis using assms(2) by (simp add: claimPods_def claim_calls_def c)
    next
      case (Inr items)
      have "claim_calls ?app = claim_calls (stored_in app0 w)" by (simp add: claim_calls_def)
      with Inr have "listed_current env app0 w = snd (sort_pods (encodeSpec (app_Spec (stored_in app0 w)))
          (computeHash env (app_Spec (stored_in app0 w))) items)"
        by (simp add: listed_current_def Let_def)
      then show ?thesis
        unfolding wp_claimPods [OF c new Inr] using assms(3) by (simp add: case_prod_beta)
    qed
  qed
qed

lemma live_goes_on:
  assumes "consistent app0 env" and "Phase (stored_in app0 w) = CliAppPhaseLive"
    and "TargetPhase (stored_in app0 w) = CliAppPhaseLive"
  shows "wp (live_case env r (set_Error [] (stored_in app0 w))) (goes_on env app0 w) (\<lambda>_ _. True) (got_app app0 w)"
  unfolding live_case_def Let_def wp_bnd Spec_set_Error
proof (rule wp_claimPods_goes_on [OF assms(1)], goal_cases)
  case (1 err t new)
  then show ?case by (simp add: goes_on_def)
next
  case (2 t new)
  note defs = goes_on_def followed_def asks_again_def dur_less_def zero_Result_def settled_def
  from 2 show ?case
    using assms unwoken_stored [of env app0 "w_calls w" new]
    by (auto simp: defs wp_simps Let_def transit_ok_def transited_def dest!: status_eqD split: list.splits)
qed

lemma recovering_goes_on:
  assumes "consistent app0 env" and "Phase (stored_in app0 w) = CliAppPhaseRecovering"
    and "TargetPhase (stored_in app0 w) = CliAppPhaseLive"
  shows "wp (recovering_case env r (set_Error [] (stored_in app0 w))) (goes_on env app0 w) (\<lambda>_ _. True) (got_app app0 w)"
  unfolding recovering_case_def Let_def wp_bnd Spec_set_Error
proof (rule wp_claimPods_goes_on [OF assms(1)], goal_cases)
  case (1 err t new)
  then show ?case by (simp add: goes_on_def)
next
  case (2 t new)
  note defs = goes_on_def followed_def asks_again_def dur_less_def zero_Result_def waits_for_pod_def
  show ?case
  proof (cases "listed_current env app0 w")
    case Nil
    show ?thesis
      unfolding Nil list.case sum.case option.case wp_bnd
    proof (rule wp_mono [OF wp_startApp], goal_cases)
      case (1 res u)
      with 2 show ?case by (cases res) (auto simp: started_def defs dest!: sym [of "Inr _"])
    qed simp
  next
    case (Cons p ps)
    from 2 show ?thesis
      using assms unwoken_stored [of env app0 "w_calls w" new]
      by (auto simp: defs Cons wp_simps Let_def transit_ok_def transited_def dest!: status_eqD)
  qed
qed

lemma building_goes_on:
  assumes "consistent app0 env" and "Phase (stored_in app0 w) = CliAppPhaseBuilding"
  shows "wp (building_case env (set_Error [] (stored_in app0 w))) (goes_on env app0 w) (\<lambda>_ _. True) (got_app app0 w)"
proof -
  note defs = goes_on_def followed_def asks_again_def dur_less_def zero_Result_def
  have upd: "calls_only (\<lambda>_. True) (update_image env img a) (\<lambda>_. True)" for img a
    unfolding update_image_def by (intro triple_intros TrueI)
  have retry: "calls_only (\<lambda>_. True) (RetryOnConflict n (update_image env img) a) (\<lambda>_. True)" for n img a
    by (rule emitting.triple_RetryOnConflict [where J = "\<lambda>_. True"]) (use upd in \<open>simp_all add: case_prod_unfold\<close>)
  have polled: "wp (builder_test env a) (\<lambda>_ t. w_calls t = w_calls u) (\<lambda>_ _. True) u" for a u
    unfolding wp_builder_test by (simp add: wp_def split: prod.splits outcome.splits)
  show ?thesis
  proof (cases "spec_Image (app_Spec (stored_in app0 w)) = []")
    case True
    then have image: "length (spec_Image (app_Spec (stored_in app0 w))) = 0" by simp
    show ?thesis
      unfolding building_case_def Let_def Spec_set_Error if_P [OF image] wp_bnd
    proof (rule wp_mono [OF polled], goal_cases)
      case (1 polled t)
      obtain img err where x: "polled = (img, err)" by (cases polled)
      show ?case
      proof (cases err)
        case (Some e)
        with 1 show ?thesis by (simp add: x defs)
      next
        case None
        show ?thesis
          unfolding x None prod.case wp_bnd
          by simp (rule wp_of_calls [OF retry],
            use 1 assms(1) in \<open>auto simp: defs wp_simps Let_def transit_ok_def split: prod.splits\<close>)
      qed
    qed simp
  next
    case False
    with assms show ?thesis by (simp add: building_case_def defs wp_simps Let_def transit_ok_def)
  qed
qed

lemma body_goes_on:
  assumes "consistent app0 env"
    and "status_LastPhaseTransition (app_Status (stored_in app0 w)) \<le>
       e_now env (w_calls w @ [CGetApp (app_Namespace app0) (app_Name app0), CNow])"
  shows "wp (reconcile_body env r (set_Error [] (stored_in app0 w))) (goes_on env app0 w) (\<lambda>_ _. True) (got_app app0 w)"
proof (cases "validateApp (stored_in app0 w)")
  case (Some err)
  then show ?thesis by (simp add: reconcile_body_def goes_on_def)
next
  case valid: None
  note defs = goes_on_def followed_def asks_again_def dur_less_def zero_Result_def
  show ?thesis
  proof (cases "TargetPhase (stored_in app0 w) = CliAppPhaseRest")
    case True
    show ?thesis
    proof (cases "Phase (stored_in app0 w) = CliAppPhaseRest")
      case True
      with \<open>TargetPhase _ = _\<close> valid show ?thesis by (simp add: reconcile_body_def defs settled_def)
    next
      case False
      have "wp (makeAppRest env r (set_Error [] (stored_in app0 w))) (goes_on env app0 w) (\<lambda>_ _. True) (got_app app0 w)"
        by (rule wp_mono [OF wp_makeAppRest_goes_on [OF assms(1) True False assms(2)]])
          (auto simp: goes_on_def rest_goes_on_def)
      with True valid False show ?thesis by (simp add: reconcile_body_def)
    qed
  next
    case False
    with valid have live: "TargetPhase (stored_in app0 w) = CliAppPhaseLive"
      using validateApp_None_target [of "stored_in app0 w"] by blast
    have "wp (makeAppLive env r (set_Error [] (stored_in app0 w))) (goes_on env app0 w) (\<lambda>_ _. True) (got_app app0 w)"
      using live assms(1) live_goes_on [OF assms(1) _ live] recovering_goes_on [OF assms(1) _ live]
        building_goes_on [OF assms(1)]
      by (auto simp: makeAppLive_def begin_building_def defs wp_simps Let_def transit_ok_def)
    with valid live show ?thesis by (simp add: reconcile_body_def)
  qed
qed

text \<open>
  C7. No unfinished run is the last one. Against an API server that stores the app and a clock that does not run backwards, the controller runs again after
  every run that returns: the run asked for it, or an event of it wakes the controller. The exceptions are three: the app is where it shall be; its pod is there
  and the controller waits for the pod to become ready; or the run ended with an error whose text the status of the app says already.
\<close>

theorem unfinished_run_is_followed:
  assumes "consistent app0 env"
    and "status_LastPhaseTransition (app_Status (stored_in app0 w)) \<le>
       e_now env (w_calls w @ [CGetApp (app_Namespace app0) (app_Name app0), CNow])"
    and "Reconcile env r (app_Namespace app0) (app_Name app0) w = (Done res, w')"
  shows "followed env app0 w res w' \<or> settled env app0 w \<or> waits_for_pod env app0 w \<or> reports_again app0 w w'"
proof -
  let ?Q = "\<lambda>res w'. followed env app0 w res w' \<or> settled env app0 w \<or> waits_for_pod env app0 w \<or> reports_again app0 w w'"
  have "wp (Reconcile env r (app_Namespace app0) (app_Name app0)) ?Q (\<lambda>_ _. True) w"
    unfolding wp_Reconcile_stored [OF assms(1)] wp_bnd
  proof (rule wp_mono [OF body_goes_on [OF assms(1,2)]], goal_cases)
    case (1 x t)
    obtain res err a where x: "x = (res, err, a)" by (cases x)
    from 1 obtain new where new: "w_calls t = w_calls w @ new"
      and on: "err \<noteq> None \<or> settled env app0 w \<or> waits_for_pod env app0 w \<or> followed env app0 w (res, None) t"
      by (auto simp: goes_on_def x)
    show ?case
    proof (cases err)
      case None
      with on show ?thesis by (auto simp: x wp_report_error)
    next
      case (Some e)
      with unwoken_stored [of env app0 "w_calls w" new] show ?thesis
        by (auto simp: x wp_report_error followed_def reports_again_def new)
    qed
  qed simp
  with assms(3) show ?thesis by (simp add: wp_def)
qed

lemma unfinished_run_is_followed_witness:
  "\<exists>res w'. Reconcile (quiet_env sample_app []) sample_reconciler ''default'' ''box'' idle_world = (Done res, w')
     \<and> (followed (quiet_env sample_app []) sample_app idle_world res w' \<or> reports_again sample_app idle_world w')"
proof -
  have id: "app_Namespace sample_app = ''default''" "app_Name sample_app = ''box''"
    and apart: "\<not> settled (quiet_env sample_app []) sample_app idle_world"
      "\<not> waits_for_pod (quiet_env sample_app []) sample_app idle_world"
    by (simp_all add: sample_app_def sample_spec_def settled_def waits_for_pod_def idle_world_def)
  have "\<exists>res w'. Reconcile (quiet_env sample_app []) sample_reconciler ''default'' ''box'' idle_world = (Done res, w')"
    by (simp add: Reconcile_unfold reconcile_body_def validateApp_def makeAppRest_def transitPhaseTo_def bnd_def ask_def ret_def
        report_error_def Let_def sample_app_def sample_spec_def quiet_env_def stored_def idle_world_def)
  then obtain res w' where run: "Reconcile (quiet_env sample_app []) sample_reconciler ''default'' ''box'' idle_world = (Done res, w')"
    by blast
  have "followed (quiet_env sample_app []) sample_app idle_world res w' \<or> settled (quiet_env sample_app []) sample_app idle_world
      \<or> waits_for_pod (quiet_env sample_app []) sample_app idle_world \<or> reports_again sample_app idle_world w'"
    by (rule unfinished_run_is_followed [where r = sample_reconciler])
      (use run in \<open>simp_all add: id\<close>, simp add: idle_world_def sample_app_def quiet_env_def)
  with run apart show ?thesis by blast
qed

section \<open>Running when woken\<close>

text \<open>The controller with its queue, which holds the app or does not.\<close>

definition work_once :: "env \<Rightarrow> CliAppReconciler \<Rightarrow> CliApp \<Rightarrow> world \<times> bool \<Rightarrow> world \<times> bool" where
  "work_once env r app0 = (\<lambda>(w, queued).
     if \<not> queued then (w, False)
     else case Reconcile env r (app_Namespace app0) (app_Name app0) w of
            (Done res, w') \<Rightarrow> (w', followed env app0 w res w')
          | (Panic p, w') \<Rightarrow> (w', False))"

lemma work_once_queued: "fst (work_once env r app0 (w, True)) = run_once env r app0 w"
  by (simp add: work_once_def run_once_def split: prod.splits outcome.splits)

lemma work_once_idle [simp]: "work_once env r app0 (w, False) = (w, False)"
  by (simp add: work_once_def)

lemma rest_run_followed:
  assumes "consistent app0 env" "fixed_app app0 w" "rest_bound app0" and "\<And>h. \<exists>items. e_listPods env h = Inr items"
    and "status_LastPhaseTransition (app_Status (stored_in app0 w)) \<le>
       e_now env (w_calls w @ [CGetApp (app_Namespace app0) (app_Name app0), CNow])"
    and "Phase (stored_in app0 w) \<noteq> CliAppPhaseRest"
  shows "work_once env r app0 (w, True) = (run_once env r app0 w, True)"
proof -
  have bound: "rest_bound (set_Error [] (stored_in app0 w))" by (rule rest_bound_stored [OF assms(2,3)])
  have target: "TargetPhase (stored_in app0 w) = CliAppPhaseRest" using bound by (simp add: rest_bound_def)
  have lists: "e_listPods env h \<noteq> Inl e" for h e using assms(4) [of h] by auto
  have body: "wp (reconcile_body env r (set_Error [] (stored_in app0 w))) (rest_goes_on env app0 w)
      (\<lambda>_ _. Phase (stored_in app0 w) \<notin> insert [] declared_phases) (got_app app0 w)"
    using bound assms(6) wp_makeAppRest_goes_on [OF assms(1) target assms(6,5), of r]
    by (simp add: reconcile_body_def rest_bound_def)
  have "wp (Reconcile env r (app_Namespace app0) (app_Name app0)) (followed env app0 w) (\<lambda>_ _. False) w"
    unfolding wp_Reconcile_stored [OF assms(1)] wp_bnd
  proof (rule wp_mono [OF body], goal_cases)
    case (1 x t)
    obtain res err a where x: "x = (res, err, a)" by (cases x)
    from 1 lists bound obtain new where "w_calls t = w_calls w @ new" "followed env app0 w (res, None) t"
      by (auto simp: rest_goes_on_def x rest_bound_def)
    then show ?case by (auto simp: x wp_report_error followed_def asks_again_def split: option.split)
  next
    case (2 p t)
    with assms(2) show ?case by (simp add: fixed_as_def)
  qed
  from wp_no_panic [OF this] show ?thesis by (auto simp: work_once_def run_once_def)
qed

text \<open>The app notes no transition that is later than the clock.\<close>

definition clock_monotone :: "env \<Rightarrow> bool" where
  "clock_monotone env \<longleftrightarrow> (\<forall>h g. e_now env h \<le> e_now env (h @ g))"

definition in_time :: "env \<Rightarrow> CliApp \<Rightarrow> world \<Rightarrow> bool" where
  "in_time env app0 w \<longleftrightarrow> status_LastPhaseTransition (app_Status (stored_in app0 w)) \<le> e_now env (w_calls w)"

lemma clock_monotoneD: "clock_monotone env \<Longrightarrow> t \<le> e_now env h \<Longrightarrow> t \<le> e_now env (h @ g)"
  unfolding clock_monotone_def using order_trans by blast

lemma rest_run_in_time:
  assumes "consistent app0 env" "rest_bound app0" "clock_monotone env" "fixed_app app0 w" "in_time env app0 w"
  shows "in_time env app0 (run_once env r app0 w)"
proof -
  have id: "app_Name (stored_in app0 w) = app_Name app0" "app_Namespace (stored_in app0 w) = app_Namespace app0"
    by simp_all
  have deletions: "foldl apply_call app (map CDeletePod ps) = app" for app ps
    by (induction ps) auto
  have old: "status_LastPhaseTransition (app_Status (stored_in app0 w)) \<le> e_now env (w_calls w @ g)" for g
    using assms(3,5) clock_monotoneD unfolding in_time_def by blast
  have now: "e_now env (w_calls w @ g) \<le> e_now env (w_calls w @ g')" if "\<exists>k. g' = g @ k" for g g'
    using that assms(3) unfolding clock_monotone_def by (metis append.assoc)
  have "wp (Reconcile env r (app_Namespace app0) (app_Name app0)) (\<lambda>_ t. in_time env app0 t) (\<lambda>_ t. in_time env app0 t) w"
    unfolding wp_Reconcile_stored [OF assms(1)]
    using rest_bound_stored [OF assms(4,2)] assms(1)
    by (auto simp: rest_bound_def reconcile_body_def makeAppRest_def shut_down_def id deletions in_time_def wp_simps Let_def
        transit_ok_def transited_def wp_report_error old now intro!: wp_delete_pods split: sum.splits option.splits)
  then show ?thesis unfolding run_once_def by (rule wp_final)
qed

lemma resting_run_sleeps:
  assumes "consistent app0 env" "rest_bound app0" "in_phase app0 CliAppPhaseRest w"
  shows "\<exists>w'. work_once env r app0 (w, True) = (w', False) \<and> in_phase app0 CliAppPhaseRest w'"
proof -
  have w: "fixed_app app0 w" "Phase (stored_in app0 w) = CliAppPhaseRest" using assms(3) by (simp_all add: in_phase_def)
  have bound: "rest_bound (set_Error [] (stored_in app0 w))" by (rule rest_bound_stored [OF w(1) assms(2)])
  have run: "Reconcile env r (app_Namespace app0) (app_Name app0) w =
      (Done (zero_Result, None), w\<lparr>w_calls := w_calls w @ [CGetApp (app_Namespace app0) (app_Name app0)]\<rparr>)"
    by (rule reconcile_settled [of _ _ _ _ "stored_in app0 w"]) (use bound assms(1) w(2) in \<open>simp_all add: rest_bound_def\<close>)
  show ?thesis
    using w by (simp add: work_once_def run followed_def asks_again_def dur_less_def zero_Result_def in_phase_def fixed_as_def)
qed

text \<open>
  C8. The wake-ups of the controller suffice. If the pods of an app can always be listed, then an app that shall be at rest reaches the phase Rest although the
  controller runs only when a run asked for the next one or an event came, and no event comes from outside. After that it sleeps.
\<close>

theorem woken_converges_to_rest:
  assumes "consistent app0 env" and "clock_runs env" and "clock_monotone env" and "pods_go env"
    and "\<And>h. \<exists>items. e_listPods env h = Inr items"
    and "validateApp app0 = None" and "TargetPhase app0 = CliAppPhaseRest"
    and "\<not> spec_UninstallUnlessLive (app_Spec app0)" and "Phase app0 \<in> insert [] declared_phases"
    and "status_LastPhaseTransition (app_Status app0) \<le> e_now env []" and "w_calls w = []"
  shows "\<exists>k. \<forall>j \<ge> k. case (work_once env r app0 ^^ j) (w, True) of (w', queued) \<Rightarrow>
           Phase (stored_in app0 w') = CliAppPhaseRest \<and> app_Spec (stored_in app0 w') = app_Spec app0 \<and> \<not> queued"
proof -
  let ?run = "run_once env r app0" and ?work = "work_once env r app0"
  let ?at = "\<lambda>j. in_phase app0 CliAppPhaseRest ((?run ^^ j) w)"
  have bound: "rest_bound app0" using assms(6-8) by (simp add: rest_bound_def)
  have start: "fixed_app app0 w" using assms(9,11) by (simp add: fixed_as_def)
  have kept: "fixed_app app0 ((?run ^^ j) w) \<and> in_time env app0 ((?run ^^ j) w)" for j
  proof (rule run_progress.kept_funpow)
    show "fixed_app app0 w \<and> in_time env app0 w" using start assms(10,11) by (simp add: in_time_def)
    show "fixed_app app0 (?run u) \<and> in_time env app0 (?run u)" if "fixed_app app0 u \<and> in_time env app0 u" for u
      using that fixed_as_run [OF assms(1), of app0 u r] rest_run_in_time [OF assms(1) bound assms(3), of u r] bound
      by (simp add: rest_bound_def)
  qed
  from leads_to_rest [OF assms(1) bound assms(2,4) start] have "\<exists>j. ?at j" .
  define m where "m = (LEAST j. ?at j)"
  have m: "?at m" unfolding m_def by (rule LeastI_ex) fact
  have before: "(?work ^^ j) (w, True) = ((?run ^^ j) w, True)" if "j \<le> m" for j
    using that
  proof (induction j)
    case (Suc j)
    then have "\<not> ?at j" using not_less_Least [of j ?at] by (simp add: m_def)
    then have phase: "Phase (stored_in app0 ((?run ^^ j) w)) \<noteq> CliAppPhaseRest"
      using kept [of j] by (simp add: in_phase_def)
    have time: "status_LastPhaseTransition (app_Status (stored_in app0 ((?run ^^ j) w))) \<le>
        e_now env (w_calls ((?run ^^ j) w) @ [CGetApp (app_Namespace app0) (app_Name app0), CNow])"
      using kept [of j] clock_monotoneD [OF assms(3)] by (simp add: in_time_def)
    from Suc rest_run_followed [OF assms(1) _ bound assms(5) time phase] kept [of j] show ?case by simp
  qed simp
  obtain w' where w': "?work ((?run ^^ m) w, True) = (w', False)" "in_phase app0 CliAppPhaseRest w'"
    using resting_run_sleeps [OF assms(1) bound m] by blast
  have "(?work ^^ j) (w, True) = (w', False)" if "Suc m \<le> j" for j
    using that
  proof (induction j rule: dec_induct)
    case base
    from before [of m] w'(1) show ?case by simp
  qed simp
  with w'(2) show ?thesis by (intro exI [of _ "Suc m"]) (simp add: in_phase_def fixed_as_def)
qed

lemma quiet_clock_monotone: "clock_monotone (quiet_env app0 pods)"
  by (simp add: clock_monotone_def quiet_env_def)

lemma woken_converges_to_rest_witness:
  "\<exists>k. \<forall>j \<ge> k. case (work_once (quiet_env sample_live []) sample_reconciler sample_live ^^ j) (idle_world, True) of
     (w', queued) \<Rightarrow> Phase (stored_in sample_live w') = CliAppPhaseRest
       \<and> app_Spec (stored_in sample_live w') = app_Spec sample_live \<and> \<not> queued"
proof (rule woken_converges_to_rest [OF quiet_env_consistent quiet_clock_runs quiet_clock_monotone quiet_pods_go])
  show "\<exists>items. e_listPods (quiet_env sample_live []) h = Inr items" for h by (simp add: quiet_env_def)
  show "status_LastPhaseTransition (app_Status sample_live) \<le> e_now (quiet_env sample_live []) []"
    by (simp add: quiet_env_def sample_live_def sample_app_def)
qed (simp_all add: validateApp_def sample_live_def sample_app_def sample_spec_def declared_phases_def idle_world_def)

text \<open>
  C27. An error that repeats itself puts the controller to sleep. When the pods of an app that shuts down cannot be listed, twice with the same error, the first run
  notes the error in the status of the app, which wakes the controller, and the second notes it again, which wakes nobody: the controller does not run again, even if
  the pods are gone by then, and the app stays in the phase ShuttingDown.
\<close>

theorem repeated_error_sleeps:
  assumes "consistent app0 env" and "validateApp app0 = None" and "TargetPhase app0 = CliAppPhaseRest"
    and "Phase app0 = CliAppPhaseShuttingDown" and "w_calls w = []"
    and "\<And>h. length h \<le> 5 \<Longrightarrow> e_listPods env h = Inl err" and "2 \<le> j"
  shows "case (work_once env r app0 ^^ j) (w, True) of (w', queued) \<Rightarrow>
     Phase (stored_in app0 w') = CliAppPhaseShuttingDown \<and> \<not> queued"
proof -
  let ?get = "CGetApp (app_Namespace app0) (app_Name app0)" and ?list = "CListPods (app_Namespace app0) (app_Name app0)"
  let ?note = "CStatusUpdate (set_Error (ErrorText err) app0)"
  have run: "Reconcile env r (app_Namespace app0) (app_Name app0) u =
      (Done (zero_Result, None), u\<lparr>w_calls := w_calls u @ [?get, ?list, ?note]\<rparr>)"
    if stored: "stored_in app0 u = set_Error e app0" and "length (w_calls u) \<le> 3" for u e
  proof -
    have id: "app_Namespace (stored_in app0 u) = app_Namespace app0" "app_Name (stored_in app0 u) = app_Name app0"
      by simp_all
    have "e_getApp env (w_calls u @ [?get]) = Inr (stored_in app0 u)" using assms(1) by simp
    moreover have "e_listPods env (w_calls u @ [?get, ?list]) = Inl err" using assms(6) that(2) by simp
    ultimately show ?thesis
      using assms(2-4) id
      by (simp add: stored Reconcile_unfold reconcile_body_def makeAppRest_def shut_down_def bnd_def ask_def ret_def
          report_error_def Let_def)
  qed
  have quiet: "\<not> asks_again (zero_Result, None)" by (simp add: asks_again_def zero_Result_def dur_less_def)
  let ?w2 = "w\<lparr>w_calls := [?get, ?list, ?note, ?get, ?list, ?note]\<rparr>"
  have asleep: "\<exists>v \<in> {w\<lparr>w_calls := [?get, ?list, ?note]\<rparr>, ?w2}. (work_once env r app0 ^^ j) (w, True) = (v, False)"
    using assms(7)
  proof (induction j rule: dec_induct)
    case base
    let ?w1 = "w\<lparr>w_calls := [?get, ?list, ?note]\<rparr>"
    have first: "Reconcile env r (app_Namespace app0) (app_Name app0) w = (Done (zero_Result, None), ?w1)"
      using run [of w "status_Error (app_Status app0)"] assms(5) by simp
    have second: "Reconcile env r (app_Namespace app0) (app_Name app0) ?w1 = (Done (zero_Result, None), ?w2)"
      using run [of ?w1 "ErrorText err"] by (simp add: stored_def)
    show ?case
      by (auto simp: numeral_2_eq_2 work_once_def first second assms(5) followed_def quiet stored_def)
  qed auto
  then show ?thesis using assms(4) by (auto simp: stored_def)
qed

text \<open>The pods cannot be listed for a moment, and are gone when they can be: a controller that ran again and again would bring this app to rest.\<close>

definition shutting_app :: CliApp where
  "shutting_app = set_Phase CliAppPhaseShuttingDown sample_app"

definition hiccup_env :: env where
  "hiccup_env = (quiet_env shutting_app [])
     \<lparr>e_listPods := \<lambda>h. if length h \<le> 5 then Inl (Errorf ''timeout'') else Inr []\<rparr>"

lemma repeated_error_sleeps_witness:
  "consistent shutting_app hiccup_env \<and> clock_runs hiccup_env \<and> pods_go hiccup_env
   \<and> (\<forall>i. case (work_once hiccup_env sample_reconciler shutting_app ^^ (i + 2)) (idle_world, True) of
        (w', queued) \<Rightarrow> Phase (stored_in shutting_app w') = CliAppPhaseShuttingDown \<and> \<not> queued)"
proof (intro conjI allI)
  show consistent: "consistent shutting_app hiccup_env" by (simp add: consistent_def hiccup_env_def quiet_env_def)
  show "clock_runs hiccup_env" using quiet_clock_runs [of shutting_app "[]"] by (simp add: clock_runs_def hiccup_env_def)
  show "pods_go hiccup_env"
    unfolding pods_go_def by (rule exI [of _ 6]) (simp add: hiccup_env_def)
  fix i
  show "case (work_once hiccup_env sample_reconciler shutting_app ^^ (i + 2)) (idle_world, True) of
      (w', queued) \<Rightarrow> Phase (stored_in shutting_app w') = CliAppPhaseShuttingDown \<and> \<not> queued"
    by (rule repeated_error_sleeps [OF consistent, where err = "Errorf ''timeout''"])
      (simp_all add: shutting_app_def sample_app_def sample_spec_def validateApp_def idle_world_def hiccup_env_def)
qed

section \<open>An old error\<close>

lemma resting_run:
  assumes "consistent app0 env" and "validateApp app0 = None" and "TargetPhase app0 = CliAppPhaseRest"
    and "Phase app0 = CliAppPhaseRest" and "stored_in app0 w = app0"
  shows "stored_in app0 (run_once env r app0 w) = app0"
proof -
  have "Reconcile env r (app_Namespace app0) (app_Name app0) w =
      (Done (zero_Result, None), w\<lparr>w_calls := w_calls w @ [CGetApp (app_Namespace app0) (app_Name app0)]\<rparr>)"
    by (rule reconcile_settled) (use assms in simp_all)
  with assms(5) show ?thesis by (simp add: run_once_def)
qed

text \<open>
  C28. An old error fails the next opening. The controller clears the error of an app only where it writes the app, so that an app at rest whose
  error is over (its spec was repaired) keeps it, however often the controller runs. The gate, which then opens this app, takes the error, in the first event
  of its watch, for one of the opening: the start fails with it.
\<close>

theorem old_error_fails_start:
  assumes "consistent app0 env" and "validateApp app0 = None" and "TargetPhase app0 = CliAppPhaseRest"
    and "Phase app0 = CliAppPhaseRest" and "status_Error (app_Status app0) \<noteq> []" and "w_calls w = []"
    and "app1 = set_TargetPhase CliAppPhaseLive (stored_in app0 ((run_once env r app0 ^^ k) w))"
    and "\<forall>h. e_getApp ge h = Inr (stored_in app0 ((run_once env r app0 ^^ k) w))" and "\<forall>h. e_update ge h = Inr app1"
    and "0 < e_retrySteps ge"
  shows "fst (session_startApp ge (\<lambda>_. Inr (Event (Added app1) # selects)) (app_Namespace app0) (app_Name app0) wg) =
     Done ([], Returned (Inl (Errorf (status_Error (app_Status app0)))))"
proof -
  have kept: "stored_in app0 ((run_once env r app0 ^^ k) w) = app0"
    by (rule run_progress.kept_funpow) (use assms(1-4,6) resting_run in auto)
  have "watch_loop (Event (Added app1) # selects) = ([], Returned (Inl (Errorf (status_Error (app_Status app0)))))"
    using assms(4,5,7) by (simp add: kept)
  moreover have "fst (session_startApp ge (\<lambda>_. Inr (Event (Added app1) # selects)) (app_Namespace app0) (app_Name app0) wg) =
      Done (watch_loop (Event (Added app1) # selects))"
    by (rule startApp_from_rest [of _ app0]) (use assms(3,4,7-10) calculation in \<open>simp_all add: kept\<close>)
  ultimately show ?thesis by simp
qed

text \<open>An app at rest whose distro was wrong once.\<close>

definition sleeping_app :: CliApp where
  "sleeping_app = set_Phase CliAppPhaseRest sample_app"

definition repaired_app :: CliApp where
  "repaired_app = set_Error ''old'' sleeping_app"

definition repaired_gate_env :: env where
  "repaired_gate_env = (quiet_env repaired_app [])
     \<lparr>e_update := (\<lambda>h. Inr (set_TargetPhase CliAppPhaseLive repaired_app)), e_getApp := (\<lambda>h. Inr repaired_app)\<rparr>"

lemma old_error_fails_start_witness:
  "fst (session_startApp repaired_gate_env (\<lambda>_. Inr [Event (Added (set_TargetPhase CliAppPhaseLive repaired_app))])
      ''default'' ''box'' idle_world) = Done ([], Returned (Inl (Errorf ''old'')))"
proof -
  have app: "app_Namespace repaired_app = ''default''" "app_Name repaired_app = ''box''"
    "status_Error (app_Status repaired_app) = ''old''" "validateApp repaired_app = None"
    "TargetPhase repaired_app = CliAppPhaseRest" "Phase repaired_app = CliAppPhaseRest"
    by (simp_all add: repaired_app_def sleeping_app_def sample_app_def sample_spec_def validateApp_def)
  have ge: "\<forall>h. e_getApp repaired_gate_env h = Inr repaired_app"
    "\<forall>h. e_update repaired_gate_env h = Inr (set_TargetPhase CliAppPhaseLive repaired_app)" "0 < e_retrySteps repaired_gate_env"
    by (simp_all add: repaired_gate_env_def quiet_env_def)
  have "w_calls idle_world = []" by (simp add: idle_world_def)
  from old_error_fails_start [where k = 0 and r = sample_reconciler and ge = repaired_gate_env and selects = "[]"
      and wg = idle_world, OF quiet_env_consistent [of _ "[]"] app(4-6) _ this refl] ge
  show ?thesis by (simp add: app \<open>w_calls idle_world = []\<close>)
qed

end
