(* ===== verification/BuilderProps.thy ===== *)
theory BuilderProps
  imports RestProps
begin

text \<open>
  Properties of the image builder, of the part of \<open>makeAppLive\<close> that polls it, and of the hash of a spec.
\<close>

section \<open>The builder\<close>

text \<open>
  C29. However the reconciler's polls and cancellations interleave with the writes of the build goroutines: each entry of the builder's map is a
  build of that app, with the app's image name. A build is marked done exactly from the write of \<open>Done\<close> on: it has its error by then, and before its goroutine
  writes one the error says that the image is under build; when the goroutine is over, the build is done and its context cancelled.
\<close>

theorem builder_wellformed:
  assumes "reachable builder_init builder_step b"
  shows "(\<forall>name a c. lookup_build b name = Some (a, c) \<longrightarrow>
        bc_Name c = name \<and> bc_Image c = ''docker.io/warmmetal/'' @ name @ '':v1'')
    \<and> (\<forall>m name a. ib_appMap b = Some m \<longrightarrow> m name = Some a \<longrightarrow> (\<exists>c. lookup_build b name = Some (a, c)))
    \<and> (\<forall>a c. ib_store b a = Some c \<longrightarrow>
        (case ib_running b a of
           Some Working \<Rightarrow> \<not> bc_Done c \<and> bc_Error c = Some underBuild
         | Some ErrorSet \<Rightarrow> \<not> bc_Done c
         | Some DoneSet \<Rightarrow> bc_Done c
         | None \<Rightarrow> bc_Done c \<and> bc_Cancelled c))"
proof -
  have inv: "builder_inv b" using assms by (rule builder.inv_reachable)
  have lookup: "ib_store b a = Some c \<and> bc_Name c = name"
    if l: "lookup_build b name = Some (a, c)" for name a c
  proof -
    from l obtain m where m: "ib_appMap b = Some m" "m name = Some a" and c: "ib_store b a = Some c"
      by (auto simp: lookup_build_Some)
    from builder_inv_map [OF inv m] c show ?thesis by simp
  qed
  have present: "\<exists>c. lookup_build b name = Some (a, c)"
    if "ib_appMap b = Some m" "m name = Some a" for m name a
    using builder_inv_map [OF inv that] that by (auto simp: lookup_build_def)
  have ctx: "context_ok c (ib_running b a)" if "ib_store b a = Some c" for a c
    using builder_inv_ctx [OF inv that] by simp
  have stages: "case ib_running b a of Some Working \<Rightarrow> \<not> bc_Done c \<and> bc_Error c = Some underBuild
         | Some ErrorSet \<Rightarrow> \<not> bc_Done c | Some DoneSet \<Rightarrow> bc_Done c | None \<Rightarrow> bc_Done c \<and> bc_Cancelled c"
    if "ib_store b a = Some c" for a c
    using ctx [OF that] by (simp add: context_ok_def split: option.split build_stage.split)
  have image: "bc_Image c = ''docker.io/warmmetal/'' @ bc_Name c @ '':v1''" if "ib_store b a = Some c" for a c
    using ctx [OF that] by (simp add: context_ok_def build_image_name_def)
  show ?thesis using lookup present stages image by blast
qed

text \<open>A Dockerfile of two lines.\<close>

definition busybox_file :: string where
  "busybox_file = ''FROM busybox'' @ [CHR 0x0A] @ ''CMD sh''"

lemma busybox_file_parse: "url_Parse busybox_file = None"
  by code_simp

definition started_builder :: ImageBuilder where
  "started_builder = \<lparr>ib_appMap = Some [''box'' \<mapsto> 0],
     ib_store = [0 \<mapsto> new_build ''box'' busybox_file], ib_next = 1, ib_running = [0 \<mapsto> Working]\<rparr>"

lemma started_builder_reachable: "reachable builder_init builder_step started_builder"
proof (rule reachable_step)
  let ?b = "\<lparr>ib_appMap = Some Map.empty, ib_store = Map.empty, ib_next = 0, ib_running = Map.empty\<rparr>"
  show "reachable builder_init builder_step ?b"
  proof (rule reachable_init)
    show "builder_init ?b"
      unfolding builder_init_def
      by (intro exI [of _ "''tcp://buildkitd''"] exI [of _ None]) (simp add: InitImageBuilderOrDie_def)
  qed
  show "builder_step ?b started_builder"
    by (rule builder_step.poll [where early = None and name = "''box''" and dockerfile = "busybox_file"
          and r = "Done (build_image_name ''box'', Some underBuild)"])
      (simp add: testImage_def lookup_build_def begin_build_def read_new_build_def new_build_def bnd_def ret_def Let_def
        started_builder_def)
qed

text \<open>
  The builder reports an image only when it is there: if a poll returns without error, then the build that the
  map holds for the app is done and had no error, and the poll changed nothing; or the poll started a new build, which had its result, no error, before the poll returned.
\<close>

theorem testImage_success:
  assumes "reachable builder_init builder_step b" and "testImage early name d b = (Done (img, None), b')"
  shows "img = ''docker.io/warmmetal/'' @ name @ '':v1''
    \<and> (b' = b \<and> (\<exists>a c. lookup_build b name = Some (a, c) \<and> bc_Done c \<and> bc_Error c = None \<and> bc_Image c = img)
     \<or> (\<exists>be. early = Some be \<and> start_body be (new_build name d) = None))"
proof (rule testImage_cases [of b name early d])
  fix a c
  assume l: "lookup_build b name = Some (a, c)" "bc_Done c"
    and t: "testImage early name d b = (Done (bc_Image c, bc_Error c), b)"
  have inv: "builder_inv b" using assms(1) by (rule builder.inv_reachable)
  from l(1) obtain m where "ib_appMap b = Some m" "m name = Some a" and c: "ib_store b a = Some c"
    by (auto simp: lookup_build_Some)
  with builder_inv_map [OF inv] have "bc_Name c = name" by force
  with builder_inv_ctx [OF inv c] assms(2) t l show ?thesis by (simp add: build_image_name_def context_ok_def)
qed (use assms(2) in \<open>auto simp: early_error_def build_image_name_def split: option.splits\<close>)

definition willing_build :: build_env where
  "willing_build = \<lparr>be_writeFile = \<lambda>f s. None, be_solve = \<lambda>c opt. None\<rparr>"

text \<open>Between the writes of the goroutine, and after it.\<close>

definition finishing_builder :: ImageBuilder where
  "finishing_builder = goroutine_step willing_build 0 started_builder"

definition finished_builder :: ImageBuilder where
  "finished_builder = goroutine_step willing_build 0 (goroutine_step willing_build 0 finishing_builder)"

lemma busybox_builds: "start_body willing_build (new_build ''box'' busybox_file) = None"
  by (simp add: start_body_def solve_def willing_build_def new_build_def busybox_file_parse Let_def)

lemma started_builder_simps:
  "ib_store started_builder 0 = Some (new_build ''box'' busybox_file)" "ib_running started_builder 0 = Some Working"
  by (simp_all add: started_builder_def)

lemma finished_builder_eq:
  "finishing_builder = started_builder\<lparr>ib_store := [0 \<mapsto> (new_build ''box'' busybox_file)\<lparr>bc_Error := None\<rparr>], ib_running := [0 \<mapsto> ErrorSet]\<rparr>"
  "finished_builder = started_builder\<lparr>ib_store := [0 \<mapsto> start willing_build (new_build ''box'' busybox_file)], ib_running := Map.empty\<rparr>"
proof -
  show "finished_builder = started_builder\<lparr>ib_store := [0 \<mapsto> start willing_build (new_build ''box'' busybox_file)], ib_running := Map.empty\<rparr>"
    unfolding finished_builder_def finishing_builder_def goroutine_alone [OF started_builder_simps]
    by (simp add: started_builder_def)
qed (simp add: finishing_builder_def goroutine_step_def started_builder_def busybox_builds)

lemma finished_builder_reachable:
  "reachable builder_init builder_step finishing_builder" "reachable builder_init builder_step finished_builder"
proof -
  have running: "ib_running started_builder 0 \<noteq> None" "ib_running finishing_builder 0 \<noteq> None"
    "ib_running (goroutine_step willing_build 0 finishing_builder) 0 \<noteq> None"
    by (simp_all add: goroutine_step_def finished_builder_eq started_builder_def)
  note step = builder_step.goroutine [where be = willing_build, OF running(1)]
    builder_step.goroutine [where be = willing_build, OF running(2)] builder_step.goroutine [where be = willing_build, OF running(3)]
  show finishing: "reachable builder_init builder_step finishing_builder"
    unfolding finishing_builder_def by (rule reachable_step [OF started_builder_reachable step(1)])
  show "reachable builder_init builder_step finished_builder"
    unfolding finished_builder_def by (rule reachable_step [OF reachable_step [OF finishing step(2)] step(3)])
qed

lemma builder_wellformed_witness:
  "ib_running finishing_builder 0 = Some ErrorSet \<and> ib_running finished_builder 0 = None
   \<and> (\<exists>c. ib_store finishing_builder 0 = Some c \<and> \<not> bc_Done c \<and> bc_Error c = None)
   \<and> (\<exists>c. ib_store finished_builder 0 = Some c \<and> bc_Done c \<and> bc_Cancelled c)"
proof -
  note finishing = builder_wellformed [OF finished_builder_reachable(1), THEN conjunct2, THEN conjunct2, rule_format, of 0]
  note finished = builder_wellformed [OF finished_builder_reachable(2), THEN conjunct2, THEN conjunct2, rule_format, of 0]
  obtain c d where "ib_store finishing_builder 0 = Some c" "bc_Error c = None" "ib_running finishing_builder 0 = Some ErrorSet"
    "ib_store finished_builder 0 = Some d" "ib_running finished_builder 0 = None"
    by (simp add: finished_builder_eq)
  with finishing [of c] finished [of d] show ?thesis by auto
qed

lemma testImage_success_witness:
  "\<exists>a c. lookup_build finished_builder ''box'' = Some (a, c) \<and> bc_Done c \<and> bc_Error c = None"
proof -
  have "testImage None ''box'' busybox_file finished_builder =
      (Done (''docker.io/warmmetal/box:v1'', None), finished_builder)"
    by (simp add: finished_builder_eq started_builder_def testImage_def lookup_build_def busybox_builds)
      (simp add: new_build_def build_image_name_def)
  from testImage_success [OF finished_builder_reachable(2) this] show ?thesis by auto
qed

text \<open>What buildkit is asked for a build, if it is asked at all.\<close>

definition requested :: "build_env \<Rightarrow> imageBuilderContext \<Rightarrow> SolveOpt option" where
  "requested be b =
     (case url_Parse (bc_Dockerfile b) of
        None \<Rightarrow>
          if be_writeFile be (bc_Name b @ ''.dockerfile'') (bc_Dockerfile b) = None then
            Some \<lparr>so_Frontend = ''dockerfile.v0'',
                  so_FrontendAttrs = [''filename'' \<mapsto> bc_Name b @ ''.dockerfile''],
                  so_LocalDirs = Some [''context'' \<mapsto> ''.'', ''dockerfile'' \<mapsto> ''.''],
                  so_ExportImage = bc_Image b\<rparr>
          else None
      | Some scheme \<Rightarrow>
          if scheme \<in> {''http'', ''https''} then
            Some \<lparr>so_Frontend = ''dockerfile.v0'', so_FrontendAttrs = [''context'' \<mapsto> bc_Dockerfile b],
                  so_LocalDirs = None, so_ExportImage = bc_Image b\<rparr>
          else None)"

text \<open>
  A goroutine that runs a build ends it, whatever the file system and buildkit
  do: the build is done and its context cancelled, and it succeeded exactly if buildkit was asked and solved it. Buildkit is asked to
  export the build's image, from the written Dockerfile or from the URL, under the context as it was; a text that parses
  as a URL of a scheme other than http and https is no request and fails.
\<close>

theorem start_finishes:
  "bc_Done (start be b) \<and> bc_Cancelled (start be b)
   \<and> bc_Name (start be b) = bc_Name b \<and> bc_Image (start be b) = bc_Image b
   \<and> (bc_Error (start be b) = None \<longleftrightarrow>
        (\<exists>opt. requested be b = Some opt \<and> be_solve be (bc_Cancelled b) opt = None))"
  by (cases "url_Parse (bc_Dockerfile b)")
    (auto simp: requested_def start_body_def solve_def base_SolveOpt_def Let_def split: option.splits)

text \<open>
  What counts as a Dockerfile. A text with a line break before any "#" is written to a file and built from
  it, whatever else is in it. But a text that begins with a comment, and has no per cent sign, is refused as invalid, and so is every single
  line without colon, per cent sign and "#" that does not begin with two slashes: both parse as a URL without a scheme.
\<close>

theorem dockerfile_kinds:
  assumes "d = bc_Dockerfile b"
  shows "(has_control (before CHR ''#'' d) \<longrightarrow>
      bc_Error (start be b) =
        (case be_writeFile be (bc_Name b @ ''.dockerfile'') d of
           Some err \<Rightarrow> Some err
         | None \<Rightarrow> map_option (\<lambda>err. Errorf (ErrorText err)) (be_solve be (bc_Cancelled b)
             \<lparr>so_Frontend = ''dockerfile.v0'', so_FrontendAttrs = [''filename'' \<mapsto> bc_Name b @ ''.dockerfile''],
              so_LocalDirs = Some [''context'' \<mapsto> ''.'', ''dockerfile'' \<mapsto> ''.''], so_ExportImage = bc_Image b\<rparr>)))
    \<and> (\<forall>text. d = CHR ''#'' # text \<and> CHR ''%'' \<notin> set text \<longrightarrow>
        bc_Error (start be b) = Some (Errorf ''invalid dockerfile''))
    \<and> (set d \<inter> set '':#%'' = {} \<and> \<not> has_control d \<and> take 2 d \<noteq> ''//'' \<longrightarrow>
        bc_Error (start be b) = Some (Errorf ''invalid dockerfile''))"
proof -
  have "bc_Error (start be b) = Some (Errorf ''invalid dockerfile'')" if "url_Parse (bc_Dockerfile b) = Some []"
    using that by (simp add: start_body_def Let_def)
  moreover have "bc_Error (start be b) =
        (case be_writeFile be (bc_Name b @ ''.dockerfile'') (bc_Dockerfile b) of
           Some err \<Rightarrow> Some err
         | None \<Rightarrow> map_option (\<lambda>err. Errorf (ErrorText err)) (be_solve be (bc_Cancelled b)
             \<lparr>so_Frontend = ''dockerfile.v0'', so_FrontendAttrs = [''filename'' \<mapsto> bc_Name b @ ''.dockerfile''],
              so_LocalDirs = Some [''context'' \<mapsto> ''.'', ''dockerfile'' \<mapsto> ''.''], so_ExportImage = bc_Image b\<rparr>))"
    if "url_Parse (bc_Dockerfile b) = None"
    using that by (simp add: start_body_def solve_def base_SolveOpt_def Let_def split: option.split)
  ultimately show ?thesis
    using Parse_control [of d] Parse_comment Parse_line [of d] by (auto simp: assms)
qed

theorem dockerfile_kinds_witness:
  "bc_Error (start willing_build (new_build ''box'' ''FROM busybox'')) = Some (Errorf ''invalid dockerfile'')
   \<and> bc_Error (start willing_build (new_build ''box'' (''# the shell'' @ [CHR 0x0A] @ ''FROM busybox''))) = Some (Errorf ''invalid dockerfile'')"
  using dockerfile_kinds [OF refl, of "new_build ''box'' ''FROM busybox''" willing_build]
    dockerfile_kinds [OF refl, of "new_build ''box'' (''# the shell'' @ [CHR 0x0A] @ ''FROM busybox'')" willing_build]
  by (simp add: new_build_def has_control_def)

text \<open>
  Polling a build that is still running starts it a second time: the poll answers that the
  image is under build, the map holds the new build, and the first one is orphaned, running on where neither
  \<open>testImage\<close> nor \<open>cancel\<close> for any app reaches it. A build that takes longer than the time between two polls
  is never seen to end.
\<close>

theorem testImage_restarts:
  assumes "reachable builder_init builder_step b"
    and "lookup_build b name = Some (a, c)" and "\<not> bc_Done c"
  shows "\<exists>b' a'. testImage None name d b = (Done (build_image_name name, Some underBuild), b')
    \<and> lookup_build b' name = Some (a', new_build name d) \<and> a' \<noteq> a \<and> ib_running b' a' = Some Working
    \<and> ib_running b' a = ib_running b a \<and> ib_running b a \<noteq> None \<and> ib_store b' a = Some c
    \<and> (\<forall>n. ib_store (cancel n b') a = Some c) \<and> (\<forall>n c'. lookup_build b' n \<noteq> Some (a, c'))"
proof -
  have inv: "builder_inv b" using assms(1) by (rule builder.inv_reachable)
  from assms(2) obtain m where m: "ib_appMap b = Some m" "m name = Some a" and c: "ib_store b a = Some c"
    by (auto simp: lookup_build_Some)
  have fresh: "a < ib_next b" and runs: "ib_running b a \<noteq> None"
    using builder_inv_ctx [OF inv c] assms(3) by (auto simp: context_ok_def)
  show ?thesis
  proof (rule testImage_cases [of b name None d])
    fix m'
    assume m': "ib_appMap b = Some m'"
      and t: "testImage None name d b =
         (Done (build_image_name name, early_error None name d), early_steps None (ib_next b) (with_new_build m' name d b))"
    let ?b = "with_new_build m' name d b"
    have owner: "n = name" if "m' n = Some a" for n
    proof -
      from m(1) m' have "m' = m" by simp
      with that have "m n = Some a" by simp
      from builder_inv_map [OF inv m(1) this] builder_inv_map [OF inv m] c show ?thesis by auto
    qed
    have lost: "lookup_build ?b n \<noteq> Some (a, c')" for n c'
      using owner fresh by (auto simp: lookup_build_Some with_new_build_def split: if_splits)
    have store: "ib_store ?b a = Some c" "ib_running ?b a = ib_running b a"
      using fresh c by (simp_all add: with_new_build_def)
    have kept: "ib_store (cancel n ?b) a = Some c" for n
    proof (cases "lookup_build ?b n")
      case None
      with store show ?thesis by (simp add: cancel_def)
    next
      case (Some ac)
      with lost [of n] have "fst ac \<noteq> a" by (cases ac) auto
      with Some store show ?thesis by (simp add: cancel_def case_prod_beta)
    qed
    have "lookup_build ?b name = Some (ib_next b, new_build name d)" "ib_running ?b (ib_next b) = Some Working"
      by (simp_all add: lookup_build_def with_new_build_def)
    with t lost kept store fresh runs show ?thesis
      by (intro exI [of _ ?b] exI [of _ "ib_next b"]) (simp add: early_error_def early_steps_def)
  qed (use assms m in auto)
qed

lemma testImage_restarts_witness:
  "\<exists>b' a'. testImage None ''box'' busybox_file started_builder =
      (Done (build_image_name ''box'', Some underBuild), b') \<and> a' \<noteq> 0 \<and> ib_running b' 0 = Some Working \<and> ib_running b' a' = Some Working"
  using testImage_restarts [OF started_builder_reachable, of "''box''" 0 "new_build ''box'' busybox_file"
      "busybox_file"]
  by (auto simp: started_builder_def lookup_build_def new_build_def)

section \<open>Waiting for the image\<close>

text \<open>
  The reconciler drops the error of a build: while the builder answers with one, it makes no call at all for the app, which
  stays in the phase Building with no error in its status, and it comes back after five seconds.
\<close>

lemma building_drops_error:
  assumes "spec_Image (app_Spec app) = []"
    and "testImage (e_early env (w_calls w)) (app_Name app) (spec_Dockerfile (app_Spec app)) (w_builder w) = (Done (img, Some err), b')"
  shows "building_case env app w =
    (Done (zero_Result\<lparr>res_RequeueAfter := 5 * Second\<rparr>, None, app), w\<lparr>w_builder := b'\<rparr>)"
  using assms by (simp add: building_case_def builder_test_def with_builder_def bnd_def ret_def Let_def)

text \<open>
  Retrying the update of the image on a conflict does not help: as the closure does not read
  the app again, each try submits the same object, and when the server goes on to answer with a
  conflict the retries are used up and the conflict is the result.
\<close>

lemma update_image_resubmits:
  assumes "\<forall>h. \<exists>s. e_update env h = Inl (ApiError Conflict s)" and "n > 0"
  shows "\<exists>s. RetryOnConflict n (update_image env img) app w =
    (Done (Some (ApiError Conflict s), set_Image img app),
     w\<lparr>w_calls := w_calls w @ replicate n (CUpdate (set_Image img app))\<rparr>)"
  using assms(2)
proof (induction n arbitrary: app w)
  case (Suc n)
  obtain s where s: "e_update env (w_calls w @ [CUpdate (set_Image img app)]) = Inl (ApiError Conflict s)"
    using assms(1) by blast
  then have once: "update_image env img app w =
      (Done (Some (ApiError Conflict s), set_Image img app),
       w\<lparr>w_calls := w_calls w @ [CUpdate (set_Image img app)]\<rparr>)"
    by (simp add: update_image_def bnd_def ask_def ret_def Let_def)
  show ?case
  proof (cases "n > 0")
    case True
    from Suc.IH [OF True, of "set_Image img app" "w\<lparr>w_calls := w_calls w @ [CUpdate (set_Image img app)]\<rparr>"]
    show ?thesis using True by (simp add: bnd_def once)
  next
    case False
    then show ?thesis by (simp add: bnd_def once ret_def)
  qed
qed simp

section \<open>The hash of a spec\<close>

lemma fnv_prime_inverse: "fnv_prime32 * 899433627 = 1"
  by (simp add: fnv_prime32_def)

lemma fnv_mult_inject:
  assumes "a * fnv_prime32 = b * fnv_prime32"
  shows "a = b"
proof -
  have undo: "x * fnv_prime32 * 899433627 = x" for x :: "32 word"
    by (simp only: mult.assoc fnv_prime_inverse mult_1_right)
  have "a = a * fnv_prime32 * 899433627" by (simp only: undo)
  also have "\<dots> = b * fnv_prime32 * 899433627" by (simp only: assms)
  also have "\<dots> = b" by (simp only: undo)
  finally show ?thesis .
qed

lemma xor_cancel_right:
  fixes h k x :: "32 word"
  assumes "xor h x = xor k x"
  shows "h = k"
proof -
  have undo: "xor (xor y x) x = y" for y :: "32 word"
    by (simp only: xor.assoc xor_self_eq xor.right_neutral)
  have "h = xor (xor h x) x" by (simp only: undo)
  also have "\<dots> = xor (xor k x) x" by (simp only: assms)
  also have "\<dots> = k" by (simp only: undo)
  finally show ?thesis .
qed

lemma fnv_byte_inject_state: "fnv_byte h c = fnv_byte k c \<Longrightarrow> h = k"
  unfolding fnv_byte_def by (drule fnv_mult_inject) (rule xor_cancel_right)

lemma fnv_byte_inject_char:
  assumes "fnv_byte h c = fnv_byte h d"
  shows "c = d"
proof -
  from assms have "xor h (word_of_nat (of_char c)) = xor h (word_of_nat (of_char d))"
    unfolding fnv_byte_def by (rule fnv_mult_inject)
  then have "xor (word_of_nat (of_char c)) h = xor (word_of_nat (of_char d)) h" by (simp add: xor.commute)
  then have "(word_of_nat (of_char c) :: 32 word) = word_of_nat (of_char d)" by (rule xor_cancel_right)
  then have "unat (word_of_nat (of_char c) :: 32 word) = unat (word_of_nat (of_char d) :: 32 word)"
    by (rule arg_cong)
  moreover have "unat (word_of_nat (of_char x) :: 32 word) = of_char x" for x :: char
  proof -
    have "(of_char x :: nat) < 2 ^ LENGTH(32)"
      by (rule less_trans [OF nat_of_char_less_256]) simp
    then show ?thesis by (simp add: unat_of_nat take_bit_nat_eq_self)
  qed
  ultimately show "c = d" by simp
qed

lemma fnv_foldl_inject: "foldl fnv_byte h s = foldl fnv_byte k s \<Longrightarrow> h = k"
  by (induction s arbitrary: h k) (auto dest: fnv_byte_inject_state)

text \<open>
  Two dumps that differ in exactly one byte never have the same 32-bit hash.
\<close>

theorem fnv32a_one_byte:
  assumes "c \<noteq> d"
  shows "fnv32a (pre @ c # post) \<noteq> fnv32a (pre @ d # post)"
proof
  assume "fnv32a (pre @ c # post) = fnv32a (pre @ d # post)"
  then have "foldl fnv_byte (fnv_byte (foldl fnv_byte fnv_offset32 pre) c) post
      = foldl fnv_byte (fnv_byte (foldl fnv_byte fnv_offset32 pre) d) post"
    by (simp add: fnv32a_def)
  from fnv_byte_inject_char [OF fnv_foldl_inject [OF this]] assms show False by simp
qed

lemma fnv32a_one_byte_witness: "fnv32a ''v1'' \<noteq> fnv32a ''v2''"
  using fnv32a_one_byte [of "CHR ''1''" "CHR ''2''" "''v''" "[]"] by simp

end
