(* ===== verification/Building.thy ===== *)
theory Building
  imports ConvergeLive BuilderProps
begin

text \<open>
  The reconciler and the image builder together, over any number of runs: an app without an image waits in the phase Building
  for its build. Between two runs, goroutines of the builder make their steps.
\<close>

section \<open>A run that polls\<close>

text \<open>An app that waits for its image.\<close>

definition waits_for_image :: "CliApp \<Rightarrow> bool" where
  "waits_for_image app \<longleftrightarrow> validateApp app = None \<and> TargetPhase app = CliAppPhaseLive
     \<and> Phase app = CliAppPhaseBuilding \<and> spec_Image (app_Spec app) = []"

lemma waiting_run:
  assumes "consistent app0 env" and "waits_for_image (stored_in app0 w)"
    and "testImage (e_early env (w_calls w @ [CGetApp (app_Namespace app0) (app_Name app0)])) (app_Name app0)
        (spec_Dockerfile (app_Spec (stored_in app0 w))) (w_builder w) = (Done (img, Some err), b')"
  shows "run_once env r app0 w =
    w\<lparr>w_calls := w_calls w @ [CGetApp (app_Namespace app0) (app_Name app0)], w_builder := b'\<rparr>"
proof -
  let ?w = "w\<lparr>w_calls := w_calls w @ [CGetApp (app_Namespace app0) (app_Name app0)]\<rparr>"
  let ?app = "set_Error [] (stored_in app0 w)"
  have "validateApp ?app = None"
    using assms(2) validateApp_spec [of ?app "stored_in app0 w"] by (simp add: waits_for_image_def)
  moreover have "building_case env ?app ?w =
      (Done (zero_Result\<lparr>res_RequeueAfter := 5 * Second\<rparr>, None, ?app), ?w\<lparr>w_builder := b'\<rparr>)"
    by (rule building_drops_error) (use assms(2,3) in \<open>simp_all add: waits_for_image_def\<close>)
  ultimately show ?thesis
    using assms(1,2)
    by (simp add: run_once_def Reconcile_def reconcile_body_def makeAppLive_def waits_for_image_def report_error_def
        bnd_def ask_def ret_def Let_def)
qed

section \<open>Builds that are too slow\<close>

text \<open>
  What happens while the app waits: the reconciler runs, or a goroutine makes a step. Excluded is only that
  a build of the app ends without an error, while the builder's map holds it, or before the poll that starts it has returned.
\<close>

inductive slow_step :: "env \<Rightarrow> CliAppReconciler \<Rightarrow> CliApp \<Rightarrow> world \<Rightarrow> world \<Rightarrow> bool" for env r app0 where
  Run: "(\<And>be. e_early env (w_calls w @ [CGetApp (app_Namespace app0) (app_Name app0)]) = Some be \<Longrightarrow>
       start_body be (new_build (app_Name app0) (spec_Dockerfile (app_Spec (stored_in app0 w)))) \<noteq> None) \<Longrightarrow>
     slow_step env r app0 w (run_once env r app0 w)"
| Builds: "ib_running (w_builder w) a \<noteq> None \<Longrightarrow>
     (\<And>c. lookup_build (w_builder w) (app_Name app0) = Some (a, c) \<Longrightarrow> ib_running (w_builder w) a = Some Working \<Longrightarrow>
       start_body be c \<noteq> None) \<Longrightarrow>
     slow_step env r app0 w (w\<lparr>w_builder := goroutine_step be a (w_builder w)\<rparr>)"

definition no_image_yet :: "string \<Rightarrow> ImageBuilder \<Rightarrow> bool" where
  "no_image_yet name b \<longleftrightarrow> ib_appMap b \<noteq> None
     \<and> (\<forall>a c. lookup_build b name = Some (a, c) \<longrightarrow> bc_Error c \<noteq> None)"

lemma no_image_yet_end:
  assumes "no_image_yet name b"
    and "\<And>c. lookup_build b name = Some (a, c) \<Longrightarrow> ib_running b a = Some Working \<Longrightarrow> start_body be c \<noteq> None"
  shows "no_image_yet name (goroutine_step be a b)"
  using assms
  by (auto simp: no_image_yet_def lookup_build_Some goroutine_step_def fallback_def split: if_splits option.splits build_stage.splits)

lemma no_image_yet_poll:
  assumes "no_image_yet name b" and "\<And>be. early = Some be \<Longrightarrow> start_body be (new_build name d) \<noteq> None"
  obtains img err b' where "testImage early name d b = (Done (img, Some err), b')" and "no_image_yet name b'"
proof (rule testImage_cases [of b name early d])
  fix a c
  assume l: "lookup_build b name = Some (a, c)" and t: "testImage early name d b = (Done (bc_Image c, bc_Error c), b)"
  with assms(1) obtain err where "bc_Error c = Some err" by (auto simp: no_image_yet_def)
  with t assms(1) show thesis by (intro that [of "bc_Image c" err b]) simp_all
next
  fix m
  assume t: "testImage early name d b =
         (Done (build_image_name name, early_error early name d), early_steps early (ib_next b) (with_new_build m name d b))"
  have "early_error early name d \<noteq> None" using assms(2) by (cases early) (simp_all add: early_error_def)
  then obtain err where err: "early_error early name d = Some err" by blast
  have started: "lookup_build (with_new_build m name d b) name = Some (a, c) \<Longrightarrow> c = new_build name d" for a c
    by (auto simp: lookup_build_def with_new_build_def)
  then have "no_image_yet name (with_new_build m name d b)" by (auto simp: no_image_yet_def new_build_def)
  with assms(2) started have "no_image_yet name (early_steps early (ib_next b) (with_new_build m name d b))"
    by (cases early) (auto simp: early_steps_def intro: no_image_yet_end)
  with t err show thesis by (intro that) simp_all
qed (use assms in \<open>simp_all add: no_image_yet_def\<close>)

lemma slow_step_waits:
  assumes "slow_step env r app0 w w'" and "consistent app0 env"
    and "waits_for_image (stored_in app0 w)" and "no_image_yet (app_Name app0) (w_builder w)"
  shows "stored_in app0 w' = stored_in app0 w \<and> no_image_yet (app_Name app0) (w_builder w')"
  using assms(1)
proof cases
  case Run
  let ?early = "e_early env (w_calls w @ [CGetApp (app_Namespace app0) (app_Name app0)])"
  obtain img err b' where t: "testImage ?early (app_Name app0) (spec_Dockerfile (app_Spec (stored_in app0 w))) (w_builder w)
      = (Done (img, Some err), b')" and b': "no_image_yet (app_Name app0) b'"
    by (rule no_image_yet_poll [OF assms(4) Run(2)])
  from waiting_run [OF assms(2,3) t, of r] b' show ?thesis by (simp add: Run(1))
next
  case (Builds a be)
  with no_image_yet_end [OF assms(4)] show ?thesis by simp
qed

text \<open>
  C26. An app whose builds are slower than the polls never comes up. As long as no build of the app ends without an error while the
  builder's map still holds it, nor before the poll that started it returned, however often the reconciler runs and whatever else ends: the app stays in the phase Building, and nothing
  of it is written, no error either. For each poll replaces the unfinished build by a new one, and the error of a failed build is dropped.
\<close>

theorem slow_builds_never_end:
  assumes "consistent app0 env"
    and "waits_for_image (stored_in app0 w)" and "no_image_yet (app_Name app0) (w_builder w)"
    and "(slow_step env r app0)\<^sup>*\<^sup>* w w'"
  shows "stored_in app0 w' = stored_in app0 w \<and> Phase (stored_in app0 w') = CliAppPhaseBuilding"
proof -
  have "stored_in app0 w' = stored_in app0 w \<and> no_image_yet (app_Name app0) (w_builder w')"
    using assms(4)
  proof (induction rule: rtranclp_induct)
    case (step u v)
    then have "waits_for_image (stored_in app0 u)" using assms(2) by simp
    with slow_step_waits [OF step.hyps(2) assms(1)] step.IH show ?case by simp
  qed (use assms(3) in simp)
  with assms(2) show ?thesis by (simp add: waits_for_image_def)
qed

definition sample_building :: CliApp where
  "sample_building = set_Image [] (set_TargetPhase CliAppPhaseLive (set_Phase CliAppPhaseBuilding
     (sample_app\<lparr>app_Spec := (app_Spec sample_app)\<lparr>spec_Dockerfile := busybox_file\<rparr>\<rparr>)))"

definition building_world :: "ImageBuilder \<Rightarrow> world" where
  "building_world b = \<lparr>w_calls = [], w_builder = b\<rparr>"

lemma sample_building_waits:
  "waits_for_image sample_building" "app_Name sample_building = ''box''" "app_Namespace sample_building = ''default''"
  by (simp_all add: waits_for_image_def sample_building_def sample_app_def sample_spec_def validateApp_def busybox_file_def Let_def)

theorem slow_builds_never_end_witness:
  "stored_in sample_building (run_once (quiet_env sample_building []) sample_reconciler sample_building
     (building_world started_builder)) = sample_building"
proof -
  have "no_image_yet (app_Name sample_building) (w_builder (building_world started_builder))"
    by (simp add: no_image_yet_def started_builder_def building_world_def lookup_build_def new_build_def)
  moreover have "(slow_step (quiet_env sample_building []) sample_reconciler sample_building)\<^sup>*\<^sup>*
      (building_world started_builder)
      (run_once (quiet_env sample_building []) sample_reconciler sample_building (building_world started_builder))"
    by (intro r_into_rtranclp slow_step.Run) (simp add: quiet_env_def)
  ultimately show ?thesis
    using slow_builds_never_end [of sample_building "quiet_env sample_building []" "building_world started_builder"
        sample_reconciler]
    by (simp add: sample_building_waits building_world_def)
qed

section \<open>A build that is in time\<close>

text \<open>The update of the image, when the server stores what it is given.\<close>

definition stores_updates :: "CliApp \<Rightarrow> env \<Rightarrow> bool" where
  "stores_updates app0 env \<longleftrightarrow> (\<forall>h. e_update env h = Inr (stored app0 h)) \<and> 0 < e_retrySteps env"

lemma wp_store_image:
  assumes "stores_updates app0 env"
  shows "wp (RetryOnConflict (e_retrySteps env) (update_image env img) app) Q E w =
    Q (None, (stored_in app0 w)\<lparr>app_Spec := (app_Spec app)\<lparr>spec_Image := img\<rparr>\<rparr>)
      (w\<lparr>w_calls := w_calls w @ [CUpdate (set_Image img app)]\<rparr>)"
proof -
  obtain n where "e_retrySteps env = Suc n" using assms by (auto simp: stores_updates_def gr0_conv_Suc)
  with assms show ?thesis by (simp add: stores_updates_def update_image_def Let_def)
qed

text \<open>
  When the build that the map holds is done without an error, the next run
  stores the image \<open>docker.io/warmmetal/NAME:v1\<close> in the spec, changes nothing else of it, and moves the app on to Recovering.
\<close>

lemma built_image_is_stored:
  assumes "consistent app0 env" and "stores_updates app0 env"
    and "waits_for_image (stored_in app0 w)"
    and "reachable builder_init builder_step (w_builder w)"
    and "lookup_build (w_builder w) (app_Name app0) = Some (a, c)" and "bc_Done c" and "bc_Error c = None"
  shows "let app = stored_in app0 w; app' = stored_in app0 (run_once env r app0 w) in
    app_Spec app' = (app_Spec app)\<lparr>spec_Image := ''docker.io/warmmetal/'' @ app_Name app0 @ '':v1''\<rparr>
    \<and> Phase app' = CliAppPhaseRecovering \<and> w_builder (run_once env r app0 w) = w_builder w"
proof -
  let ?app = "set_Error [] (stored_in app0 w)"
  have valid: "validateApp ?app = None"
    using assms(3) validateApp_spec [of ?app "stored_in app0 w"] by (simp add: waits_for_image_def)
  have inv: "builder_inv (w_builder w)" using assms(4) by (rule builder.inv_reachable)
  from assms(5) obtain m where m: "ib_appMap (w_builder w) = Some m" "m (app_Name app0) = Some a"
    and c: "ib_store (w_builder w) a = Some c"
    by (auto simp: lookup_build_Some)
  from builder_inv_map [OF inv m] c have "bc_Name c = app_Name app0" by simp
  with builder_inv_ctx [OF inv c] have name: "bc_Image c = ''docker.io/warmmetal/'' @ app_Name app0 @ '':v1''"
    by (simp add: build_image_name_def context_ok_def)
  have poll: "testImage early (app_Name app0) d (w_builder w) = (Done (bc_Image c, None), w_builder w)" for early d
    using testImage_done [OF assms(5,6)] assms(7) by simp
  have "wp (Reconcile env r (app_Namespace app0) (app_Name app0))
      (\<lambda>_ w'. app_Spec (stored_in app0 w') = (app_Spec (stored_in app0 w))\<lparr>spec_Image := bc_Image c\<rparr>
         \<and> Phase (stored_in app0 w') = CliAppPhaseRecovering \<and> w_builder w' = w_builder w)
      (\<lambda>_ _. False) w"
    unfolding wp_Reconcile_stored [OF assms(1)]
    using assms(1,3) valid
    by (simp add: waits_for_image_def reconcile_body_def makeAppLive_def building_case_def wp_simps
        wp_report_error wp_store_image [OF assms(2)] wp_def [of "testImage _ _ _"] poll Let_def transit_ok_def transited_def)
  from wp_no_panic [OF this] show ?thesis by (auto simp: run_once_def Let_def name)
qed

text \<open>
  C10. A build that ends in time brings the app up. When the build that the map holds is done without an error, the app gets the
  image \<open>docker.io/warmmetal/NAME:v1\<close>, nothing else of its spec changes, and after finitely many runs it is in the phase Live, with the name of the
  pod that is ready with this spec in its status, and stays so.
\<close>

theorem built_app_comes_up:
  assumes "consistent app0 env" and "stores_updates app0 env"
    and "waits_for_image (stored_in app0 w)"
    and "reachable builder_init builder_step (w_builder w)"
    and "lookup_build (w_builder w) (app_Name app0) = Some (a, c)" and "bc_Done c" and "bc_Error c = None"
    and "app1 = set_Image (''docker.io/warmmetal/'' @ app_Name app0 @ '':v1'') (stored_in app0 w)"
    and "settles env app1 p n" and "r_ToRESTConfig r () = Inr cfg"
  shows "\<exists>k. \<forall>j \<ge> k. let app = stored_in app0 ((run_once env r app0 ^^ j) w)
           in Phase app = CliAppPhaseLive \<and> PodName app = pod_Name p \<and> app_Spec app = app_Spec app1"
proof -
  let ?w = "run_once env r app0 w"
  have next_run: "app_Spec (stored_in app0 ?w) = app_Spec app1" "Phase (stored_in app0 ?w) = CliAppPhaseRecovering"
    using built_image_is_stored [OF assms(1-7), of r] by (simp_all add: Let_def assms(8))
  have bound: "live_bound app1"
    using assms(3) unfolding waits_for_image_def live_bound_def assms(8)
    by (auto simp: validateApp_def Let_def split: if_splits option.splits)
  have "\<exists>k. live_with app1 app0 p n ((run_once env r app0 ^^ k) ?w)"
    by (rule leads_to_live [OF assms(1) bound assms(9,10)])
      (simp only: fixed_as_def next_run declared_phases_def, simp)
  then obtain k where "live_with app1 app0 p n ((run_once env r app0 ^^ Suc k) w)"
    by (auto simp: funpow_Suc_right simp del: funpow.simps)
  then have "\<exists>k. live_with app1 app0 p n ((run_once env r app0 ^^ k) w)" by blast
  then have "\<exists>k. \<forall>j \<ge> k. live_with app1 app0 p n ((run_once env r app0 ^^ j) w)"
  proof (rule run_progress.stays)
    fix w assume "live_with app1 app0 p n w"
    then show "live_with app1 app0 p n (run_once env r app0 w)"
      by (intro late_run_live [OF assms(1) bound assms(9,10)]) (simp_all add: live_with_late)
  qed
  then show ?thesis by (auto simp: live_with_def fixed_as_def Let_def)
qed

definition built_app :: CliApp where
  "built_app = set_Image (''docker.io/warmmetal/box:v1'') sample_building"

definition built_pod :: Pod where
  "built_pod = (sample_pod ''box-1'' (encodeSpec (app_Spec built_app)) [])
     \<lparr>pod_Status := \<lparr>pst_Phase = ''Running'', pst_Conditions = [\<lparr>pc_Type = ''Ready'', pc_Status = ''True''\<rparr>]\<rparr>\<rparr>"

lemma built_pod_settles: "settles (quiet_env sample_building [built_pod]) built_app built_pod 0"
proof -
  let ?dump = "encodeSpec (app_Spec built_app)"
  have marks: "annotation built_pod annoKeySpecDump = ?dump" "pod_DeletionTimestamp built_pod = None"
    "IsPodReady built_pod" "pod_Name built_pod \<noteq> []"
    by (simp_all add: built_pod_def sample_pod_def zero_Pod_def IsPodReady_find)
  have "snd (sort_pods ?dump h [built_pod]) = [built_pod]" for h
    by (simp add: sort_pods_eq marks Let_def del: annoKeySpecDump_def)
  then show ?thesis
    using marks unfolding settles_def
    by (intro conjI exI [of _ "[built_pod]"] exI [of _ "[]"]) (simp_all add: quiet_env_def)
qed

theorem built_app_comes_up_witness:
  "\<exists>k. \<forall>j \<ge> k. let app = stored_in sample_building ((run_once (quiet_env sample_building [built_pod]) sample_reconciler
       sample_building ^^ j) (building_world finished_builder))
     in Phase app = CliAppPhaseLive \<and> PodName app = pod_Name built_pod \<and> app_Spec app = app_Spec built_app"
proof -
  obtain c where "lookup_build finished_builder ''box'' = Some (0, c)" "bc_Done c" "bc_Error c = None"
    by (simp add: finished_builder_eq started_builder_def lookup_build_def busybox_builds)
  moreover have "stores_updates sample_building (quiet_env sample_building [built_pod])"
    by (simp add: stores_updates_def quiet_env_def)
  moreover have "r_ToRESTConfig sample_reconciler () = Inr ''config''" by (simp add: sample_reconciler_def)
  ultimately show ?thesis
    using finished_builder_reachable(2)
    by (intro built_app_comes_up [OF quiet_env_consistent _ _ _ _ _ _ _ built_pod_settles, where a = 0 and c = c])
      (simp_all add: sample_building_waits building_world_def built_app_def)
qed

end
