(* ===== verification/Session.thy ===== *)
theory Session
  imports SessionApp
begin

text \<open>
  pkg/gate/session.go: the session of one app, which the clients of that app share. A client opens it
  (\<open>open\<close>), uses it and closes it (\<open>close\<close>); the first client in starts the app through a goroutine
  (\<open>remoteOpen\<close>, \<open>commitChanges\<close>), the last one out stops it (\<open>remoteClose\<close>). The steps below are the
  pieces of that code that no other goroutine can interrupt: an atomic counter operation, an access to \<open>t.app\<close>,
  which has no lock, a region under \<open>t.guard\<close>, an operation on a channel. \<open>gate_step\<close> executes one; clients and goroutines
  interleave in any order. What the API does is an argument of the step that ends a remote change.
\<close>

section \<open>State\<close>

text \<open>
  A \<open>RemoteChanges\<close>, by the progress of the goroutine that runs \<open>commitChanges\<close> on it: in
  \<open>ApplyChanges\<close>; sending its error on the unbuffered channel; running the deferred function; about to close
  the channel; done, with the channel closed.
\<close>

datatype stage = Applying | Sending goerror | Cleaning | Releasing | Finished

record RemoteChange =
  rc_open :: bool
  rc_cancelled :: bool
  rc_stage :: stage

text \<open>
  A client, by what it does next. \<open>Counted n\<close>: \<open>Add\<close> returned \<open>n\<close>; \<open>Opened err\<close>: \<open>open\<close> has its error and reads
  \<open>t.app\<close>; \<open>Holding err app\<close>: \<open>open\<close> returned; \<open>Attached app\<close>: the stream to the pod is open.
\<close>

datatype client =
    Outside | Counted int | ToRemoteOpen | AwaitOpen nat | Opened "goerror option"
  | Holding "goerror option" "CliApp option" | Attached CliApp | ToRemoteClose | AwaitClose nat
  | Left "goerror option"

text \<open>
  \<open>appSession\<close>: the counter (an \<open>int32\<close>, far from its bound, since each count is a goroutine), \<open>t.app\<close>, the outgoing
  changes by their address, and the change that \<open>ctxCancel\<close> cancels. \<open>s_crash\<close> is the panic that ended the process.
\<close>

record session =
  s_active :: int
  s_app :: "CliApp option"
  s_open :: "nat option"
  s_close :: "nat option"
  s_ctxCancel :: "nat option"
  s_changes :: "RemoteChange list"
  s_clients :: "nat \<Rightarrow> client"
  s_crash :: "string option"

definition new_session :: session where
  "new_session =
     \<lparr>s_active = 0, s_app = None, s_open = None, s_close = None, s_ctxCancel = None, s_changes = [],
      s_clients = (\<lambda>_. Outside), s_crash = None\<rparr>"

section \<open>Steps\<close>

definition crash :: "string \<Rightarrow> session \<Rightarrow> session" where
  "crash p s = s\<lparr>s_crash := Some p\<rparr>"

definition client_to :: "nat \<Rightarrow> client \<Rightarrow> session \<Rightarrow> session" where
  "client_to c k s = s\<lparr>s_clients := (s_clients s)(c := k)\<rparr>"

definition stage_to :: "nat \<Rightarrow> stage \<Rightarrow> session \<Rightarrow> session" where
  "stage_to i st s = s\<lparr>s_changes := (s_changes s)[i := (s_changes s ! i)\<lparr>rc_stage := st\<rparr>]\<rparr>"

definition cancel_change :: "nat \<Rightarrow> session \<Rightarrow> session" where
  "cancel_change i s = s\<lparr>s_changes := (s_changes s)[i := (s_changes s ! i)\<lparr>rc_cancelled := True\<rparr>]\<rparr>"

text \<open>\<open>t.ctxCancel()\<close>, a call of nil when it is not set.\<close>

definition call_ctxCancel :: "session \<Rightarrow> session" where
  "call_ctxCancel s = (case s_ctxCancel s of None \<Rightarrow> crash ''nil ctxCancel'' s | Some i \<Rightarrow> cancel_change i s)"

definition new_change :: "bool \<Rightarrow> RemoteChange" where
  "new_change is_open = \<lparr>rc_open = is_open, rc_cancelled = False, rc_stage = Applying\<rparr>"

definition count_in :: "nat \<Rightarrow> session \<Rightarrow> session" where
  "count_in c s =
     (let active = s_active s + 1; s = s\<lparr>s_active := active\<rparr>
      in if active < 1 then crash ''active < 1'' s else client_to c (Counted active) s)"

definition check_open :: "nat \<Rightarrow> int \<Rightarrow> session \<Rightarrow> session" where
  "check_open c active s =
     (if active > 1 \<and> s_app s \<noteq> None then client_to c (Opened None) s else client_to c ToRemoteOpen s)"

definition remoteOpen :: "nat \<Rightarrow> session \<Rightarrow> session" where
  "remoteOpen c s =
     (case s_open s of
        Some i \<Rightarrow>
          if s_close s \<noteq> None then crash ''t.outgoingCloseSession != nil'' s
          else client_to c (AwaitOpen i) s
      | None \<Rightarrow>
          let s = (if s_close s \<noteq> None then (call_ctxCancel s)\<lparr>s_close := None, s_ctxCancel := None\<rparr> else s);
              i = length (s_changes s)
          in client_to c (AwaitOpen i)
               (s\<lparr>s_changes := s_changes s @ [new_change True], s_open := Some i, s_ctxCancel := Some i\<rparr>))"

definition remoteClose :: "nat \<Rightarrow> session \<Rightarrow> session" where
  "remoteClose c s =
     (if s_close s \<noteq> None then crash ''try to close an app more than once'' s
      else
        let s = (if s_open s \<noteq> None then (call_ctxCancel s)\<lparr>s_open := None, s_ctxCancel := None\<rparr> else s);
            i = length (s_changes s)
        in client_to c (AwaitClose i)
             (s\<lparr>s_app := None, s_changes := s_changes s @ [new_change False], s_close := Some i,
                s_ctxCancel := Some i\<rparr>))"

definition count_out :: "nat \<Rightarrow> session \<Rightarrow> session" where
  "count_out c s =
     (let active = s_active s - 1; s = s\<lparr>s_active := active\<rparr>
      in if active < 0 then crash ''active < 0'' s
         else if active > 0 then client_to c (Left None) s else client_to c ToRemoteClose s)"

text \<open>
  The ends of \<open>ApplyChanges\<close>: of an open change with the result of \<open>startApp\<close>, where the test of \<open>t.app\<close> and the assignment are taken
  as one step; of a close change with the error of \<open>closeApp\<close>. Then the deferred function and the closing of the channel.
\<close>

definition open_applied :: "nat \<Rightarrow> goerror + CliApp \<Rightarrow> session \<Rightarrow> session" where
  "open_applied i res s =
     (case res of
        Inl err \<Rightarrow> stage_to i (Sending err) s
      | Inr app \<Rightarrow>
          if s_app s \<noteq> None then crash ''t.app != nil'' s else stage_to i Cleaning (s\<lparr>s_app := Some app\<rparr>))"

definition close_applied :: "nat \<Rightarrow> goerror option \<Rightarrow> session \<Rightarrow> session" where
  "close_applied i res s =
     (case res of Some err \<Rightarrow> stage_to i (Sending err) s | None \<Rightarrow> stage_to i Cleaning s)"

definition clean_up :: "nat \<Rightarrow> session \<Rightarrow> session" where
  "clean_up i s =
     (let s = stage_to i Releasing (cancel_change i s)
      in if s_open s = Some i \<or> s_close s = Some i
         then s\<lparr>s_open := None, s_close := None, s_ctxCancel := None\<rparr> else s)"

datatype event =
    CountIn nat | CheckOpen nat | RemoteOpen nat | ReadApp nat | Attach nat | CountOut nat | RemoteClose nat
  | Receive nat | OpenApplied nat "goerror + CliApp" | CloseApplied nat "goerror option" | CleanUp nat
  | CloseChannel nat

text \<open>What a receive on the channel of change \<open>i\<close> yields: the error being sent, nil of a closed channel, or nothing yet.\<close>

definition received :: "nat \<Rightarrow> session \<Rightarrow> (goerror option \<times> session) option" where
  "received i s =
     (case rc_stage (s_changes s ! i) of
        Sending err \<Rightarrow> Some (Some err, stage_to i Cleaning s)
      | Finished \<Rightarrow> Some (None, s)
      | _ \<Rightarrow> None)"

definition is_at :: "nat \<Rightarrow> bool \<Rightarrow> stage \<Rightarrow> session \<Rightarrow> bool" where
  "is_at i is_open st s \<longleftrightarrow>
     i < length (s_changes s) \<and> rc_open (s_changes s ! i) = is_open \<and> rc_stage (s_changes s ! i) = st"

definition client_step :: "event \<Rightarrow> session \<Rightarrow> session option" where
  "client_step ev s =
     (case ev of
        CountIn c \<Rightarrow> (case s_clients s c of Outside \<Rightarrow> Some (count_in c s) | _ \<Rightarrow> None)
      | CheckOpen c \<Rightarrow> (case s_clients s c of Counted n \<Rightarrow> Some (check_open c n s) | _ \<Rightarrow> None)
      | RemoteOpen c \<Rightarrow> (case s_clients s c of ToRemoteOpen \<Rightarrow> Some (remoteOpen c s) | _ \<Rightarrow> None)
      | ReadApp c \<Rightarrow>
          (case s_clients s c of Opened err \<Rightarrow> Some (client_to c (Holding err (s_app s)) s) | _ \<Rightarrow> None)
      | Attach c \<Rightarrow>
          (case s_clients s c of
             Holding None None \<Rightarrow> Some (crash ''nil pointer dereference'' s)
           | Holding None (Some app) \<Rightarrow> Some (client_to c (Attached app) s)
           | _ \<Rightarrow> None)
      | CountOut c \<Rightarrow>
          (case s_clients s c of
             Holding (Some err) app \<Rightarrow> Some (count_out c s)
           | Attached app \<Rightarrow> Some (count_out c s)
           | _ \<Rightarrow> None)
      | RemoteClose c \<Rightarrow> (case s_clients s c of ToRemoteClose \<Rightarrow> Some (remoteClose c s) | _ \<Rightarrow> None)
      | Receive c \<Rightarrow>
          (case s_clients s c of
             AwaitOpen i \<Rightarrow> map_option (\<lambda>(err, s). client_to c (Opened err) s) (received i s)
           | AwaitClose i \<Rightarrow> map_option (\<lambda>(err, s). client_to c (Left err) s) (received i s)
           | _ \<Rightarrow> None)
      | _ \<Rightarrow> None)"

definition change_step :: "event \<Rightarrow> session \<Rightarrow> session option" where
  "change_step ev s =
     (case ev of
        OpenApplied i res \<Rightarrow> if is_at i True Applying s then Some (open_applied i res s) else None
      | CloseApplied i res \<Rightarrow> if is_at i False Applying s then Some (close_applied i res s) else None
      | CleanUp i \<Rightarrow>
          if is_at i True Cleaning s \<or> is_at i False Cleaning s then Some (clean_up i s) else None
      | CloseChannel i \<Rightarrow>
          if is_at i True Releasing s \<or> is_at i False Releasing s then Some (stage_to i Finished s) else None
      | _ \<Rightarrow> None)"

definition gate_step :: "event \<Rightarrow> session \<Rightarrow> session option" where
  "gate_step ev s =
     (if s_crash s \<noteq> None then None
      else case client_step ev s of Some t \<Rightarrow> Some t | None \<Rightarrow> change_step ev s)"

fun gate_run :: "event list \<Rightarrow> session \<Rightarrow> session option" where
  "gate_run [] s = Some s"
| "gate_run (ev # evs) s = (case gate_step ev s of None \<Rightarrow> None | Some t \<Rightarrow> gate_run evs t)"

text \<open>\<open>startApp\<close> returns an app only when it is live; nothing else is assumed of the API.\<close>

fun event_ok :: "event \<Rightarrow> bool" where
  "event_ok (OpenApplied i (Inr app)) = (Phase app = CliAppPhaseLive)"
| "event_ok ev = True"

inductive session_step :: "session \<Rightarrow> session \<Rightarrow> bool" where
  "event_ok ev \<Longrightarrow> gate_step ev s = Some t \<Longrightarrow> session_step s t"

inductive_cases session_stepE: "session_step s t"

end
