(* ===== verification/SessionProps.thy ===== *)
theory SessionProps
  imports Session
begin

text \<open>
  Properties of a session: the remote changes exclude each other, the counter counts the clients, an app is handed out
  only live; and the interleavings that panic.
\<close>

section \<open>Steps by kind\<close>

lemmas session_ops = count_in_def check_open_def remoteOpen_def remoteClose_def count_out_def open_applied_def
  close_applied_def clean_up_def received_def call_ctxCancel_def

lemma gate_step_cases:
  assumes "event_ok ev" and "gate_step ev s = Some t"
  obtains (count_in) c where "ev = CountIn c" "s_clients s c = Outside" "t = count_in c s"
  | (check) c n where "s_clients s c = Counted n" "t = check_open c n s"
  | (ropen) c where "s_clients s c = ToRemoteOpen" "t = remoteOpen c s"
  | (read) c err where "s_clients s c = Opened err" "t = client_to c (Holding err (s_app s)) s"
  | (nil_attach) c where "s_clients s c = Holding None None" "t = crash ''nil pointer dereference'' s"
  | (attach) c app where "s_clients s c = Holding None (Some app)" "t = client_to c (Attached app) s"
  | (count_out) c app err app' where "s_clients s c = Attached app \<or> s_clients s c = Holding (Some err) app'" "t = count_out c s"
  | (rclose) c where "s_clients s c = ToRemoteClose" "t = remoteClose c s"
  | (recv_open) c i err s' where "s_clients s c = AwaitOpen i" "received i s = Some (err, s')"
      "t = client_to c (Opened err) s'"
  | (recv_close) c i err s' where "s_clients s c = AwaitClose i" "received i s = Some (err, s')"
      "t = client_to c (Left err) s'"
  | (open_applied) i res where "is_at i True Applying s" "t = open_applied i res s"
      "\<And>app. res = Inr app \<Longrightarrow> Phase app = CliAppPhaseLive"
  | (close_applied) i res where "is_at i False Applying s" "t = close_applied i res s"
  | (clean) i where "is_at i True Cleaning s \<or> is_at i False Cleaning s" "t = clean_up i s"
  | (release) i where "is_at i True Releasing s \<or> is_at i False Releasing s" "t = stage_to i Finished s"
proof -
  note ev = assms(1) and step = assms(2)
  show thesis
  proof (cases ev)
    case (CountIn c)
    with step show thesis
      by (auto simp: gate_step_def client_step_def change_step_def split: if_splits client.splits intro: count_in)
  next
    case (CheckOpen c)
    with step show thesis
      by (auto simp: gate_step_def client_step_def change_step_def split: if_splits client.splits intro: check)
  next
    case (RemoteOpen c)
    with step show thesis
      by (auto simp: gate_step_def client_step_def change_step_def split: if_splits client.splits intro: ropen)
  next
    case (ReadApp c)
    with step show thesis
      by (auto simp: gate_step_def client_step_def change_step_def split: if_splits client.splits intro: read)
  next
    case (Attach c)
    with step show thesis
      by (auto simp: gate_step_def client_step_def change_step_def split: if_splits client.splits option.splits
          intro: nil_attach attach)
  next
    case (CountOut c)
    with step show thesis
      by (auto simp: gate_step_def client_step_def change_step_def split: if_splits client.splits option.splits
          intro: count_out)
  next
    case (RemoteClose c)
    with step show thesis
      by (auto simp: gate_step_def client_step_def change_step_def split: if_splits client.splits intro: rclose)
  next
    case (Receive c)
    with step show thesis
      by (auto simp: gate_step_def client_step_def change_step_def split: if_splits client.splits option.splits
          intro: recv_open recv_close)
  next
    case (OpenApplied i res)
    with step ev show thesis
      by (cases res) (auto simp: gate_step_def client_step_def change_step_def split: if_splits intro: open_applied)
  next
    case (CloseApplied i res)
    with step show thesis
      by (auto simp: gate_step_def client_step_def change_step_def split: if_splits intro: close_applied)
  next
    case (CleanUp i)
    with step show thesis
      by (auto simp: gate_step_def client_step_def change_step_def split: if_splits intro: clean)
  next
    case (CloseChannel i)
    with step show thesis
      by (auto simp: gate_step_def client_step_def change_step_def split: if_splits intro: release)
  qed
qed

section \<open>Remote changes\<close>

lemma nth_update: "j < length xs \<Longrightarrow> xs[i := x] ! j = (if i = j then x else xs ! j)"
  by (cases "i = j") auto

text \<open>
  At most one of the outgoing changes is set, \<open>ctxCancel\<close> belongs to it and it is of its kind; every other
  change is cancelled.
\<close>

definition cancelled_but :: "nat option \<Rightarrow> RemoteChange list \<Rightarrow> bool" where
  "cancelled_but cur ch \<longleftrightarrow> (\<forall>j < length ch. Some j \<noteq> cur \<longrightarrow> rc_cancelled (ch ! j))"

definition changes_ok :: "nat option \<Rightarrow> nat option \<Rightarrow> nat option \<Rightarrow> RemoteChange list \<Rightarrow> bool" where
  "changes_ok op cl ctx ch \<longleftrightarrow>
     cancelled_but ctx ch
   \<and> ((op = None \<and> cl = None \<and> ctx = None)
     \<or> (\<exists>i < length ch. op = Some i \<and> cl = None \<and> ctx = Some i \<and> rc_open (ch ! i))
     \<or> (\<exists>i < length ch. op = None \<and> cl = Some i \<and> ctx = Some i \<and> \<not> rc_open (ch ! i)))"

definition changes_inv :: "session \<Rightarrow> bool" where
  "changes_inv s \<longleftrightarrow> changes_ok (s_open s) (s_close s) (s_ctxCancel s) (s_changes s)"

lemma changes_inv_simps [simp]:
  "changes_inv (client_to c k s) = changes_inv s"
  "changes_inv (crash p s) = changes_inv s"
  "changes_inv (s\<lparr>s_app := a\<rparr>) = changes_inv s"
  "changes_inv (s\<lparr>s_active := n\<rparr>) = changes_inv s"
  by (simp_all add: changes_inv_def client_to_def crash_def)

lemma changes_ok_update:
  assumes "changes_ok op cl ctx ch" and "rc_open x = rc_open (ch ! i)" and "rc_cancelled (ch ! i) \<Longrightarrow> rc_cancelled x"
  shows "changes_ok op cl ctx (ch[i := x])"
  using assms unfolding changes_ok_def cancelled_but_def by (auto simp: nth_update split: if_splits)

lemma changes_ok_push:
  assumes "cancelled_but None ch"
  shows "changes_ok (Some (length ch)) None (Some (length ch)) (ch @ [new_change True])"
    and "changes_ok None (Some (length ch)) (Some (length ch)) (ch @ [new_change False])"
  using assms unfolding changes_ok_def cancelled_but_def by (auto simp: nth_append new_change_def)

lemma cancelled_but_cancel:
  "cancelled_but (Some i) ch \<Longrightarrow> cancelled_but None (ch[i := (ch ! i)\<lparr>rc_cancelled := True\<rparr>])"
  unfolding cancelled_but_def by (auto simp: nth_update)

lemmas push_updated = changes_ok_push [OF cancelled_but_cancel, unfolded length_list_update]

lemma changes_inv_shape:
  assumes "changes_inv s"
  obtains (to_open) i where "s_open s = Some i" "s_close s = None" "s_ctxCancel s = Some i" "i < length (s_changes s)"
      "cancelled_but (Some i) (s_changes s)"
  | (to_close) i where "s_open s = None" "s_close s = Some i" "s_ctxCancel s = Some i" "i < length (s_changes s)"
      "cancelled_but (Some i) (s_changes s)"
  | (idle) "s_open s = None" "s_close s = None" "s_ctxCancel s = None" "cancelled_but None (s_changes s)"
  using assms unfolding changes_inv_def changes_ok_def by metis

lemma changes_inv_stage_to [simp]: "changes_inv s \<Longrightarrow> changes_inv (stage_to i st s)"
  unfolding changes_inv_def stage_to_def by (simp add: changes_ok_update)

lemma changes_inv_remoteOpen: "changes_inv s \<Longrightarrow> changes_inv (remoteOpen c s)"
  by (rule changes_inv_shape, assumption)
    (simp_all add: remoteOpen_def call_ctxCancel_def cancel_change_def changes_inv_def client_to_def
      changes_ok_push cancelled_but_cancel push_updated Let_def)

lemma changes_inv_remoteClose: "changes_inv s \<Longrightarrow> changes_inv (remoteClose c s)"
  by (rule changes_inv_shape, assumption)
    (simp_all add: remoteClose_def call_ctxCancel_def cancel_change_def changes_inv_def client_to_def
      crash_def changes_ok_push cancelled_but_cancel push_updated Let_def)

lemma changes_inv_clean_up:
  assumes "changes_inv s"
  shows "changes_inv (clean_up i s)"
proof -
  let ?s = "stage_to i Releasing (cancel_change i s)"
  have all: "s_open ?s = s_open s" "s_close ?s = s_close s" "s_ctxCancel ?s = s_ctxCancel s"
    by (simp_all add: stage_to_def cancel_change_def)
  have s': "changes_inv ?s"
    using assms by (intro changes_inv_stage_to) (simp add: changes_inv_def cancel_change_def changes_ok_update)
  show ?thesis
  proof (cases "s_open s = Some i \<or> s_close s = Some i")
    case True
    with assms have "s_ctxCancel s = Some i" by (auto elim: changes_inv_shape)
    then have "cancelled_but (Some i) (s_changes s)"
      using assms by (simp add: changes_inv_def changes_ok_def)
    then have "cancelled_but None (s_changes ?s)"
      unfolding cancelled_but_def by (auto simp: stage_to_def cancel_change_def nth_update)
    with True show ?thesis
      unfolding clean_up_def Let_def all by (simp add: changes_inv_def changes_ok_def)
  next
    case False
    with s' show ?thesis unfolding clean_up_def Let_def all by simp
  qed
qed

lemma changes_inv_received: "received i s = Some (err, s') \<Longrightarrow> changes_inv s \<Longrightarrow> changes_inv s'"
  by (auto simp: received_def split: stage.splits)

lemma changes_inv_step: "event_ok ev \<Longrightarrow> gate_step ev s = Some t \<Longrightarrow> changes_inv s \<Longrightarrow> changes_inv t"
  by (cases rule: gate_step_cases)
    (auto simp: count_in_def check_open_def count_out_def open_applied_def close_applied_def Let_def
      changes_inv_remoteOpen changes_inv_remoteClose changes_inv_clean_up changes_inv_received
      split: sum.splits option.splits)

section \<open>Counting\<close>

text \<open>A client is counted between the two operations on the counter.\<close>

fun inside :: "client \<Rightarrow> bool" where
  "inside Outside = False"
| "inside ToRemoteClose = False"
| "inside (AwaitClose i) = False"
| "inside (Left err) = False"
| "inside k = True"

definition count_inv :: "session \<Rightarrow> bool" where
  "count_inv s \<longleftrightarrow> finite {c. inside (s_clients s c)} \<and> s_active s = int (card {c. inside (s_clients s c)})"

lemma client_simps [simp]:
  "s_clients (client_to c k s) = (s_clients s)(c := k)" "s_active (client_to c k s) = s_active s"
  "s_clients (crash p s) = s_clients s" "s_active (crash p s) = s_active s"
  "s_clients (stage_to i st s) = s_clients s" "s_active (stage_to i st s) = s_active s"
  "s_clients (cancel_change i s) = s_clients s" "s_active (cancel_change i s) = s_active s"
  "s_clients (call_ctxCancel s) = s_clients s" "s_active (call_ctxCancel s) = s_active s"
  "s_clients (clean_up i s) = s_clients s" "s_active (clean_up i s) = s_active s"
  by (simp_all add: client_to_def crash_def stage_to_def cancel_change_def call_ctxCancel_def clean_up_def Let_def
      split: option.splits)

lemma count_same:
  assumes "count_inv s" "\<And>c. inside (s_clients t c) = inside (s_clients s c)" "s_active t = s_active s"
  shows "count_inv t"
  using assms unfolding count_inv_def by simp

lemma count_inv_count_in:
  assumes "count_inv s" "s_clients s c = Outside"
  shows "count_inv (count_in c s)" "s_crash (count_in c s) = s_crash s"
proof -
  have nonneg: "0 \<le> s_active s" using assms(1) by (simp add: count_inv_def)
  have "{d. inside (s_clients (count_in c s) d)} = insert c {d. inside (s_clients s d)}"
    using nonneg by (auto simp: count_in_def Let_def)
  moreover have "c \<notin> {d. inside (s_clients s d)}" using assms(2) by simp
  ultimately show "count_inv (count_in c s)"
    using assms(1) nonneg by (simp add: count_inv_def) (simp add: count_in_def Let_def)
  show "s_crash (count_in c s) = s_crash s" using nonneg by (simp add: count_in_def client_to_def Let_def)
qed

lemma count_inv_count_out:
  assumes "count_inv s" "inside (s_clients s c)"
  shows "count_inv (count_out c s)" "s_crash (count_out c s) = s_crash s"
proof -
  have fin: "finite {d. inside (s_clients s d)}" and c: "c \<in> {d. inside (s_clients s d)}"
    using assms by (simp_all add: count_inv_def)
  then have pos: "1 \<le> s_active s"
    using assms(1) card_gt_0_iff [of "{d. inside (s_clients s d)}"] unfolding count_inv_def by fastforce
  have "{d. inside (s_clients (count_out c s) d)} = {d. inside (s_clients s d)} - {c}"
    using pos by (auto simp: count_out_def Let_def split: if_splits)
  moreover have "s_active (count_out c s) = s_active s - 1"
    using pos by (simp add: count_out_def Let_def)
  ultimately show "count_inv (count_out c s)"
    using assms(1) fin c pos by (simp add: count_inv_def card_Diff_singleton of_nat_diff)
  show "s_crash (count_out c s) = s_crash s" using pos by (simp add: count_out_def client_to_def Let_def)
qed

lemma remote_clients [simp]:
  "s_active (remoteOpen c s) = s_active s" "s_active (remoteClose c s) = s_active s"
  by (simp_all add: remoteOpen_def remoteClose_def Let_def split: option.splits)

lemma remote_inside:
  "s_clients s c = ToRemoteOpen \<Longrightarrow> inside (s_clients (remoteOpen c s) d) = inside (s_clients s d)"
  "s_clients s c = ToRemoteClose \<Longrightarrow> inside (s_clients (remoteClose c s) d) = inside (s_clients s d)"
  by (auto simp: remoteOpen_def remoteClose_def Let_def split: option.splits)

lemma received_clients:
  "received i s = Some (err, s') \<Longrightarrow> s_clients s' = s_clients s \<and> s_active s' = s_active s \<and> s_crash s' = s_crash s"
  by (auto simp: received_def stage_to_def split: stage.splits)

lemma applied_clients [simp]:
  "s_clients (open_applied i res s) = s_clients s" "s_active (open_applied i res s) = s_active s"
  "s_clients (close_applied i r s) = s_clients s" "s_active (close_applied i r s) = s_active s"
  by (simp_all add: open_applied_def close_applied_def split: sum.splits option.splits)

lemma count_inv_step:
  assumes "event_ok ev" "gate_step ev s = Some t" and inv: "count_inv s"
  shows "count_inv t"
  using assms(1,2)
proof (cases rule: gate_step_cases)
  case (count_in c)
  then show ?thesis using count_inv_count_in(1) [OF inv] by simp
next
  case (count_out c app err app')
  then show ?thesis using count_inv_count_out(1) [OF inv] by auto
qed (auto intro!: count_same [OF inv] simp: check_open_def remote_inside dest!: received_clients split: if_splits)

section \<open>Apps are handed out live\<close>

fun client_app_ok :: "client \<Rightarrow> bool" where
  "client_app_ok (Holding err (Some app)) = (Phase app = CliAppPhaseLive)"
| "client_app_ok (Attached app) = (Phase app = CliAppPhaseLive)"
| "client_app_ok k = True"

definition live_inv :: "session \<Rightarrow> bool" where
  "live_inv s \<longleftrightarrow> (\<forall>app. s_app s = Some app \<longrightarrow> Phase app = CliAppPhaseLive) \<and> (\<forall>c. client_app_ok (s_clients s c))"

lemma app_simps [simp]:
  "s_app (client_to c k s) = s_app s" "s_app (crash p s) = s_app s" "s_app (stage_to i st s) = s_app s"
  "s_app (cancel_change i s) = s_app s" "s_app (call_ctxCancel s) = s_app s" "s_app (clean_up i s) = s_app s"
  "s_app (count_in c s) = s_app s" "s_app (count_out c s) = s_app s" "s_app (close_applied i r s) = s_app s"
  "s_app (remoteOpen c s) = s_app s"
  by (simp_all add: client_to_def crash_def stage_to_def cancel_change_def call_ctxCancel_def clean_up_def
      count_in_def count_out_def close_applied_def remoteOpen_def Let_def split: option.splits)

lemma client_app_ok_Holding: "client_app_ok (Holding err a) \<longleftrightarrow> (\<forall>app. a = Some app \<longrightarrow> Phase app = CliAppPhaseLive)"
  by (cases a) auto

lemma live_inv_step:
  assumes "event_ok ev" "gate_step ev s = Some t" and inv: "live_inv s"
  shows "live_inv t"
  using assms(1,2)
proof (cases rule: gate_step_cases)
  case (attach c app)
  with inv have "client_app_ok (Holding None (Some app))" unfolding live_inv_def by metis
  with attach inv show ?thesis by (simp add: live_inv_def)
next
  case (open_applied i res)
  with inv show ?thesis by (auto simp: live_inv_def open_applied_def split: sum.splits)
next
  case (recv_open c i err s')
  then have "s_app s' = s_app s" by (auto simp: received_def split: stage.splits)
  with recv_open inv show ?thesis by (auto simp: live_inv_def dest!: received_clients)
next
  case (recv_close c i err s')
  then have "s_app s' = s_app s" by (auto simp: received_def split: stage.splits)
  with recv_close inv show ?thesis by (auto simp: live_inv_def dest!: received_clients)
qed (use inv in \<open>auto simp: live_inv_def check_open_def client_app_ok_Holding count_in_def count_out_def
    remoteOpen_def remoteClose_def Let_def split: option.splits\<close>)

section \<open>The reachable states\<close>

text \<open>The panics that the invariants leave.\<close>

definition race_panics :: "string set" where
  "race_panics = {''try to close an app more than once'', ''t.app != nil'', ''nil pointer dereference''}"

definition session_inv :: "session \<Rightarrow> bool" where
  "session_inv s \<longleftrightarrow> changes_inv s \<and> count_inv s \<and> live_inv s
     \<and> (\<forall>p. s_crash s = Some p \<longrightarrow> p \<in> race_panics)"

lemma crash_simps [simp]:
  "s_crash (client_to c k s) = s_crash s" "s_crash (stage_to i st s) = s_crash s"
  "s_crash (cancel_change i s) = s_crash s" "s_crash (clean_up i s) = s_crash s"
  "s_crash (close_applied i r s) = s_crash s" "s_crash (crash p s) = Some p"
  by (simp_all add: client_to_def crash_def stage_to_def cancel_change_def clean_up_def close_applied_def Let_def
      split: option.splits)

lemma crash_remoteOpen: "changes_inv s \<Longrightarrow> s_crash (remoteOpen c s) = s_crash s"
  by (rule changes_inv_shape, assumption)
    (simp_all add: remoteOpen_def call_ctxCancel_def client_to_def cancel_change_def Let_def)

lemma crash_remoteClose:
  "changes_inv s \<Longrightarrow> s_crash (remoteClose c s) \<in> {s_crash s, Some ''try to close an app more than once''}"
  by (rule changes_inv_shape, assumption)
    (simp_all add: remoteClose_def call_ctxCancel_def client_to_def cancel_change_def Let_def)

lemma session_inv_crash:
  assumes "event_ok ev" "gate_step ev s = Some t" and inv: "session_inv s" and "s_crash t = Some p"
  shows "p \<in> race_panics"
  using assms(1,2)
proof (cases rule: gate_step_cases)
  case (count_in c)
  with inv assms(4) count_inv_count_in(2) show ?thesis by (auto simp: session_inv_def)
next
  case (count_out c app err app')
  then have "inside (s_clients s c)" by auto
  with count_out inv assms(4) count_inv_count_out(2) show ?thesis by (auto simp: session_inv_def)
next
  case (ropen c)
  with inv assms(4) crash_remoteOpen show ?thesis by (auto simp: session_inv_def)
next
  case (rclose c)
  have "s_crash s = Some p \<or> p = ''try to close an app more than once''"
    using crash_remoteClose [of s c] rclose inv assms(4) by (auto simp: session_inv_def)
  moreover have "''try to close an app more than once'' \<in> race_panics" by (simp add: race_panics_def)
  ultimately show ?thesis using inv unfolding session_inv_def by auto
next
  case (open_applied i res)
  with inv assms(4) show ?thesis
    by (auto simp: session_inv_def open_applied_def race_panics_def split: sum.splits if_splits)
next
  case (check c n)
  with inv assms(4) show ?thesis by (auto simp: session_inv_def check_open_def split: if_splits)
qed (use inv assms(4) in \<open>auto simp: session_inv_def race_panics_def dest!: received_clients\<close>)

lemma session_inv_step:
  assumes "event_ok ev" "gate_step ev s = Some t" and inv: "session_inv s"
  shows "session_inv t"
  using inv session_inv_crash [OF assms] changes_inv_step [OF assms(1,2)] count_inv_step [OF assms(1,2)]
    live_inv_step [OF assms(1,2)]
  by (simp add: session_inv_def)

interpretation session: kept_invariant "\<lambda>s. s = new_session" session_step session_inv
proof
  show "session_inv s" if "s = new_session" for s
    using that by (simp add: session_inv_def new_session_def changes_inv_def changes_ok_def cancelled_but_def
        count_inv_def live_inv_def)
  show "session_inv t" if "session_inv s" "session_step s t" for s t
    using that(2,1) by (auto elim!: session_stepE intro: session_inv_step)
qed

text \<open>
  C13. Whatever the clients of an app and the API do, and however their steps interleave: opening and closing of the app exclude
  each other, and at most one remote change is not cancelled, the one that the session has as outgoing and
  that \<open>ctxCancel\<close> cancels. So \<open>remoteOpen\<close> and \<open>remoteClose\<close> never call a nil \<open>ctxCancel\<close>, and the panic for an open and a close
  change at once is never reached, nor are the two for a counter below its range.
\<close>

theorem session_exclusive:
  assumes "reachable (\<lambda>s. s = new_session) session_step s"
  shows "(s_open s = None \<or> s_close s = None)
    \<and> (\<forall>i < length (s_changes s). \<not> rc_cancelled (s_changes s ! i) \<longrightarrow> s_ctxCancel s = Some i)
    \<and> (s_ctxCancel s = None \<longleftrightarrow> s_open s = None \<and> s_close s = None)
    \<and> s_crash s \<notin> {Some ''t.outgoingCloseSession != nil'', Some ''nil ctxCancel'', Some ''active < 1'', Some ''active < 0''}"
proof -
  have inv: "session_inv s" using assms by (rule session.inv_reachable)
  then have "changes_ok (s_open s) (s_close s) (s_ctxCancel s) (s_changes s)"
    and crash: "\<And>p. s_crash s = Some p \<Longrightarrow> p \<in> race_panics"
    by (simp_all add: session_inv_def changes_inv_def)
  then have "(s_open s = None \<or> s_close s = None)
    \<and> (\<forall>i < length (s_changes s). \<not> rc_cancelled (s_changes s ! i) \<longrightarrow> s_ctxCancel s = Some i)
    \<and> (s_ctxCancel s = None \<longleftrightarrow> s_open s = None \<and> s_close s = None)"
    unfolding changes_ok_def cancelled_but_def by auto
  moreover have "p \<notin> race_panics" if "p \<in> {''t.outgoingCloseSession != nil'', ''nil ctxCancel'', ''active < 1'', ''active < 0''}" for p
    using that by (auto simp: race_panics_def)
  ultimately show ?thesis using crash by auto
qed

text \<open>
  The counter of a session is the number of the clients inside, and what \<open>open\<close> hands a client without an error is no app or a
  live one; only with a live one does the client attach.
\<close>

theorem session_clients:
  assumes "reachable (\<lambda>s. s = new_session) session_step s"
  shows "s_active s = int (card {c. inside (s_clients s c)})
    \<and> (\<forall>c err app. s_clients s c = Holding err (Some app) \<longrightarrow> Phase app = CliAppPhaseLive)
    \<and> (\<forall>c app. s_clients s c = Attached app \<longrightarrow> Phase app = CliAppPhaseLive)"
proof -
  have inv: "session_inv s" using assms by (rule session.inv_reachable)
  have ok: "client_app_ok (s_clients s c)" for c using inv by (simp add: session_inv_def live_inv_def)
  have "Phase app = CliAppPhaseLive" if "s_clients s c = Holding err (Some app)" for c err app
    using ok [of c] that by simp
  moreover have "Phase app = CliAppPhaseLive" if "s_clients s c = Attached app" for c app
    using ok [of c] that by simp
  ultimately show ?thesis using inv unfolding session_inv_def count_inv_def by blast
qed

section \<open>Runs\<close>

lemma run_reachable:
  "gate_run evs s = Some t \<Longrightarrow> list_all event_ok evs \<Longrightarrow> reachable (\<lambda>s. s = new_session) session_step s \<Longrightarrow>
     reachable (\<lambda>s. s = new_session) session_step t"
proof (induction evs arbitrary: s)
  case (Cons ev evs)
  from Cons.prems(1) obtain u where "gate_step ev s = Some u" "gate_run evs u = Some t"
    by (auto split: option.splits)
  with Cons.prems show ?case
    by (intro Cons.IH [of u]) (auto intro: reachable_step session_step.intros)
qed simp

definition live_app :: CliApp where
  "live_app = set_Phase CliAppPhaseLive sample_app"

text \<open>One client opens the app, attaches, and leaves.\<close>

definition visit :: "nat \<Rightarrow> nat \<Rightarrow> event list" where
  "visit c i = [CountIn c, CheckOpen c, RemoteOpen c, OpenApplied i (Inr live_app), CleanUp i, CloseChannel i,
     Receive c, ReadApp c, Attach c, CountOut c]"

text \<open>
  Three interleavings end the process, whatever the API answers in between.
  The last client out counts itself out and is overtaken, before it closes the app, by a client that comes in: (1) that client's start
  of the app finds the old app still set; (2) or it comes and goes and closes the app first, and
  the first one closes it again. (3) Two clients wait for the same start, which fails: one is given the error, the other nothing, and
  attaches to no app.
\<close>

lemma session_races:
  "map_option s_crash (gate_run (visit 1 0 @ [CountIn 2, CheckOpen 2, RemoteOpen 2, OpenApplied 1 (Inr app)]) new_session)
     = Some (Some ''t.app != nil'')
   \<and> map_option s_crash (gate_run (visit 1 0 @ [CountIn 2, CheckOpen 2, RemoteOpen 2, OpenApplied 1 (Inl err),
     Receive 2, ReadApp 2, CountOut 2, RemoteClose 2, RemoteClose 1]) new_session)
     = Some (Some ''try to close an app more than once'')
   \<and> map_option s_crash (gate_run [CountIn 1, CheckOpen 1, RemoteOpen 1, CountIn 2, CheckOpen 2, RemoteOpen 2,
     OpenApplied 0 (Inl err), Receive 1, CleanUp 0, CloseChannel 0, Receive 2, ReadApp 2, Attach 2] new_session)
     = Some (Some ''nil pointer dereference'')"
  by (intro conjI)
    (simp_all add: visit_def gate_step_def client_step_def change_step_def session_ops client_to_def stage_to_def
      cancel_change_def new_change_def crash_def is_at_def new_session_def Let_def)

section \<open>The panics\<close>

lemma crash_remoteClose_iff:
  assumes "changes_inv s" and "s_crash s = None"
  shows "s_crash (remoteClose c s) = Some p \<longleftrightarrow> s_close s \<noteq> None \<and> p = ''try to close an app more than once''"
  using assms(1)
  by (rule changes_inv_shape)
    (use assms(2) in \<open>auto simp: remoteClose_def call_ctxCancel_def client_to_def cancel_change_def crash_def Let_def\<close>)

lemma crash_open_applied:
  "s_crash s = None \<Longrightarrow> s_crash (open_applied i res s) = Some p \<longleftrightarrow>
     (\<exists>app. res = Inr app) \<and> s_app s \<noteq> None \<and> p = ''t.app != nil''"
  by (auto simp: open_applied_def stage_to_def crash_def split: sum.splits)

lemma next_panic:
  assumes "event_ok ev" and "gate_step ev s = Some t" and "session_inv s" and crash: "s_crash s = None" "s_crash t = Some p"
  shows "(\<exists>c. p = ''try to close an app more than once'' \<and> s_close s \<noteq> None \<and> s_clients s c = ToRemoteClose)
    \<or> (\<exists>i. p = ''t.app != nil'' \<and> s_app s \<noteq> None \<and> is_at i True Applying s)
    \<or> (\<exists>c. p = ''nil pointer dereference'' \<and> s_clients s c = Holding None None)"
proof -
  have inv: "changes_inv s" "count_inv s" using assms(3) by (simp_all add: session_inv_def)
  show ?thesis
    using assms(1,2)
  proof (cases rule: gate_step_cases)
    case (count_in c)
    with inv(2) crash count_inv_count_in(2) show ?thesis by simp
  next
    case (count_out c app err app')
    then have "inside (s_clients s c)" by auto
    with count_out(2) crash count_inv_count_out(2) [OF inv(2)] show ?thesis by simp
  next
    case (ropen c)
    with crash crash_remoteOpen [OF inv(1)] show ?thesis by simp
  next
    case (rclose c)
    have "s_close s \<noteq> None \<and> p = ''try to close an app more than once''"
      using crash_remoteClose_iff [OF inv(1) crash(1), of c p] crash(2) unfolding rclose(2) by (rule iffD1)
    with rclose(1) show ?thesis by (intro disjI1 exI [of _ c]) (elim conjE, intro conjI)
  next
    case (open_applied i res)
    have "s_app s \<noteq> None \<and> p = ''t.app != nil''"
      using crash_open_applied [OF crash(1), of i res p] crash(2) unfolding open_applied(2) by simp
    with open_applied(1) show ?thesis by (intro disjI2 [OF disjI1] exI [of _ i]) (elim conjE, intro conjI)
  next
    case (nil_attach c)
    then have "p = ''nil pointer dereference''" using crash(2) by simp
    with nil_attach(1) show ?thesis by (intro disjI2 exI [of _ c]) (intro conjI)
  next
    case (check c n)
    with crash show ?thesis by (simp add: check_open_def split: if_splits)
  next
    case (recv_open c i err s')
    with crash received_clients [OF recv_open(2)] show ?thesis by simp
  next
    case (recv_close c i err s')
    with crash received_clients [OF recv_close(2)] show ?thesis by simp
  next
    case (read c err)
    with crash show ?thesis by simp
  next
    case (attach c app)
    with crash show ?thesis by simp
  next
    case (close_applied i res)
    with crash show ?thesis by simp
  next
    case (clean i)
    from clean(2) crash show ?thesis by simp
  next
    case (release i)
    from release(2) crash show ?thesis by simp
  qed
qed

text \<open>
  C40. When a session panics. In any state that clients and API can bring a session to, the next step of some goroutine ends the process in exactly three
  cases. A client is about to close the app while a close is outgoing: "try to close an app more than once". The goroutine of an opening is in \<open>startApp\<close> while the session still
  has an app: it panics if that start succeeds. A client was let in without an error and without an app: it dereferences nil. All three are reached (\<open>session_races\<close>).
\<close>

theorem session_panics_when:
  assumes "reachable (\<lambda>s. s = new_session) session_step s" and "s_crash s = None"
  shows "(\<exists>ev t. event_ok ev \<and> gate_step ev s = Some t \<and> s_crash t = Some p) \<longleftrightarrow>
      p = ''try to close an app more than once'' \<and> s_close s \<noteq> None \<and> (\<exists>c. s_clients s c = ToRemoteClose)
    \<or> p = ''t.app != nil'' \<and> s_app s \<noteq> None \<and> (\<exists>i. is_at i True Applying s)
    \<or> p = ''nil pointer dereference'' \<and> (\<exists>c. s_clients s c = Holding None None)"
    (is "?panics \<longleftrightarrow> ?close \<or> ?app \<or> ?nil")
proof
  have inv: "changes_inv s" using session.inv_reachable [OF assms(1)] by (simp add: session_inv_def)
  show "?close \<or> ?app \<or> ?nil" if ?panics
    using that next_panic [OF _ _ session.inv_reachable [OF assms(1)] assms(2)] by blast
  show ?panics if "?close \<or> ?app \<or> ?nil"
    using that
  proof (elim disjE conjE exE)
    fix c assume c: "p = ''try to close an app more than once''" "s_close s \<noteq> None" "s_clients s c = ToRemoteClose"
    have "gate_step (RemoteClose c) s = Some (remoteClose c s)" by (simp add: gate_step_def client_step_def assms(2) c(3))
    moreover have "s_crash (remoteClose c s) = Some p" using crash_remoteClose_iff [OF inv assms(2), of c p] c by blast
    ultimately show ?thesis by (intro exI [of _ "RemoteClose c"] exI [of _ "remoteClose c s"]) simp
  next
    fix i assume i: "p = ''t.app != nil''" "s_app s \<noteq> None" "is_at i True Applying s"
    have "gate_step (OpenApplied i (Inr live_app)) s = Some (open_applied i (Inr live_app) s)"
      by (simp add: gate_step_def client_step_def change_step_def assms(2) i(3))
    moreover have "event_ok (OpenApplied i (Inr live_app))" by (simp add: live_app_def)
    moreover have "s_crash (open_applied i (Inr live_app) s) = Some p" using i by (simp add: crash_open_applied [OF assms(2)])
    ultimately show ?thesis by blast
  next
    fix c assume c: "p = ''nil pointer dereference''" "s_clients s c = Holding None None"
    have "gate_step (Attach c) s = Some (crash p s)" by (simp add: gate_step_def client_step_def assms(2) c)
    then show ?thesis by (intro exI [of _ "Attach c"] exI [of _ "crash p s"]) simp
  qed
qed

text \<open>Two clients wait for the same start, which fails, and the second one holds neither an error nor an app.\<close>

lemma session_panics_when_witness:
  "\<exists>s. gate_run [CountIn 1, CheckOpen 1, RemoteOpen 1, CountIn 2, CheckOpen 2, RemoteOpen 2,
     OpenApplied 0 (Inl (Errorf ''timeout'')), Receive 1, CleanUp 0, CloseChannel 0, Receive 2, ReadApp 2] new_session = Some s
   \<and> (\<exists>ev t. event_ok ev \<and> gate_step ev s = Some t \<and> s_crash t = Some ''nil pointer dereference'')"
proof -
  let ?evs = "[CountIn 1, CheckOpen 1, RemoteOpen 1, CountIn 2, CheckOpen 2, RemoteOpen 2,
     OpenApplied 0 (Inl (Errorf ''timeout'')), Receive 1, CleanUp 0, CloseChannel 0, Receive 2, ReadApp 2]"
  obtain s where s: "gate_run ?evs new_session = Some s" "s_crash s = None" "s_clients s 2 = Holding None None"
    by (simp add: gate_step_def client_step_def change_step_def session_ops client_to_def stage_to_def
      cancel_change_def new_change_def crash_def is_at_def new_session_def Let_def)
  have "reachable (\<lambda>s. s = new_session) session_step s"
    by (rule run_reachable [OF s(1)]) (simp_all add: reachable_init)
  from session_panics_when [OF this s(2), of "''nil pointer dereference''"] s(1,3) show ?thesis by blast
qed

definition attached_session :: "session option" where
  "attached_session = gate_run (butlast (visit 1 0)) new_session"

lemma attached_session_clients:
  "\<exists>s. attached_session = Some s \<and> s_clients s = (\<lambda>_. Outside)(1 := Attached live_app)"
  by (simp add: attached_session_def visit_def gate_step_def client_step_def change_step_def session_ops client_to_def
      stage_to_def cancel_change_def new_change_def crash_def is_at_def new_session_def Let_def)

lemma attached_session_reachable:
  "attached_session = Some s \<Longrightarrow> reachable (\<lambda>s. s = new_session) session_step s"
  unfolding attached_session_def
  by (erule run_reachable) (simp_all add: visit_def live_app_def reachable_init)

lemma session_exclusive_witness:
  "\<exists>s. attached_session = Some s \<and> (s_open s = None \<or> s_close s = None)"
  using attached_session_clients session_exclusive [OF attached_session_reachable] by blast

lemma session_clients_witness: "\<exists>s. attached_session = Some s \<and> s_active s = 1"
proof -
  obtain s where s: "attached_session = Some s" "s_clients s = (\<lambda>_. Outside)(1 := Attached live_app)"
    using attached_session_clients by blast
  then have "{c. inside (s_clients s c)} = {1}" by auto
  with session_clients [OF attached_session_reachable [OF s(1)]] have "s_active s = 1" by simp
  with s(1) show ?thesis by blast
qed

section \<open>One client at a time\<close>

fun away :: "client \<Rightarrow> bool" where
  "away Outside = True"
| "away (Left err) = True"
| "away k = False"

text \<open>Steps in which a client comes in only when all others are away.\<close>

inductive solo_step :: "session \<Rightarrow> session \<Rightarrow> bool" where
  "event_ok ev \<Longrightarrow> gate_step ev s = Some t \<Longrightarrow> (\<forall>c. ev = CountIn c \<longrightarrow> (\<forall>d. away (s_clients s d))) \<Longrightarrow> solo_step s t"

definition starting :: "nat \<Rightarrow> session \<Rightarrow> bool" where
  "starting i s \<longleftrightarrow> i < length (s_changes s) \<and> rc_open (s_changes s ! i) \<and> rc_stage (s_changes s ! i) = Applying"

text \<open>What holds of the session for the one client that is not away.\<close>

fun solo_ok :: "client \<Rightarrow> session \<Rightarrow> bool" where
  "solo_ok (AwaitOpen i) s =
     (s_close s = None \<and> s_open s \<in> {None, Some i} \<and> i < length (s_changes s) \<and> rc_open (s_changes s ! i)
      \<and> (\<forall>j. starting j s \<longrightarrow> j = i)
      \<and> (s_app s = None \<longleftrightarrow> rc_stage (s_changes s ! i) \<in> {Applying} \<union> range Sending))"
| "solo_ok (Opened err) s = (s_close s = None \<and> (\<forall>j. \<not> starting j s) \<and> (err = None \<longrightarrow> s_app s \<noteq> None))"
| "solo_ok (Holding err app) s = (s_close s = None \<and> (\<forall>j. \<not> starting j s) \<and> (err = None \<longrightarrow> app \<noteq> None))"
| "solo_ok (Attached app) s = (s_close s = None \<and> (\<forall>j. \<not> starting j s))"
| "solo_ok ToRemoteClose s = (s_close s = None \<and> (\<forall>j. \<not> starting j s))"
| "solo_ok (Counted n) s = (n = 1 \<and> s_open s = None \<and> s_app s = None \<and> (\<forall>j. \<not> starting j s))"
| "solo_ok k s = (s_open s = None \<and> s_app s = None \<and> (\<forall>j. \<not> starting j s))"

definition solo_inv :: "session \<Rightarrow> bool" where
  "solo_inv s \<longleftrightarrow> session_inv s \<and> s_crash s = None
     \<and> (\<exists>c. (\<forall>d. d \<noteq> c \<longrightarrow> away (s_clients s d)) \<and> solo_ok (s_clients s c) s)"

lemma starting_stage: "rc_stage (s_changes s ! j) \<noteq> Applying \<Longrightarrow> \<not> starting j s"
  by (simp add: starting_def)

lemma starting_simps [simp]:
  "starting j (client_to c k s) = starting j s"
  "starting j (stage_to i st s) = (if i = j then st = Applying \<and> j < length (s_changes s) \<and> rc_open (s_changes s ! j)
     else starting j s)"
  "starting j (cancel_change i s) = starting j s"
  "starting j (s\<lparr>s_app := a\<rparr>) = starting j s"
  by (auto simp: starting_def client_to_def stage_to_def cancel_change_def nth_update split: if_splits)

lemma clean_up_simps [simp]:
  "starting j (clean_up i s) = (if i = j then False else starting j s)"
  "s_open (clean_up i s) = (if s_open s = Some i \<or> s_close s = Some i then None else s_open s)"
  "s_close (clean_up i s) = (if s_open s = Some i \<or> s_close s = Some i then None else s_close s)"
  "length (s_changes (clean_up i s)) = length (s_changes s)"
  "j < length (s_changes s) \<Longrightarrow>
     rc_stage (s_changes (clean_up i s) ! j) = (if i = j then Releasing else rc_stage (s_changes s ! j))"
  "j < length (s_changes s) \<Longrightarrow> rc_open (s_changes (clean_up i s) ! j) = rc_open (s_changes s ! j)"
  by (auto simp: clean_up_def starting_def stage_to_def cancel_change_def nth_update Let_def)

lemma stage_to_simps [simp]:
  "s_open (stage_to i st s) = s_open s" "s_close (stage_to i st s) = s_close s"
  "length (s_changes (stage_to i st s)) = length (s_changes s)"
  "j < length (s_changes s) \<Longrightarrow>
     rc_stage (s_changes (stage_to i st s) ! j) = (if i = j then st else rc_stage (s_changes s ! j))"
  "j < length (s_changes s) \<Longrightarrow> rc_open (s_changes (stage_to i st s) ! j) = rc_open (s_changes s ! j)"
  by (auto simp: stage_to_def nth_update)

lemma client_to_simps [simp]:
  "s_open (client_to c k s) = s_open s" "s_close (client_to c k s) = s_close s"
  "s_changes (client_to c k s) = s_changes s"
  by (simp_all add: client_to_def)

lemma solo_ok_client_to [simp]: "solo_ok k (client_to c k' s) = solo_ok k s"
  by (cases "(k, s)" rule: solo_ok.cases) simp_all

lemma solo_ok_clean_up:
  assumes "solo_ok k s" "rc_stage (s_changes s ! i) = Cleaning" "i < length (s_changes s)"
  shows "solo_ok k (clean_up i s)"
  using assms by (cases "(k, s)" rule: solo_ok.cases) (auto split: if_splits)

lemma solo_ok_finish:
  assumes "solo_ok k s" "rc_stage (s_changes s ! i) = Releasing" "i < length (s_changes s)"
  shows "solo_ok k (stage_to i Finished s)"
  using assms by (cases "(k, s)" rule: solo_ok.cases) auto

lemma solo_ok_close_applied:
  assumes "solo_ok k s" "is_at i False Applying s"
  shows "solo_ok k (close_applied i res s)"
  using assms
  by (cases "(k, s)" rule: solo_ok.cases) (auto simp: close_applied_def is_at_def split: option.splits)

lemma solo_ok_open_applied:
  assumes "solo_ok k s" "is_at i True Applying s"
  shows "solo_ok k (open_applied i res s) \<and> s_crash (open_applied i res s) = s_crash s"
proof -
  have "starting i s" using assms(2) by (simp add: starting_def is_at_def)
  with assms show ?thesis
    by (cases "(k, s)" rule: solo_ok.cases)
      (auto simp: open_applied_def is_at_def split: sum.splits)
qed

lemma solo_counts:
  assumes "session_inv s" "\<And>d. d \<noteq> c \<Longrightarrow> away (s_clients s d)"
  shows "s_active s = (if inside (s_clients s c) then 1 else 0)"
proof -
  have outside: "\<not> inside k" if "away k" for k using that by (cases k) auto
  have "\<not> inside (s_clients s d)" if "d \<noteq> c" for d using outside assms(2) that by blast
  then have "{d. inside (s_clients s d)} = (if inside (s_clients s c) then {c} else {})" by force
  with assms(1) show ?thesis by (simp add: session_inv_def count_inv_def split: if_splits)
qed

lemma solo_ok_remoteOpen:
  assumes "changes_inv s" "solo_ok ToRemoteOpen s"
  shows "\<exists>i. s_clients (remoteOpen c s) c = AwaitOpen i \<and> solo_ok (AwaitOpen i) (remoteOpen c s)"
  using assms
  by (auto elim!: changes_inv_shape simp: remoteOpen_def call_ctxCancel_def cancel_change_def client_to_def
      new_change_def starting_def nth_append nth_update Let_def split: if_splits)

lemma solo_ok_remoteClose:
  assumes "changes_inv s" "solo_ok ToRemoteClose s"
  shows "\<exists>i. s_clients (remoteClose c s) c = AwaitClose i \<and> solo_ok (AwaitClose i) (remoteClose c s)
    \<and> s_crash (remoteClose c s) = s_crash s"
  using assms
  by (auto elim!: changes_inv_shape simp: remoteClose_def call_ctxCancel_def cancel_change_def client_to_def
      new_change_def starting_def nth_append nth_update Let_def split: if_splits)

lemma remote_others:
  "d \<noteq> c \<Longrightarrow> s_clients (remoteOpen c s) d = s_clients s d"
  "d \<noteq> c \<Longrightarrow> s_clients (remoteClose c s) d = s_clients s d"
  "d \<noteq> c \<Longrightarrow> s_clients (count_out c s) d = s_clients s d"
  "d \<noteq> c \<Longrightarrow> s_clients (count_in c s) d = s_clients s d"
  "d \<noteq> c \<Longrightarrow> s_clients (check_open c n s) d = s_clients s d"
  by (auto simp: remoteOpen_def remoteClose_def count_out_def count_in_def check_open_def Let_def split: option.splits)

lemma solo_ok_received:
  assumes "received i s = Some (err, s')"
  shows "solo_ok (AwaitOpen i) s \<Longrightarrow> solo_ok (Opened err) s'"
    and "solo_ok (AwaitClose i) s \<Longrightarrow> solo_ok (Left err) s'"
  using assms by (auto simp: received_def starting_stage split: stage.splits if_splits)

lemma solo_inv_here:
  assumes "solo_inv s" "\<not> away (s_clients s c)"
  shows "(\<forall>d. d \<noteq> c \<longrightarrow> away (s_clients s d)) \<and> solo_ok (s_clients s c) s"
  using assms unfolding solo_inv_def by metis

lemma solo_inv_someone:
  assumes "solo_inv s"
  obtains c where "\<And>d. d \<noteq> c \<Longrightarrow> away (s_clients s d)" "solo_ok (s_clients s c) s"
  using assms unfolding solo_inv_def by blast

lemma solo_away:
  assumes "solo_inv s" "\<forall>d. away (s_clients s d)"
  shows "solo_ok Outside s"
proof -
  obtain c where "solo_ok (s_clients s c) s" using assms(1) by (rule solo_inv_someone)
  moreover have "away (s_clients s c)" using assms(2) by simp
  ultimately show ?thesis by (cases "s_clients s c") simp_all
qed

text \<open>What the steps of a client do to the client itself.\<close>

lemma solo_invI:
  assumes "session_inv t" "s_crash t = None" "\<And>d. d \<noteq> c \<Longrightarrow> away (s_clients t d)" "solo_ok (s_clients t c) t"
  shows "solo_inv t"
  using assms unfolding solo_inv_def by blast

lemma solo_count_in:
  assumes inv: "solo_inv s" and all: "\<forall>d. away (s_clients s d)"
  shows "solo_ok (s_clients (count_in c s) c) (count_in c s) \<and> s_crash (count_in c s) = s_crash s"
proof -
  have "s_active s = 0"
    using solo_counts [of s c] inv all by (cases "s_clients s c") (auto simp: solo_inv_def dest: spec [of _ c])
  then have "count_in c s = client_to c (Counted 1) (s\<lparr>s_active := 1\<rparr>)" by (simp add: count_in_def)
  with solo_away [OF inv all] show ?thesis by (simp add: starting_def)
qed

lemma solo_count_out:
  assumes inv: "solo_inv s" and c: "inside (s_clients s c)" and ok: "solo_ok ToRemoteClose s"
  shows "solo_ok (s_clients (count_out c s) c) (count_out c s) \<and> s_crash (count_out c s) = s_crash s"
proof -
  have "\<not> away (s_clients s c)" using c by (cases "s_clients s c") auto
  with solo_inv_here [OF inv] have "\<And>d. d \<noteq> c \<Longrightarrow> away (s_clients s d)" by blast
  then have "s_active s = 1" using solo_counts [of s c] inv c by (simp add: solo_inv_def)
  then have "count_out c s = client_to c ToRemoteClose (s\<lparr>s_active := 0\<rparr>)" by (simp add: count_out_def)
  with ok show ?thesis by (simp add: starting_def)
qed

text \<open>A step of the client \<open>c\<close>, and a step of a change.\<close>

lemma solo_client:
  assumes "solo_inv s" "session_inv t" "\<not> away (s_clients s c)" "\<And>d. d \<noteq> c \<Longrightarrow> s_clients t d = s_clients s d"
    and "solo_ok (s_clients s c) s \<Longrightarrow> solo_ok (s_clients t c) t \<and> s_crash t = s_crash s"
  shows "solo_inv t"
proof (rule solo_invI [of t c])
  note here = solo_inv_here [OF assms(1,3)]
  show "away (s_clients t d)" if "d \<noteq> c" for d using assms(4) [OF that] here that by simp
  show "solo_ok (s_clients t c) t" "s_crash t = None"
    using assms(5) here assms(1) by (simp_all add: solo_inv_def)
qed (rule assms(2))

lemma solo_change:
  assumes "solo_inv s" "session_inv t" "s_clients t = s_clients s"
    and "\<And>k. solo_ok k s \<Longrightarrow> solo_ok k t \<and> s_crash t = s_crash s"
  shows "solo_inv t"
proof (rule solo_inv_someone [OF assms(1)])
  fix c assume "\<And>d. d \<noteq> c \<Longrightarrow> away (s_clients s d)" "solo_ok (s_clients s c) s"
  with assms show ?thesis by (intro solo_invI [of t c]) (simp_all add: solo_inv_def)
qed

lemma solo_inv_step:
  assumes "solo_step s t" and inv: "solo_inv s"
  shows "solo_inv t"
proof -
  from assms(1) obtain ev where ev: "event_ok ev" "gate_step ev s = Some t"
    and alone: "\<And>c. ev = CountIn c \<Longrightarrow> \<forall>d. away (s_clients s d)"
    by (cases rule: solo_step.cases) blast
  have sinv: "session_inv s" using inv by (simp add: solo_inv_def)
  then have changes: "changes_inv s" by (simp add: session_inv_def)
  have tinv: "session_inv t" by (rule session_inv_step [OF ev sinv])
  note client = solo_client [OF inv tinv]
  note change = solo_change [OF inv tinv]
  show ?thesis
    using ev
  proof (cases rule: gate_step_cases)
    case (count_in c)
    from alone [OF count_in(1)] solo_count_in [OF inv alone [OF count_in(1)], of c] inv tinv count_in
    show ?thesis by (intro solo_invI [of t c]) (simp_all add: remote_others solo_inv_def)
  next
    case (check c n)
    then show ?thesis
      by (intro client [of c]) (auto simp: remote_others check_open_def)
  next
    case (ropen c)
    then show ?thesis
      using solo_ok_remoteOpen [OF changes, of c] crash_remoteOpen [OF changes, of c]
      by (intro client [of c]) (auto simp: remote_others)
  next
    case (read c err)
    then show ?thesis by (intro client [of c]) auto
  next
    case (nil_attach c)
    with solo_inv_here [OF inv, of c] show ?thesis by auto
  next
    case (attach c app)
    then show ?thesis by (intro client [of c]) auto
  next
    case (count_out c app err app')
    then show ?thesis
      using solo_count_out [OF inv, of c] by (intro client [of c]) (auto simp: remote_others)
  next
    case (rclose c)
    then show ?thesis
      using solo_ok_remoteClose [OF changes, of c] by (intro client [of c]) (auto simp: remote_others)
  next
    case (recv_open c i err s')
    then show ?thesis
      using solo_ok_received(1) [OF recv_open(2)] received_clients [OF recv_open(2)]
      by (intro client [of c]) auto
  next
    case (recv_close c i err s')
    then show ?thesis
      using solo_ok_received(2) [OF recv_close(2)] received_clients [OF recv_close(2)]
      by (intro client [of c]) auto
  next
    case (open_applied i res)
    then show ?thesis using solo_ok_open_applied by (intro change) auto
  next
    case (close_applied i res)
    then show ?thesis using solo_ok_close_applied by (intro change) auto
  next
    case (clean i)
    then show ?thesis using solo_ok_clean_up by (intro change) (auto simp: is_at_def)
  next
    case (release i)
    then show ?thesis using solo_ok_finish by (intro change) (auto simp: is_at_def)
  qed
qed

interpretation solo: kept_invariant "\<lambda>s. s = new_session" solo_step solo_inv
proof
  show "solo_inv s" if "s = new_session" for s
    using that session.inv_ini [of s] by (simp add: solo_inv_def new_session_def starting_def)
qed (rule solo_inv_step)

text \<open>
  C14. One client at a time is safe: as long as a client comes in only when the others are away, the process does not panic
  whatever the API answers, and a client whose \<open>open\<close> returns no error has an app, and it is live.
\<close>

theorem session_one_at_a_time:
  assumes "reachable (\<lambda>s. s = new_session) solo_step s"
  shows "s_crash s = None
    \<and> (\<forall>c a. s_clients s c = Holding None a \<longrightarrow> (\<exists>app. a = Some app \<and> Phase app = CliAppPhaseLive))"
proof -
  have inv: "solo_inv s" using assms by (rule solo.inv_reachable)
  have "\<exists>app. a = Some app \<and> Phase app = CliAppPhaseLive" if c: "s_clients s c = Holding None a" for c a
  proof -
    from c solo_inv_here [OF inv, of c] obtain app where "a = Some app" by auto
    moreover have "client_app_ok (s_clients s c)"
      using inv by (simp add: solo_inv_def session_inv_def live_inv_def)
    ultimately show ?thesis using c by simp
  qed
  with inv show ?thesis by (simp add: solo_inv_def)
qed

lemma solo_run_reachable:
  "gate_run evs s = Some t \<Longrightarrow> list_all (\<lambda>ev. event_ok ev \<and> (\<forall>c. ev \<noteq> CountIn c)) evs \<Longrightarrow>
     reachable (\<lambda>s. s = new_session) solo_step s \<Longrightarrow> reachable (\<lambda>s. s = new_session) solo_step t"
proof (induction evs arbitrary: s)
  case (Cons ev evs)
  from Cons.prems(1) obtain u where "gate_step ev s = Some u" "gate_run evs u = Some t"
    by (auto split: option.splits)
  with Cons.prems show ?case
    by (intro Cons.IH [of u]) (auto intro!: reachable_step [of _ _ s u] solo_step.intros)
qed simp

lemma session_one_at_a_time_witness:
  "\<exists>s. gate_run (take 8 (visit 1 0)) new_session = Some s \<and> s_clients s 1 = Holding None (Some live_app)
     \<and> s_crash s = None"
proof -
  define s1 where "s1 = client_to 1 (Counted 1) (new_session\<lparr>s_active := 1\<rparr>)"
  have step: "gate_step (CountIn 1) new_session = Some s1"
    by (simp add: s1_def gate_step_def client_step_def count_in_def new_session_def)
  have "solo_step new_session s1"
    by (rule solo_step.intros [OF _ step]) (simp_all add: new_session_def)
  then have s1: "reachable (\<lambda>s. s = new_session) solo_step s1"
    by (intro reachable_step [OF reachable_init]) simp_all
  obtain s where run: "gate_run (tl (take 8 (visit 1 0))) s1 = Some s"
    and c: "s_clients s 1 = Holding None (Some live_app)"
    by (simp add: s1_def visit_def gate_step_def client_step_def change_step_def session_ops client_to_def stage_to_def
      cancel_change_def new_change_def crash_def is_at_def new_session_def Let_def)
  have "reachable (\<lambda>s. s = new_session) solo_step s"
    by (rule solo_run_reachable [OF run _ s1]) (simp add: visit_def live_app_def)
  from session_one_at_a_time [OF this] have "s_crash s = None" by simp
  moreover have "gate_run (take 8 (visit 1 0)) new_session = Some s"
    using run step by (simp add: visit_def)
  ultimately show ?thesis using c by blast
qed

end
