(* ===== verification/Goroutines.thy ===== *)
theory Goroutines
  imports Prelude
begin

text \<open>
  Goroutines that share memory and channels, as a function \<open>step\<close>: an event, of one goroutine or of what it waits for,
  leads from a state to the next one, or cannot happen (\<open>None\<close>). Here is what the systems of this kind share: their transition
  relation, and runs of given events.
\<close>

definition event_step :: "('e \<Rightarrow> 's \<Rightarrow> 's option) \<Rightarrow> 's \<Rightarrow> 's \<Rightarrow> bool" where
  "event_step step s t \<longleftrightarrow> (\<exists>ev. step ev s = Some t)"

lemma event_stepI: "step ev s = Some t \<Longrightarrow> event_step step s t"
  by (auto simp: event_step_def)

fun run_events :: "('e \<Rightarrow> 's \<Rightarrow> 's option) \<Rightarrow> 'e list \<Rightarrow> 's \<Rightarrow> 's option" where
  "run_events step [] s = Some s"
| "run_events step (ev # evs) s = (case step ev s of None \<Rightarrow> None | Some t \<Rightarrow> run_events step evs t)"

lemma run_events_steps: "run_events step evs s = Some t \<Longrightarrow> (event_step step)\<^sup>*\<^sup>* s t"
proof (induction evs arbitrary: s)
  case (Cons ev evs)
  then obtain u where "step ev s = Some u" "run_events step evs u = Some t" by (auto split: option.splits)
  with Cons.IH [of u] show ?case by (meson event_stepI converse_rtranclp_into_rtranclp)
qed simp

lemma run_events_reachable: "run_events step evs s = Some t \<Longrightarrow> ini s \<Longrightarrow> reachable ini (event_step step) t"
  unfolding reachable_def by (blast intro: run_events_steps)

text \<open>What every event that may happen keeps, from a state on, is kept by all that follows.\<close>

lemma steps_keep:
  assumes "(event_step step)\<^sup>*\<^sup>* s t" and "P s"
    and "\<And>ev u v. P u \<Longrightarrow> step ev u = Some v \<Longrightarrow> P v"
  shows "P t"
  using assms(1)
  by (induction rule: rtranclp_induct) (use assms(2,3) in \<open>auto simp: event_step_def\<close>)

text \<open>
  A system that runs down: as long as no event but the allowed ones happens, each takes away of the work that is left, and one can
  happen unless the system is over. So every run is bounded, and wherever it stands it can be led to the end.
\<close>

locale draining =
  fixes step :: "'e \<Rightarrow> 's \<Rightarrow> 's option" and allowed :: "'e \<Rightarrow> bool" and inv :: "'s \<Rightarrow> bool" and work :: "'s \<Rightarrow> nat" and over :: "'s \<Rightarrow> bool"
  assumes works: "inv s \<Longrightarrow> allowed ev \<Longrightarrow> step ev s = Some t \<Longrightarrow> inv t \<and> work t < work s"
    and going: "inv s \<Longrightarrow> \<not> over s \<Longrightarrow> \<exists>ev t. allowed ev \<and> step ev s = Some t"
begin

lemma run_bounded:
  "run_events step evs s = Some t \<Longrightarrow> inv s \<Longrightarrow> list_all allowed evs \<Longrightarrow> inv t \<and> length evs + work t \<le> work s"
proof (induction evs arbitrary: s)
  case (Cons ev evs)
  then obtain u where u: "step ev s = Some u" "run_events step evs u = Some t" by (auto split: option.splits)
  with works [of s ev u] Cons have "inv u" "work u < work s" by auto
  with Cons u show ?case by fastforce
qed simp

lemma can_end: "inv s \<Longrightarrow> \<exists>evs t. list_all allowed evs \<and> run_events step evs s = Some t \<and> over t"
proof (induction "work s" arbitrary: s rule: less_induct)
  case less
  show ?case
  proof (cases "over s")
    case True
    then show ?thesis by (intro exI [of _ "[]"] exI [of _ s]) simp
  next
    case False
    with going less.prems obtain ev u where u: "allowed ev" "step ev s = Some u" by blast
    with works [OF less.prems] less.hyps obtain evs t where "list_all allowed evs" "run_events step evs u = Some t" "over t" by blast
    with u show ?thesis by (intro exI [of _ "ev # evs"] exI [of _ t]) simp
  qed
qed

end

end
