(* ===== verification/SessionDrain.thy ===== *)
theory SessionDrain
  imports SessionProps Goroutines
begin

text \<open>
  A session runs down when no more clients come: no client waits for ever, no goroutine is left behind, and nothing is outgoing in the
  end. What the API answers may be anything, but it answers.
\<close>

section \<open>Who waits for what\<close>

text \<open>
  A client waits for a change of its kind. A change whose error may still come has a client that waits for it, to
  receive the error. The outgoing change has not been cleaned up.
\<close>

fun awaited :: "client \<Rightarrow> nat option" where
  "awaited (AwaitOpen i) = Some i"
| "awaited (AwaitClose i) = Some i"
| "awaited k = None"

fun pending :: "stage \<Rightarrow> bool" where
  "pending Applying = True"
| "pending (Sending err) = True"
| "pending st = False"

definition outgoing_ok :: "nat option \<Rightarrow> RemoteChange list \<Rightarrow> bool" where
  "outgoing_ok op ch \<longleftrightarrow> (\<forall>i. op = Some i \<longrightarrow> i < length ch \<and> (pending (rc_stage (ch ! i)) \<or> rc_stage (ch ! i) = Cleaning))"

definition waits_ok :: "(nat \<Rightarrow> client) \<Rightarrow> RemoteChange list \<Rightarrow> bool" where
  "waits_ok cl ch \<longleftrightarrow>
     (\<forall>c i. awaited (cl c) = Some i \<longrightarrow> i < length ch \<and> (rc_open (ch ! i) \<longleftrightarrow> cl c = AwaitOpen i))
   \<and> (\<forall>i < length ch. pending (rc_stage (ch ! i)) \<longrightarrow> (\<exists>c. awaited (cl c) = Some i))"

definition wait_inv :: "session \<Rightarrow> bool" where
  "wait_inv s \<longleftrightarrow> waits_ok (s_clients s) (s_changes s) \<and> outgoing_ok (s_open s) (s_changes s) \<and> outgoing_ok (s_close s) (s_changes s)
     \<and> finite {c. s_clients s c \<noteq> Outside}"

lemma still_awaited:
  assumes "waits_ok cl ch" "j < length ch" "pending (rc_stage (ch ! j))" "awaited (cl c) \<noteq> Some j"
  shows "\<exists>d. awaited ((cl(c := k)) d) = Some j"
proof -
  from assms(1-3) obtain d where d: "awaited (cl d) = Some j" by (auto simp: waits_ok_def)
  with assms(4) have "d \<noteq> c" by auto
  with d show ?thesis by (intro exI [of _ d]) simp
qed

text \<open>A client that does not wait, or waits for what needs it no more, may go on to do something else.\<close>

lemma waits_ok_move:
  assumes "waits_ok cl ch" and "\<And>i. awaited (cl c) = Some i \<Longrightarrow> \<not> pending (rc_stage (ch ! i))" and "awaited k = None"
  shows "waits_ok (cl(c := k)) ch"
  using assms still_awaited [OF assms(1)] unfolding waits_ok_def by (metis fun_upd_apply option.distinct(1))

text \<open>A client begins to wait, for an outgoing change or a new one.\<close>

lemma waits_ok_join:
  assumes "waits_ok cl ch" and "awaited (cl c) = None" and "awaited k = Some i" and "i < length ch"
    and "rc_open (ch ! i) \<longleftrightarrow> k = AwaitOpen i"
  shows "waits_ok (cl(c := k)) ch"
  unfolding waits_ok_def
proof (intro conjI allI impI)
  fix d j assume d: "awaited ((cl(c := k)) d) = Some j"
  have old: "awaited (cl d) = Some j \<Longrightarrow> j < length ch \<and> (rc_open (ch ! j) \<longleftrightarrow> cl d = AwaitOpen j)"
    using assms(1) by (simp add: waits_ok_def)
  show "j < length ch" and "rc_open (ch ! j) \<longleftrightarrow> (cl(c := k)) d = AwaitOpen j"
    using d old assms(3-5) by (cases "d = c"; simp)+
next
  fix j assume "j < length ch" "pending (rc_stage (ch ! j))"
  then show "\<exists>d. awaited ((cl(c := k)) d) = Some j"
    using assms(2) still_awaited [OF assms(1), of j c k] by simp
qed

lemma waits_ok_push:
  assumes "waits_ok cl ch" and "awaited (cl c) = None" and "awaited k = Some (length ch)"
    and "is_open \<longleftrightarrow> k = AwaitOpen (length ch)"
  shows "waits_ok (cl(c := k)) (ch @ [new_change is_open])"
  unfolding waits_ok_def
proof (intro conjI allI impI)
  fix d i assume d: "awaited ((cl(c := k)) d) = Some i"
  have old: "awaited (cl d) = Some i \<Longrightarrow> i < length ch \<and> (rc_open (ch ! i) \<longleftrightarrow> cl d = AwaitOpen i)"
    using assms(1) by (simp add: waits_ok_def)
  show "i < length (ch @ [new_change is_open])"
    and "rc_open ((ch @ [new_change is_open]) ! i) \<longleftrightarrow> (cl(c := k)) d = AwaitOpen i"
    using d old assms(3,4) by (cases "d = c"; simp add: nth_append new_change_def)+
next
  fix i assume "i < length (ch @ [new_change is_open])" "pending (rc_stage ((ch @ [new_change is_open]) ! i))"
  then show "\<exists>d. awaited ((cl(c := k)) d) = Some i"
    using assms(2,3) still_awaited [OF assms(1), of i c k]
    by (cases "i < length ch") (auto simp: nth_append intro!: exI [of _ c])
qed

text \<open>A change moves on in its stage.\<close>

lemma waits_ok_stage:
  assumes "waits_ok cl ch" and "rc_open x = rc_open (ch ! i)" and "pending (rc_stage x) \<Longrightarrow> pending (rc_stage (ch ! i))"
  shows "waits_ok cl (ch[i := x])"
  using assms unfolding waits_ok_def by (auto simp: nth_update)

lemma outgoing_ok_stage:
  assumes "outgoing_ok op ch" and "op = Some i \<Longrightarrow> pending (rc_stage x) \<or> rc_stage x = Cleaning"
  shows "outgoing_ok op (ch[i := x])"
  using assms unfolding outgoing_ok_def by (auto simp: nth_update)

lemma outgoing_ok_None [simp]: "outgoing_ok None ch"
  by (simp add: outgoing_ok_def)

section \<open>The invariant\<close>

lemma changes_simps [simp]:
  "s_changes (client_to c k s) = s_changes s" "s_changes (crash p s) = s_changes s"
  "s_open (client_to c k s) = s_open s" "s_open (crash p s) = s_open s" "s_open (stage_to i st s) = s_open s"
  "s_close (client_to c k s) = s_close s" "s_close (crash p s) = s_close s" "s_close (stage_to i st s) = s_close s"
  "s_open (cancel_change i s) = s_open s" "s_close (cancel_change i s) = s_close s"
  by (simp_all add: client_to_def crash_def stage_to_def cancel_change_def)

lemma wait_inv_move:
  assumes "wait_inv s" and "s_clients s c \<noteq> Outside \<or> k \<noteq> Outside"
    and "\<And>i. awaited (s_clients s c) = Some i \<Longrightarrow> \<not> pending (rc_stage (s_changes s ! i))" and "awaited k = None"
  shows "wait_inv (client_to c k s)"
proof -
  have "finite {d. ((s_clients s)(c := k)) d \<noteq> Outside}"
    by (rule finite_subset [of _ "insert c {d. s_clients s d \<noteq> Outside}"]) (use assms(1) in \<open>auto simp: wait_inv_def\<close>)
  with assms waits_ok_move [of "s_clients s" "s_changes s" c k] show ?thesis
    by (simp add: wait_inv_def)
qed

lemma wait_inv_crash [simp]: "wait_inv (crash p s) = wait_inv s"
  by (simp add: wait_inv_def)

lemma wait_inv_other [simp]:
  "wait_inv (s\<lparr>s_active := n\<rparr>) = wait_inv s" "wait_inv (s\<lparr>s_app := a\<rparr>) = wait_inv s"
  by (simp_all add: wait_inv_def)

lemma wait_inv_stage:
  assumes "wait_inv s" and "pending st \<Longrightarrow> pending (rc_stage (s_changes s ! i))"
    and "s_open s = Some i \<or> s_close s = Some i \<Longrightarrow> pending st \<or> st = Cleaning"
  shows "wait_inv (stage_to i st s)"
  using assms by (auto simp: wait_inv_def stage_to_def intro!: waits_ok_stage outgoing_ok_stage)

lemma wait_inv_cancel: "wait_inv s \<Longrightarrow> wait_inv (cancel_change i s)"
  unfolding wait_inv_def cancel_change_def
  by (auto intro!: waits_ok_stage simp: outgoing_ok_def nth_update)

lemma wait_inv_unset: "wait_inv s \<Longrightarrow> wait_inv (s\<lparr>s_open := None, s_ctxCancel := x\<rparr>)"
  "wait_inv s \<Longrightarrow> wait_inv (s\<lparr>s_close := None, s_ctxCancel := x\<rparr>)"
  "wait_inv s \<Longrightarrow> wait_inv (s\<lparr>s_open := None, s_close := None, s_ctxCancel := x\<rparr>)"
  by (simp_all add: wait_inv_def)

lemma wait_inv_ctxCancel: "wait_inv s \<Longrightarrow> wait_inv (call_ctxCancel s)"
  by (simp add: call_ctxCancel_def wait_inv_cancel split: option.split)

lemma wait_inv_begin:
  assumes "wait_inv s" and "awaited (s_clients s c) = None" and "awaited k = Some (length (s_changes s))"
    and "is_open \<longleftrightarrow> k = AwaitOpen (length (s_changes s))"
    and t: "s_clients t = (s_clients s)(c := k)" "s_changes t = s_changes s @ [new_change is_open]"
      "s_open t = None \<or> s_open t = Some (length (s_changes s))" "s_close t = None \<or> s_close t = Some (length (s_changes s))"
  shows "wait_inv t"
proof -
  have "finite {d. ((s_clients s)(c := k)) d \<noteq> Outside}"
    by (rule finite_subset [of _ "insert c {d. s_clients s d \<noteq> Outside}"]) (use assms(1) in \<open>auto simp: wait_inv_def\<close>)
  moreover have "outgoing_ok o' (s_changes s @ [new_change is_open])" if "o' = None \<or> o' = Some (length (s_changes s))" for o'
    using that by (auto simp: outgoing_ok_def new_change_def)
  ultimately show ?thesis
    using assms(1-4) waits_ok_push [of "s_clients s" "s_changes s" c k is_open] t(3,4) by (simp add: wait_inv_def t(1,2))
qed

lemma wait_inv_remoteOpen:
  assumes "wait_inv s" and "changes_inv s" and c: "s_clients s c = ToRemoteOpen"
  shows "wait_inv (remoteOpen c s)"
proof (cases "s_open s")
  case None
  define u where "u = (if s_close s \<noteq> None then (call_ctxCancel s)\<lparr>s_close := None, s_ctxCancel := None\<rparr> else s)"
  have u: "wait_inv u" "s_clients u = s_clients s" "s_open u = None" "s_close u = None"
    using wait_inv_unset(2) [OF wait_inv_ctxCancel [OF assms(1)], of None] assms(1) None
    by (simp_all add: u_def) (simp_all add: call_ctxCancel_def split: option.split)
  have "s_clients (remoteOpen c s) = (s_clients u)(c := AwaitOpen (length (s_changes u)))"
    "s_changes (remoteOpen c s) = s_changes u @ [new_change True]"
    "s_open (remoteOpen c s) = Some (length (s_changes u))" "s_close (remoteOpen c s) = None"
    using None u(2,4) by (simp_all add: remoteOpen_def u_def client_to_def Let_def)
  with u(2) c show ?thesis by (intro wait_inv_begin [OF u(1), of c "AwaitOpen (length (s_changes u))" True]) simp_all
next
  case (Some i)
  with assms(2) have i: "i < length (s_changes s)" "rc_open (s_changes s ! i)"
    by (auto simp: changes_inv_def changes_ok_def)
  have "finite {d. ((s_clients s)(c := AwaitOpen i)) d \<noteq> Outside}"
    by (rule finite_subset [of _ "insert c {d. s_clients s d \<noteq> Outside}"]) (use assms(1) in \<open>auto simp: wait_inv_def\<close>)
  with assms(1) Some c i waits_ok_join [of "s_clients s" "s_changes s" c "AwaitOpen i" i]
  show ?thesis by (simp add: remoteOpen_def wait_inv_def)
qed

lemma wait_inv_remoteClose:
  assumes "wait_inv s" and c: "s_clients s c = ToRemoteClose"
  shows "wait_inv (remoteClose c s)"
proof (cases "s_close s")
  case None
  define u where "u = (if s_open s \<noteq> None then (call_ctxCancel s)\<lparr>s_open := None, s_ctxCancel := None\<rparr> else s)"
  have u: "wait_inv u" "s_clients u = s_clients s" "s_open u = None" "s_close u = None"
    using wait_inv_unset(1) [OF wait_inv_ctxCancel [OF assms(1)], of None] assms(1) None
    by (simp_all add: u_def) (simp_all add: call_ctxCancel_def split: option.split)
  have "s_clients (remoteClose c s) = (s_clients u)(c := AwaitClose (length (s_changes u)))"
    "s_changes (remoteClose c s) = s_changes u @ [new_change False]"
    "s_open (remoteClose c s) = None" "s_close (remoteClose c s) = Some (length (s_changes u))"
    using None u(2,3) by (simp_all add: remoteClose_def u_def client_to_def Let_def)
  with u(2) c show ?thesis by (intro wait_inv_begin [OF u(1), of c "AwaitClose (length (s_changes u))" False]) simp_all
qed (use assms in \<open>simp add: remoteClose_def\<close>)

lemma wait_inv_clean_up:
  assumes "wait_inv s" and "changes_inv s" and "rc_stage (s_changes s ! i) = Cleaning"
  shows "wait_inv (clean_up i s)"
proof -
  let ?u = "cancel_change i s"
  have "wait_inv (if s_open s = Some i \<or> s_close s = Some i
      then stage_to i Releasing (?u\<lparr>s_open := None, s_close := None, s_ctxCancel := None\<rparr>) else stage_to i Releasing ?u)"
    using assms(1) by (auto intro!: wait_inv_stage wait_inv_unset wait_inv_cancel)
  moreover have "clean_up i s = (if s_open s = Some i \<or> s_close s = Some i
      then stage_to i Releasing (?u\<lparr>s_open := None, s_close := None, s_ctxCancel := None\<rparr>) else stage_to i Releasing ?u)"
    by (cases s) (simp add: clean_up_def stage_to_def cancel_change_def)
  ultimately show ?thesis by (simp only:)
qed

lemma wait_inv_received:
  assumes "wait_inv s" and "received i s = Some (err, s')" and "awaited (s_clients s c) = Some i" and "awaited k = None"
    and "k \<noteq> Outside"
  shows "wait_inv (client_to c k s')"
proof (cases "rc_stage (s_changes s ! i)")
  case (Sending e)
  have "i < length (s_changes s)" using assms(1,3) by (auto simp: wait_inv_def waits_ok_def)
  then have "\<not> pending (rc_stage (s_changes (stage_to i Cleaning s) ! i))" by (simp add: stage_to_def)
  moreover have "wait_inv (stage_to i Cleaning s)" using assms(1) Sending by (intro wait_inv_stage) simp_all
  ultimately show ?thesis
    using assms Sending by (auto simp: received_def intro!: wait_inv_move)
next
  case Finished
  with assms show ?thesis by (auto simp: received_def intro!: wait_inv_move)
qed (use assms in \<open>simp_all add: received_def\<close>)

lemma wait_inv_step:
  assumes "event_ok ev" "gate_step ev s = Some t" and inv: "wait_inv s" "changes_inv s"
  shows "wait_inv t"
  using assms(1,2)
proof (cases rule: gate_step_cases)
  case (ropen c)
  with inv wait_inv_remoteOpen show ?thesis by simp
next
  case (rclose c)
  with inv wait_inv_remoteClose show ?thesis by simp
next
  case (recv_open c i err s')
  with inv wait_inv_received show ?thesis by simp
next
  case (recv_close c i err s')
  with inv wait_inv_received show ?thesis by simp
next
  case (open_applied i res)
  with inv show ?thesis by (auto simp: open_applied_def is_at_def intro!: wait_inv_stage split: sum.splits)
next
  case (close_applied i res)
  with inv show ?thesis by (auto simp: close_applied_def is_at_def intro!: wait_inv_stage split: option.splits)
next
  case (clean i)
  with inv wait_inv_clean_up show ?thesis by (auto simp: is_at_def)
next
  case (release i)
  then have stage: "rc_stage (s_changes s ! i) = Releasing" by (auto simp: is_at_def)
  with inv have "s_open s \<noteq> Some i" "s_close s \<noteq> Some i" by (auto simp: wait_inv_def outgoing_ok_def)
  with inv release(2) stage show ?thesis by (auto intro!: wait_inv_stage)
qed (use inv in \<open>auto simp: count_in_def check_open_def count_out_def Let_def intro!: wait_inv_move\<close>)

section \<open>The work that is left\<close>

text \<open>At most so many steps a client and a change have before them; a client on its way to a remote change has those of the change too.\<close>

fun client_steps :: "client \<Rightarrow> nat" where
  "client_steps (Counted n) = 16"
| "client_steps ToRemoteOpen = 15"
| "client_steps (AwaitOpen i) = 10"
| "client_steps (Opened err) = 9"
| "client_steps (Holding err a) = 8"
| "client_steps (Attached app) = 7"
| "client_steps ToRemoteClose = 6"
| "client_steps (AwaitClose i) = 1"
| "client_steps k = 0"

fun stage_steps :: "stage \<Rightarrow> nat" where
  "stage_steps Applying = 4"
| "stage_steps (Sending err) = 3"
| "stage_steps Cleaning = 2"
| "stage_steps Releasing = 1"
| "stage_steps Finished = 0"

definition clients_work :: "(nat \<Rightarrow> client) \<Rightarrow> nat" where
  "clients_work cl = (\<Sum>c | cl c \<noteq> Outside. client_steps (cl c))"

definition changes_work :: "RemoteChange list \<Rightarrow> nat" where
  "changes_work ch = sum_list (map (\<lambda>rc. stage_steps (rc_stage rc)) ch)"

definition session_work :: "session \<Rightarrow> nat" where
  "session_work s = clients_work (s_clients s) + changes_work (s_changes s) + (if s_crash s = None then 1 else 0)"

lemma clients_work_move:
  assumes "finite {c. cl c \<noteq> Outside}" and "cl c \<noteq> Outside" and "k \<noteq> Outside"
  shows "clients_work (cl(c := k)) + client_steps (cl c) = clients_work cl + client_steps k"
proof -
  have same: "{d. (cl(c := k)) d \<noteq> Outside} = {d. cl d \<noteq> Outside}" using assms(2,3) by auto
  have c: "c \<in> {d. cl d \<noteq> Outside}" using assms(2) by simp
  have new: "clients_work (cl(c := k)) = client_steps k + (\<Sum>d \<in> {d. cl d \<noteq> Outside} - {c}. client_steps ((cl(c := k)) d))"
    unfolding clients_work_def same using sum.remove [OF assms(1) c, of "\<lambda>d. client_steps ((cl(c := k)) d)"] by simp
  have rest: "(\<Sum>d \<in> {d. cl d \<noteq> Outside} - {c}. client_steps ((cl(c := k)) d)) = (\<Sum>d \<in> {d. cl d \<noteq> Outside} - {c}. client_steps (cl d))"
    by (rule sum.cong) simp_all
  have "clients_work cl = client_steps (cl c) + (\<Sum>d \<in> {d. cl d \<noteq> Outside} - {c}. client_steps (cl d))"
    unfolding clients_work_def using sum.remove [OF assms(1) c, of "\<lambda>d. client_steps (cl d)"] by simp
  with new show ?thesis unfolding rest by linarith
qed

lemma changes_work_update:
  assumes "i < length ch"
  shows "changes_work (ch[i := x]) + stage_steps (rc_stage (ch ! i)) = changes_work ch + stage_steps (rc_stage x)"
  using assms unfolding changes_work_def
proof (induction ch arbitrary: i)
  case (Cons rc ch)
  then show ?case by (cases i) auto
qed simp

lemma changes_work_snoc [simp]: "changes_work (ch @ [rc]) = changes_work ch + stage_steps (rc_stage rc)"
  by (simp add: changes_work_def)

lemma changes_work_cancel [simp]: "changes_work (s_changes (cancel_change i s)) = changes_work (s_changes s)"
proof (cases "i < length (s_changes s)")
  case True
  from changes_work_update [OF this, of "(s_changes s ! i)\<lparr>rc_cancelled := True\<rparr>"] show ?thesis by (simp add: cancel_change_def)
qed (simp add: cancel_change_def list_update_beyond)

lemma changes_work_ctxCancel [simp]: "changes_work (s_changes (call_ctxCancel s)) = changes_work (s_changes s)"
  by (simp add: call_ctxCancel_def split: option.split)

lemma changes_work_stage:
  assumes "i < length (s_changes s)"
  shows "changes_work (s_changes (stage_to i st s)) + stage_steps (rc_stage (s_changes s ! i)) = changes_work (s_changes s) + stage_steps st"
  using changes_work_update [OF assms, of "(s_changes s ! i)\<lparr>rc_stage := st\<rparr>"] by (simp add: stage_to_def)

lemma remote_changes_work:
  "s_open s = None \<Longrightarrow> changes_work (s_changes (remoteOpen c s)) = changes_work (s_changes s) + 4"
  "s_close s = None \<Longrightarrow> changes_work (s_changes (remoteClose c s)) = changes_work (s_changes s) + 4"
  by (auto simp: remoteOpen_def remoteClose_def new_change_def Let_def)

text \<open>A step of a client and one of a change do work.\<close>

lemma client_works:
  assumes "wait_inv s" and "s_clients s c \<noteq> Outside" and "k \<noteq> Outside" and "s_clients t = (s_clients s)(c := k)"
    and "changes_work (s_changes t) + client_steps k < changes_work (s_changes s) + client_steps (s_clients s c)"
    and "s_crash s = None"
  shows "session_work t < session_work s"
  using clients_work_move [of "s_clients s" c k] assms by (auto simp: session_work_def wait_inv_def)

lemma change_works:
  assumes "s_clients t = s_clients s" and "changes_work (s_changes t) < changes_work (s_changes s)" and "s_crash s = None"
  shows "session_work t < session_work s"
  using assms by (simp add: session_work_def)

lemma crash_works: "s_crash s = None \<Longrightarrow> session_work (crash p (s\<lparr>s_active := n\<rparr>)) < session_work s"
  "s_crash s = None \<Longrightarrow> session_work (crash p s) < session_work s"
  by (simp_all add: session_work_def)

text \<open>What a receiver finds.\<close>

lemma received_work:
  assumes "received i s = Some (err, s')" and "i < length (s_changes s)"
  shows "changes_work (s_changes s') \<le> changes_work (s_changes s)"
  using assms changes_work_stage [OF assms(2), of Cleaning] by (auto simp: received_def split: stage.splits)

lemma step_works:
  assumes ev: "event_ok ev" "\<And>c. ev \<noteq> CountIn c" and step: "gate_step ev s = Some t"
    and inv: "wait_inv s" "session_inv s"
  shows "session_work t < session_work s"
proof -
  have run: "s_crash s = None" using step by (simp add: gate_step_def split: if_splits)
  have changes: "changes_inv s" using inv(2) by (simp add: session_inv_def)
  note client = client_works [OF inv(1), where t = t, OF _ _ _ _ run]
  note change = change_works [where t = t, OF _ _ run]
  have awaits: "i < length (s_changes s)" if "awaited (s_clients s c) = Some i" for c i
    using inv(1) that by (auto simp: wait_inv_def waits_ok_def)
  show ?thesis
    using ev(1) step
  proof (cases rule: gate_step_cases)
    case (count_in c)
    with ev(2) [of c] show ?thesis by simp
  next
    case (check c n)
    define k where "k = (if n > 1 \<and> s_app s \<noteq> None then Opened None else ToRemoteOpen)"
    with check have "t = client_to c k s" by (auto simp: check_open_def)
    with check(1) show ?thesis by (intro client [of c k]) (simp_all add: k_def)
  next
    case (ropen c)
    show ?thesis
    proof (cases "s_open s")
      case None
      with ropen show ?thesis
        by (intro client [of c "AwaitOpen (length (s_changes s))"])
          (auto simp: remote_changes_work, auto simp: remoteOpen_def call_ctxCancel_def cancel_change_def Let_def split: option.splits)
    next
      case (Some i)
      with changes have "s_close s = None" by (auto elim: changes_inv_shape)
      with Some ropen show ?thesis by (intro client [of c "AwaitOpen i"]) (simp_all add: remoteOpen_def)
    qed
  next
    case (read c err)
    then show ?thesis by (intro client [of c "Holding err (s_app s)"]) simp_all
  next
    case (nil_attach c)
    with run crash_works(2) show ?thesis by simp
  next
    case (attach c app)
    then show ?thesis by (intro client [of c "Attached app"]) simp_all
  next
    case (count_out c app err app')
    then have "inside (s_clients s c)" by auto
    with inv(2) have "s_active s \<ge> 1"
      using card_gt_0_iff [of "{d. inside (s_clients s d)}"] by (fastforce simp: session_inv_def count_inv_def)
    define k where "k = (if s_active s > 1 then Left None else ToRemoteClose)"
    with count_out(2) \<open>s_active s \<ge> 1\<close> have "t = client_to c k (s\<lparr>s_active := s_active s - 1\<rparr>)"
      by (simp add: count_out_def Let_def)
    with count_out(1) show ?thesis by (intro client [of c k]) (auto simp: k_def)
  next
    case (rclose c)
    show ?thesis
    proof (cases "s_close s")
      case None
      with rclose show ?thesis
        by (intro client [of c "AwaitClose (length (s_changes s))"])
          (auto simp: remote_changes_work, auto simp: remoteClose_def call_ctxCancel_def cancel_change_def Let_def split: option.splits)
    next
      case (Some i)
      with rclose run crash_works(2) show ?thesis by (simp add: remoteClose_def)
    qed
  next
    case (recv_open c i err s')
    with received_clients [OF recv_open(2)] received_work [OF recv_open(2)] awaits [of c i]
    show ?thesis by (intro client [of c "Opened err"]) simp_all
  next
    case (recv_close c i err s')
    with received_clients [OF recv_close(2)] received_work [OF recv_close(2)] awaits [of c i]
    show ?thesis by (intro client [of c "Left err"]) simp_all
  next
    case (open_applied i res)
    then have "i < length (s_changes s)" "rc_stage (s_changes s ! i) = Applying" by (simp_all add: is_at_def)
    note less = changes_work_stage [OF this(1), unfolded this(2)]
    show ?thesis
    proof (cases res)
      case (Inl err)
      with less [of "Sending err"] open_applied(2) show ?thesis by (intro change) (simp_all add: open_applied_def)
    next
      case (Inr app)
      with less [of Cleaning] open_applied(2) run crash_works(2) show ?thesis
        by (cases "s_app s") (auto simp: open_applied_def session_work_def stage_to_def)
    qed
  next
    case (close_applied i res)
    then have "i < length (s_changes s)" "rc_stage (s_changes s ! i) = Applying" by (simp_all add: is_at_def)
    note less = changes_work_stage [OF this(1), unfolded this(2)]
    define st where "st = (case res of Some err \<Rightarrow> Sending err | None \<Rightarrow> Cleaning)"
    with close_applied(2) have "t = stage_to i st s" by (auto simp: close_applied_def split: option.splits)
    with less [of st] show ?thesis by (intro change) (auto simp: st_def split: option.splits)
  next
    case (clean i)
    then have i: "i < length (s_changes (cancel_change i s))" "rc_stage (s_changes (cancel_change i s) ! i) = Cleaning"
      by (auto simp: is_at_def cancel_change_def)
    have "s_changes t = s_changes (stage_to i Releasing (cancel_change i s))"
      by (simp add: clean(2) clean_up_def Let_def)
    with changes_work_stage [OF i(1), of Releasing] i(2) clean(2) show ?thesis by (intro change) simp_all
  next
    case (release i)
    then have "i < length (s_changes s)" "rc_stage (s_changes s ! i) = Releasing" by (auto simp: is_at_def)
    with changes_work_stage [of i s Finished] release(2) show ?thesis by (intro change) simp_all
  qed
qed

section \<open>Running down\<close>

definition drained :: "session \<Rightarrow> bool" where
  "drained s \<longleftrightarrow> s_active s = 0 \<and> (\<forall>c. s_clients s c = Outside \<or> (\<exists>err. s_clients s c = Left err))
     \<and> (\<forall>rc \<in> set (s_changes s). rc_stage rc = Finished) \<and> s_open s = None \<and> s_close s = None \<and> s_ctxCancel s = None"

definition nobody_comes :: "event \<Rightarrow> bool" where
  "nobody_comes ev \<longleftrightarrow> event_ok ev \<and> (\<forall>c. ev \<noteq> CountIn c)"

text \<open>Whoever has not finished can go on, or waits for a change that can.\<close>

lemma change_goes_on:
  assumes run: "s_crash s = None" and i: "i < length (s_changes s)"
  shows "rc_stage (s_changes s ! i) = Applying \<Longrightarrow> \<exists>ev t. nobody_comes ev \<and> gate_step ev s = Some t"
    and "rc_stage (s_changes s ! i) = Cleaning \<Longrightarrow> \<exists>ev t. nobody_comes ev \<and> gate_step ev s = Some t"
    and "rc_stage (s_changes s ! i) = Releasing \<Longrightarrow> \<exists>ev t. nobody_comes ev \<and> gate_step ev s = Some t"
proof -
  assume st: "rc_stage (s_changes s ! i) = Applying"
  let ?ev = "if rc_open (s_changes s ! i) then OpenApplied i (Inl EOF) else CloseApplied i None"
  have "nobody_comes ?ev \<and> (\<exists>t. gate_step ?ev s = Some t)"
    using st assms by (simp add: nobody_comes_def gate_step_def client_step_def change_step_def is_at_def)
  then show "\<exists>ev t. nobody_comes ev \<and> gate_step ev s = Some t" by blast
next
  assume st: "rc_stage (s_changes s ! i) = Cleaning"
  have "nobody_comes (CleanUp i) \<and> (\<exists>t. gate_step (CleanUp i) s = Some t)"
    using st assms by (simp add: nobody_comes_def gate_step_def client_step_def change_step_def is_at_def)
  then show "\<exists>ev t. nobody_comes ev \<and> gate_step ev s = Some t" by blast
next
  assume st: "rc_stage (s_changes s ! i) = Releasing"
  have "nobody_comes (CloseChannel i) \<and> (\<exists>t. gate_step (CloseChannel i) s = Some t)"
    using st assms by (simp add: nobody_comes_def gate_step_def client_step_def change_step_def is_at_def)
  then show "\<exists>ev t. nobody_comes ev \<and> gate_step ev s = Some t" by blast
qed

lemma receive_goes_on:
  assumes run: "s_crash s = None" and inv: "wait_inv s" and c: "awaited (s_clients s c) = Some i"
  shows "\<exists>ev t. nobody_comes ev \<and> gate_step ev s = Some t"
proof -
  have i: "i < length (s_changes s)" using inv c by (auto simp: wait_inv_def waits_ok_def)
  have receive: "\<exists>t. gate_step (Receive c) s = Some t" if "received i s = Some r" for r
    using that run c by (cases "s_clients s c"; cases r) (auto simp: gate_step_def client_step_def)
  have "nobody_comes (Receive c)" by (simp add: nobody_comes_def)
  with receive change_goes_on [OF run i] show ?thesis
    by (cases "rc_stage (s_changes s ! i)") (auto simp: received_def)
qed

lemma client_goes_on:
  assumes run: "s_crash s = None" and inv: "wait_inv s" and c: "s_clients s c \<noteq> Outside" "\<And>err. s_clients s c \<noteq> Left err"
  shows "\<exists>ev t. nobody_comes ev \<and> gate_step ev s = Some t"
proof -
  have ok: "nobody_comes (CheckOpen c)" "nobody_comes (RemoteOpen c)" "nobody_comes (ReadApp c)" "nobody_comes (Attach c)"
    "nobody_comes (CountOut c)" "nobody_comes (RemoteClose c)"
    by (simp_all add: nobody_comes_def)
  note step = gate_step_def client_step_def
  show ?thesis
  proof (cases "s_clients s c")
    case (Counted n)
    with ok(1) run show ?thesis by (intro exI [of _ "CheckOpen c"]) (simp add: step)
  next
    case ToRemoteOpen
    with ok(2) run show ?thesis by (intro exI [of _ "RemoteOpen c"]) (simp add: step)
  next
    case (Opened err)
    with ok(3) run show ?thesis by (intro exI [of _ "ReadApp c"]) (simp add: step)
  next
    case (Holding err a)
    show ?thesis
    proof (cases err)
      case None
      with Holding ok(4) run show ?thesis by (intro exI [of _ "Attach c"]) (simp add: step split: option.split)
    next
      case (Some e)
      with Holding ok(5) run show ?thesis by (intro exI [of _ "CountOut c"]) (simp add: step)
    qed
  next
    case (Attached app)
    with ok(5) run show ?thesis by (intro exI [of _ "CountOut c"]) (simp add: step)
  next
    case ToRemoteClose
    with ok(6) run show ?thesis by (intro exI [of _ "RemoteClose c"]) (simp add: step)
  next
    case (AwaitOpen i)
    then show ?thesis by (intro receive_goes_on [OF run inv, of c i]) simp
  next
    case (AwaitClose i)
    then show ?thesis by (intro receive_goes_on [OF run inv, of c i]) simp
  qed (use c in simp_all)
qed

lemma outgoing_finished: "outgoing_ok op ch \<Longrightarrow> (\<And>i. i < length ch \<Longrightarrow> rc_stage (ch ! i) = Finished) \<Longrightarrow> op = None"
  by (cases op) (auto simp: outgoing_ok_def)

lemma session_goes_on:
  assumes inv: "wait_inv s" "session_inv s" and going: "s_crash s = None" "\<not> drained s"
  shows "\<exists>ev t. nobody_comes ev \<and> gate_step ev s = Some t"
proof (rule ccontr)
  assume stuck: "\<not> ?thesis"
  have away: "s_clients s c = Outside \<or> (\<exists>err. s_clients s c = Left err)" for c
    using client_goes_on [OF going(1) inv(1), of c] stuck by blast
  have finished: "rc_stage (s_changes s ! i) = Finished" if i: "i < length (s_changes s)" for i
  proof -
    have "\<not> pending (rc_stage (s_changes s ! i))"
    proof
      assume "pending (rc_stage (s_changes s ! i))"
      with inv(1) i obtain c where "awaited (s_clients s c) = Some i" by (auto simp: wait_inv_def waits_ok_def)
      with away [of c] show False by auto
    qed
    with change_goes_on [OF going(1) i] stuck show ?thesis by (cases "rc_stage (s_changes s ! i)") auto
  qed
  then have "s_open s = None" "s_close s = None"
    using inv(1) outgoing_finished [OF _ finished] unfolding wait_inv_def by blast+
  moreover from this have "s_ctxCancel s = None"
    using inv(2) by (auto simp: session_inv_def elim: changes_inv_shape)
  moreover have "\<not> inside (s_clients s c)" for c using away [of c] by auto
  then have "s_active s = 0" using inv(2) by (simp add: session_inv_def count_inv_def)
  ultimately have "drained s" using away finished by (auto simp: drained_def in_set_conv_nth)
  with going(2) show False by blast
qed

interpretation running_down: draining gate_step nobody_comes "\<lambda>s. wait_inv s \<and> session_inv s" session_work
  "\<lambda>s. s_crash s \<noteq> None \<or> drained s"
proof
  fix s ev t
  assume inv: "wait_inv s \<and> session_inv s" and ev: "nobody_comes ev" and step: "gate_step ev s = Some t"
  from ev have ok: "event_ok ev" "\<And>c. ev \<noteq> CountIn c" by (simp_all add: nobody_comes_def)
  from inv have "changes_inv s" by (simp add: session_inv_def)
  with inv step_works [OF ok step] wait_inv_step [OF ok(1) step] session_inv_step [OF ok(1) step]
  show "(wait_inv t \<and> session_inv t) \<and> session_work t < session_work s" by blast
next
  fix s assume "wait_inv s \<and> session_inv s" "\<not> (s_crash s \<noteq> None \<or> drained s)"
  with session_goes_on show "\<exists>ev t. nobody_comes ev \<and> gate_step ev s = Some t" by blast
qed

interpretation session_waits: kept_invariant "\<lambda>s. s = new_session" session_step "\<lambda>s. wait_inv s \<and> session_inv s"
proof
  show "wait_inv s \<and> session_inv s" if "s = new_session" for s
    using that session.inv_ini [OF that] by (simp add: wait_inv_def waits_ok_def) (simp add: new_session_def)
  fix s t assume inv: "wait_inv s \<and> session_inv s" and "session_step s t"
  from this(2) obtain ev where "event_ok ev" "gate_step ev s = Some t" by (rule session_stepE)
  with inv session_inv_step [of ev s t] wait_inv_step [of ev s t] show "wait_inv t \<and> session_inv t"
    by (simp add: session_inv_def)
qed

lemma gate_run_events: "gate_run evs s = run_events gate_step evs s"
  by (induction evs arbitrary: s) (auto split: option.split)

section \<open>Property\<close>

text \<open>
  C15. A session runs down. From any state that clients and API can bring it to, when no more clients come in: every run ends
  after a bounded number of steps; it stops only when the process has panicked or all is done, every client away, every
  goroutine over with its channel closed, nothing outgoing, the counter at zero; and it can be led there from wherever it is. So no client
  waits for a channel that nobody serves, and no goroutine for a receiver that is gone. Where clients come one after the other, it is
  always done without a panic.
\<close>

theorem session_runs_down:
  assumes "reachable (\<lambda>s. s = new_session) session_step s"
    and "gate_run evs s = Some t" and "list_all nobody_comes evs"
  shows "length evs \<le> session_work s
    \<and> ((\<forall>ev. nobody_comes ev \<longrightarrow> gate_step ev t = None) \<longrightarrow> s_crash t \<noteq> None \<or> drained t)
    \<and> (\<exists>more u. list_all nobody_comes more \<and> gate_run more t = Some u \<and> (s_crash u \<noteq> None \<or> drained u)
         \<and> (reachable (\<lambda>s. s = new_session) solo_step s \<longrightarrow> s_crash u = None))"
proof -
  have s: "wait_inv s \<and> session_inv s" using assms(1) by (rule session_waits.inv_reachable)
  have t: "wait_inv t \<and> session_inv t" and bound: "length evs + session_work t \<le> session_work s"
    using running_down.run_bounded [OF _ s assms(3), of t] assms(2) by (simp_all add: gate_run_events)
  obtain more u where u: "list_all nobody_comes more" "gate_run more t = Some u" "s_crash u \<noteq> None \<or> drained u"
    using running_down.can_end [OF t] by (auto simp: gate_run_events)
  have "s_crash u = None" if "reachable (\<lambda>s. s = new_session) solo_step s"
  proof -
    have alone: "list_all (\<lambda>ev. event_ok ev \<and> (\<forall>c. ev \<noteq> CountIn c)) es" if "list_all nobody_comes es" for es
      using that by (simp add: list_all_iff nobody_comes_def)
    have "reachable (\<lambda>s. s = new_session) solo_step u"
      using solo_run_reachable [OF u(2) alone [OF u(1)]] solo_run_reachable [OF assms(2) alone [OF assms(3)] that] by blast
    then show ?thesis using solo.inv_reachable by (auto simp: solo_inv_def)
  qed
  with bound u running_down.going [OF t] show ?thesis by fastforce
qed

text \<open>A client has come in and is about to open the app.\<close>

theorem session_runs_down_witness:
  "\<exists>s t more u. gate_run [CountIn 1] new_session = Some s \<and> gate_run [CheckOpen 1] s = Some t
     \<and> gate_run more t = Some u \<and> drained u"
proof -
  obtain s where s: "gate_step (CountIn 1) new_session = Some s" "s_clients s 1 = Counted 1" "s_crash s = None"
    by (simp add: gate_step_def client_step_def count_in_def new_session_def client_to_def)
  have step: "session_step new_session s" by (rule session_step.intros [OF _ s(1)]) simp
  have solo: "solo_step new_session s" by (rule solo_step.intros [OF _ s(1)]) (simp_all add: new_session_def)
  obtain t where t: "gate_run [CheckOpen 1] s = Some t"
    using s by (simp add: gate_step_def client_step_def)
  have ok: "list_all nobody_comes [CheckOpen 1]" by (simp add: nobody_comes_def)
  have new: "reachable (\<lambda>s. s = new_session) stp new_session" for stp by (rule reachable_init) simp
  have r: "reachable (\<lambda>s. s = new_session) session_step s" "reachable (\<lambda>s. s = new_session) solo_step s"
    using new step solo by (blast intro: reachable_step)+
  from session_runs_down [OF r(1) t ok] r(2) obtain more u where "gate_run more t = Some u" "drained u" by metis
  with s t show ?thesis by fastforce
qed

end
