(* ===== verification/Messages.thy ===== *)
theory Messages
  imports Prelude
begin

text \<open>
  pkg/session/rpc.pb.go: the messages between a client and the session gate, the stubs through which they are sent and received, and the
  variables that the generated code initializes. The runtime of protobuf and gRPC are arguments. The descriptor of the
  messages is in Descriptor.
\<close>

section \<open>Messages\<close>

text \<open>A pointer to a message that may be nil is an option.\<close>

record App =
  am_Name :: string
  am_Namespace :: string

record TerminalSize =
  ts_Width :: "32 word"
  ts_Height :: "32 word"

record StdIn =
  in_App :: "App option"
  in_Input :: "string list"
  in_TerminalSize :: "TerminalSize option"

record StdOut =
  so_Output :: string
  so_Raw :: bool

text \<open>Empty messages, as \<open>new\<close> makes them.\<close>

definition zero_App :: App where
  "zero_App = \<lparr>am_Name = [], am_Namespace = []\<rparr>"

definition zero_TerminalSize :: TerminalSize where
  "zero_TerminalSize = \<lparr>ts_Width = 0, ts_Height = 0\<rparr>"

definition zero_StdIn :: StdIn where
  "zero_StdIn = \<lparr>in_App = None, in_Input = [], in_TerminalSize = None\<rparr>"

definition zero_StdOut :: StdOut where
  "zero_StdOut = \<lparr>so_Output = [], so_Raw = False\<rparr>"

text \<open>The getters: a nil message has the fields of an empty one.\<close>

definition App_GetName :: "App option \<Rightarrow> string" where
  "App_GetName x = (case x of Some a \<Rightarrow> am_Name a | None \<Rightarrow> [])"

definition App_GetNamespace :: "App option \<Rightarrow> string" where
  "App_GetNamespace x = (case x of Some a \<Rightarrow> am_Namespace a | None \<Rightarrow> [])"

definition TerminalSize_GetWidth :: "TerminalSize option \<Rightarrow> 32 word" where
  "TerminalSize_GetWidth x = (case x of Some ts \<Rightarrow> ts_Width ts | None \<Rightarrow> 0)"

definition TerminalSize_GetHeight :: "TerminalSize option \<Rightarrow> 32 word" where
  "TerminalSize_GetHeight x = (case x of Some ts \<Rightarrow> ts_Height ts | None \<Rightarrow> 0)"

definition StdIn_GetApp :: "StdIn option \<Rightarrow> App option" where
  "StdIn_GetApp x = (case x of Some m \<Rightarrow> in_App m | None \<Rightarrow> None)"

definition StdIn_GetInput :: "StdIn option \<Rightarrow> string list" where
  "StdIn_GetInput x = (case x of Some m \<Rightarrow> in_Input m | None \<Rightarrow> [])"

definition StdIn_GetTerminalSize :: "StdIn option \<Rightarrow> TerminalSize option" where
  "StdIn_GetTerminalSize x = (case x of Some m \<Rightarrow> in_TerminalSize m | None \<Rightarrow> None)"

definition StdOut_GetOutput :: "StdOut option \<Rightarrow> string" where
  "StdOut_GetOutput x = (case x of Some m \<Rightarrow> so_Output m | None \<Rightarrow> [])"

definition StdOut_GetRaw :: "StdOut option \<Rightarrow> bool" where
  "StdOut_GetRaw x = (case x of Some m \<Rightarrow> so_Raw m | None \<Rightarrow> False)"

section \<open>Messages and their types\<close>

text \<open>
  A message has a state beside its fields, in which the runtime of protobuf keeps a pointer to the information on its type: an index into
  \<open>file_rpc_proto_msgTypes\<close>, or nil.
\<close>

record 'm message =
  msg_info :: "nat option"
  msg_fields :: 'm

text \<open>\<open>Reset\<close>; the flag is \<open>protoimpl.UnsafeEnabled\<close>.\<close>

definition App_Reset :: "bool \<Rightarrow> App message \<Rightarrow> App message" where
  "App_Reset unsafe x =
     (let x = \<lparr>msg_info = None, msg_fields = zero_App\<rparr> in if unsafe then x\<lparr>msg_info := Some 0\<rparr> else x)"

definition TerminalSize_Reset :: "bool \<Rightarrow> TerminalSize message \<Rightarrow> TerminalSize message" where
  "TerminalSize_Reset unsafe x =
     (let x = \<lparr>msg_info = None, msg_fields = zero_TerminalSize\<rparr> in if unsafe then x\<lparr>msg_info := Some 1\<rparr> else x)"

definition StdIn_Reset :: "bool \<Rightarrow> StdIn message \<Rightarrow> StdIn message" where
  "StdIn_Reset unsafe x =
     (let x = \<lparr>msg_info = None, msg_fields = zero_StdIn\<rparr> in if unsafe then x\<lparr>msg_info := Some 2\<rparr> else x)"

definition StdOut_Reset :: "bool \<Rightarrow> StdOut message \<Rightarrow> StdOut message" where
  "StdOut_Reset unsafe x =
     (let x = \<lparr>msg_info = None, msg_fields = zero_StdOut\<rparr> in if unsafe then x\<lparr>msg_info := Some 3\<rparr> else x)"

text \<open>
  \<open>ProtoReflect\<close> of a message that may be nil: the state of the message itself, with its type information stored, or what the type
  information makes of the message. The second result is the message afterwards.
\<close>

datatype 'm reflection = StateOf "'m message" | MessageOf nat "'m message option"

definition ProtoReflect :: "nat \<Rightarrow> bool \<Rightarrow> 'm message option \<Rightarrow> 'm reflection \<times> 'm message option" where
  "ProtoReflect mi unsafe x =
     (case x of
        Some m \<Rightarrow>
          if unsafe then
            (let m = (if msg_info m = None then m\<lparr>msg_info := Some mi\<rparr> else m) in (StateOf m, Some m))
          else (MessageOf mi x, x)
      | None \<Rightarrow> (MessageOf mi x, x))"

definition App_ProtoReflect :: "bool \<Rightarrow> App message option \<Rightarrow> App reflection \<times> App message option" where
  "App_ProtoReflect = ProtoReflect 0"

definition TerminalSize_ProtoReflect :: "bool \<Rightarrow> TerminalSize message option \<Rightarrow> TerminalSize reflection \<times> TerminalSize message option" where
  "TerminalSize_ProtoReflect = ProtoReflect 1"

definition StdIn_ProtoReflect :: "bool \<Rightarrow> StdIn message option \<Rightarrow> StdIn reflection \<times> StdIn message option" where
  "StdIn_ProtoReflect = ProtoReflect 2"

definition StdOut_ProtoReflect :: "bool \<Rightarrow> StdOut message option \<Rightarrow> StdOut reflection \<times> StdOut message option" where
  "StdOut_ProtoReflect = ProtoReflect 3"

definition reflected_type :: "'m reflection \<Rightarrow> nat option" where
  "reflected_type r = (case r of StateOf m \<Rightarrow> msg_info m | MessageOf mi x \<Rightarrow> Some mi)"

text \<open>The \<open>Exporter\<close> of each type, without \<open>unsafe\<close>: the internal field of the given number.\<close>

datatype internal_field = StateField | SizeCacheField | UnknownFieldsField

definition message_Exporter :: "int \<Rightarrow> internal_field option" where
  "message_Exporter i =
     (if i = 0 then Some StateField else if i = 1 then Some SizeCacheField else if i = 2 then Some UnknownFieldsField else None)"

text \<open>
  A message that was made or reset reflects as its own type, nil and with or without \<open>unsafe\<close>, and reflection changes no field.
\<close>

lemma ProtoReflect_own_type:
  assumes "\<And>m. x = Some m \<Longrightarrow> msg_info m \<in> {None, Some mi}"
  shows "reflected_type (fst (ProtoReflect mi unsafe x)) = Some mi
    \<and> map_option msg_fields (snd (ProtoReflect mi unsafe x)) = map_option msg_fields x
    \<and> (\<forall>m. snd (ProtoReflect mi unsafe x) = Some m \<longrightarrow> msg_info m \<in> {None, Some mi})"
  using assms by (cases x) (auto simp: ProtoReflect_def reflected_type_def Let_def)

lemma Reset_own_type:
  "reflected_type (fst (App_ProtoReflect unsafe (Some (App_Reset unsafe a)))) = Some 0"
  "reflected_type (fst (TerminalSize_ProtoReflect unsafe (Some (TerminalSize_Reset unsafe t)))) = Some 1"
  "reflected_type (fst (StdIn_ProtoReflect unsafe (Some (StdIn_Reset unsafe i)))) = Some 2"
  "reflected_type (fst (StdOut_ProtoReflect unsafe (Some (StdOut_Reset unsafe r)))) = Some 3"
  unfolding App_ProtoReflect_def TerminalSize_ProtoReflect_def StdIn_ProtoReflect_def StdOut_ProtoReflect_def
  by (rule ProtoReflect_own_type [THEN conjunct1],
      simp add: App_Reset_def TerminalSize_Reset_def StdIn_Reset_def StdOut_Reset_def Let_def split: if_splits)+

section \<open>Stubs\<close>

text \<open>
  \<open>_AppGate_serviceDesc\<close>: the name of the service, its streams with whether the server and the client stream, and the file. The type of
  its handler is an interface of the program.
\<close>

record stream_desc =
  sd_StreamName :: string
  sd_ServerStreams :: bool
  sd_ClientStreams :: bool

record service_desc =
  svd_ServiceName :: string
  svd_Streams :: "stream_desc list"
  svd_Metadata :: string

definition AppGate_serviceDesc :: service_desc where
  "AppGate_serviceDesc =
     \<lparr>svd_ServiceName = ''session.AppGate'',
      svd_Streams = [\<lparr>sd_StreamName = ''OpenShell'', sd_ServerStreams = True, sd_ClientStreams = True\<rparr>],
      svd_Metadata = ''rpc.proto''\<rparr>"

text \<open>The client's \<open>OpenShell\<close>; \<open>newStream\<close> is \<open>cc.NewStream\<close>.\<close>

definition AppGateClient_OpenShell :: "(stream_desc \<Rightarrow> string \<Rightarrow> goerror + 's) \<Rightarrow> goerror + 's" where
  "AppGateClient_OpenShell newStream =
     (case newStream (svd_Streams AppGate_serviceDesc ! 0) ''/session.AppGate/OpenShell'' of
        Inl err \<Rightarrow> Inl err
      | Inr stream \<Rightarrow> Inr stream)"

text \<open>Sending hands the message to the stream; receiving lets the stream fill a new message.\<close>

definition client_Send :: "(StdIn \<Rightarrow> goerror option) \<Rightarrow> StdIn \<Rightarrow> goerror option" where
  "client_Send SendMsg m = SendMsg m"

definition client_Recv :: "(StdOut \<Rightarrow> goerror + StdOut) \<Rightarrow> goerror + StdOut" where
  "client_Recv RecvMsg = (case RecvMsg zero_StdOut of Inl err \<Rightarrow> Inl err | Inr m \<Rightarrow> Inr m)"

definition server_Send :: "(StdOut \<Rightarrow> goerror option) \<Rightarrow> StdOut \<Rightarrow> goerror option" where
  "server_Send SendMsg m = SendMsg m"

definition server_Recv :: "(StdIn \<Rightarrow> goerror + StdIn) \<Rightarrow> goerror + StdIn" where
  "server_Recv RecvMsg = (case RecvMsg zero_StdIn of Inl err \<Rightarrow> Inl err | Inr m \<Rightarrow> Inr m)"

text \<open>The server's side: the handler calls the method of the registered server with the stream; a server that has no method answers an error.\<close>

definition RegisterAppGateServer :: "(service_desc \<Rightarrow> 'srv \<Rightarrow> 'server \<Rightarrow> 'server) \<Rightarrow> 'server \<Rightarrow> 'srv \<Rightarrow> 'server" where
  "RegisterAppGateServer registerService s srv = registerService AppGate_serviceDesc srv s"

definition AppGate_OpenShell_Handler :: "('stream \<Rightarrow> 'r) \<Rightarrow> 'stream \<Rightarrow> 'r" where
  "AppGate_OpenShell_Handler srv_OpenShell stream = srv_OpenShell stream"

definition Unimplemented_OpenShell :: "'stream \<Rightarrow> string \<times> string" where
  "Unimplemented_OpenShell stream = (''Unimplemented'', ''method OpenShell not implemented'')"

section \<open>The variables of the file\<close>

text \<open>\<open>file_rpc_proto_rawDesc\<close>: the descriptor of the file, in bytes.\<close>

definition rawDesc :: "nat list" where
  "rawDesc = [10, 9, 114, 112, 99, 46, 112, 114, 111, 116, 111, 18, 7, 115, 101, 115, 115, 105, 111, 110, 34, 55, 10, 3,
    65, 112, 112, 18, 18, 10, 4, 110, 97, 109, 101, 24, 1, 32, 1, 40, 9, 82, 4, 110, 97, 109, 101, 18,
    28, 10, 9, 110, 97, 109, 101, 115, 112, 97, 99, 101, 24, 2, 32, 1, 40, 9, 82, 9, 110, 97, 109, 101,
    115, 112, 97, 99, 101, 34, 60, 10, 12, 84, 101, 114, 109, 105, 110, 97, 108, 83, 105, 122, 101, 18, 20, 10,
    5, 87, 105, 100, 116, 104, 24, 1, 32, 1, 40, 13, 82, 5, 87, 105, 100, 116, 104, 18, 22, 10, 6, 72,
    101, 105, 103, 104, 116, 24, 2, 32, 1, 40, 13, 82, 6, 72, 101, 105, 103, 104, 116, 34, 120, 10, 5, 83,
    116, 100, 73, 110, 18, 30, 10, 3, 65, 112, 112, 24, 1, 32, 1, 40, 11, 50, 12, 46, 115, 101, 115, 115,
    105, 111, 110, 46, 65, 112, 112, 82, 3, 65, 112, 112, 18, 20, 10, 5, 73, 110, 112, 117, 116, 24, 2, 32,
    3, 40, 9, 82, 5, 73, 110, 112, 117, 116, 18, 57, 10, 12, 84, 101, 114, 109, 105, 110, 97, 108, 83, 105,
    122, 101, 24, 3, 32, 1, 40, 11, 50, 21, 46, 115, 101, 115, 115, 105, 111, 110, 46, 84, 101, 114, 109, 105,
    110, 97, 108, 83, 105, 122, 101, 82, 12, 84, 101, 114, 109, 105, 110, 97, 108, 83, 105, 122, 101, 34, 50, 10,
    6, 83, 116, 100, 79, 117, 116, 18, 22, 10, 6, 79, 117, 116, 112, 117, 116, 24, 1, 32, 1, 40, 12, 82,
    6, 79, 117, 116, 112, 117, 116, 18, 16, 10, 3, 82, 97, 119, 24, 2, 32, 1, 40, 8, 82, 3, 82, 97,
    119, 50, 61, 10, 7, 65, 112, 112, 71, 97, 116, 101, 18, 50, 10, 9, 79, 112, 101, 110, 83, 104, 101, 108,
    108, 18, 14, 46, 115, 101, 115, 115, 105, 111, 110, 46, 83, 116, 100, 73, 110, 26, 15, 46, 115, 101, 115, 115,
    105, 111, 110, 46, 83, 116, 100, 79, 117, 116, 34, 0, 40, 1, 48, 1, 98, 6, 112, 114, 111, 116, 111, 51]"

text \<open>The Go types of the messages, and the indices into them of the types that the descriptor refers to.\<close>

definition goTypes :: "string list" where
  "goTypes = [''session.App'', ''session.TerminalSize'', ''session.StdIn'', ''session.StdOut'']"

definition depIdxs :: "nat list" where
  "depIdxs = [0, 1, 2, 3, 3, 2, 2, 2, 0]"

text \<open>
  The variables. \<open>pv_File\<close> is \<open>File_rpc_proto\<close>, what the type builder makes; \<open>pv_rawDescData\<close> is the descriptor until it is
  asked for, and then its compression. Of the type information, \<open>pv_Exporters\<close> keeps what this file sets.
\<close>

record 'f proto_vars =
  pv_File :: "'f option"
  pv_rawDesc :: "nat list option"
  pv_rawDescData :: "nat list"
  pv_onceDone :: bool
  pv_Exporters :: "(int \<Rightarrow> internal_field option) option list"
  pv_goTypes :: "string list option"
  pv_depIdxs :: "nat list option"

definition initial_vars :: "'f proto_vars" where
  "initial_vars = \<lparr>pv_File = None, pv_rawDesc = Some rawDesc, pv_rawDescData = rawDesc, pv_onceDone = False,
     pv_Exporters = replicate 4 None, pv_goTypes = Some goTypes, pv_depIdxs = Some depIdxs\<rparr>"

text \<open>What the type builder is given: the descriptor, the numbers of its parts, the types, the indices and the type information.\<close>

record type_builder =
  tb_RawDescriptor :: "nat list option"
  tb_NumEnums :: nat
  tb_NumMessages :: nat
  tb_NumExtensions :: nat
  tb_NumServices :: nat
  tb_GoTypes :: "string list option"
  tb_DependencyIndexes :: "nat list option"
  tb_MessageInfos :: "(int \<Rightarrow> internal_field option) option list"

definition file_rpc_proto_init :: "bool \<Rightarrow> (type_builder \<Rightarrow> 'f) \<Rightarrow> 'f proto_vars \<Rightarrow> 'f proto_vars" where
  "file_rpc_proto_init unsafe build v =
     (if pv_File v \<noteq> None then v
      else
        let v = (if unsafe then v
                 else v\<lparr>pv_Exporters := (pv_Exporters v)[0 := Some message_Exporter, 1 := Some message_Exporter,
                        2 := Some message_Exporter, 3 := Some message_Exporter]\<rparr>)
        in v\<lparr>pv_File := Some (build \<lparr>tb_RawDescriptor = pv_rawDesc v, tb_NumEnums = 0, tb_NumMessages = 4,
               tb_NumExtensions = 0, tb_NumServices = 1, tb_GoTypes = pv_goTypes v, tb_DependencyIndexes = pv_depIdxs v,
               tb_MessageInfos = pv_Exporters v\<rparr>),
             pv_rawDesc := None, pv_goTypes := None, pv_depIdxs := None\<rparr>)"

definition file_rpc_proto_rawDescGZIP :: "(nat list \<Rightarrow> nat list) \<Rightarrow> 'f proto_vars \<Rightarrow> nat list \<times> 'f proto_vars" where
  "file_rpc_proto_rawDescGZIP compress v =
     (let v = (if pv_onceDone v then v
               else v\<lparr>pv_rawDescData := compress (pv_rawDescData v), pv_onceDone := True\<rparr>)
      in (pv_rawDescData v, v))"

text \<open>\<open>Descriptor\<close> of the four messages: the compressed descriptor, with the index of the message.\<close>

definition message_Descriptor :: "nat \<Rightarrow> (nat list \<Rightarrow> nat list) \<Rightarrow> 'f proto_vars \<Rightarrow> (nat list \<times> nat list) \<times> 'f proto_vars" where
  "message_Descriptor i compress v = (case file_rpc_proto_rawDescGZIP compress v of (d, v) \<Rightarrow> ((d, [i]), v))"

definition App_Descriptor :: "(nat list \<Rightarrow> nat list) \<Rightarrow> 'f proto_vars \<Rightarrow> (nat list \<times> nat list) \<times> 'f proto_vars" where
  "App_Descriptor = message_Descriptor 0"

definition TerminalSize_Descriptor :: "(nat list \<Rightarrow> nat list) \<Rightarrow> 'f proto_vars \<Rightarrow> (nat list \<times> nat list) \<times> 'f proto_vars" where
  "TerminalSize_Descriptor = message_Descriptor 1"

definition StdIn_Descriptor :: "(nat list \<Rightarrow> nat list) \<Rightarrow> 'f proto_vars \<Rightarrow> (nat list \<times> nat list) \<times> 'f proto_vars" where
  "StdIn_Descriptor = message_Descriptor 2"

definition StdOut_Descriptor :: "(nat list \<Rightarrow> nat list) \<Rightarrow> 'f proto_vars \<Rightarrow> (nat list \<times> nat list) \<times> 'f proto_vars" where
  "StdOut_Descriptor = message_Descriptor 3"

lemma init_once [simp]: "file_rpc_proto_init unsafe build (file_rpc_proto_init unsafe build v) = file_rpc_proto_init unsafe build v"
  by (simp add: file_rpc_proto_init_def Let_def)

text \<open>The descriptor is compressed once, however often and before or after the initialization it is asked for.\<close>

lemma descriptor_compressed_once:
  "fst (file_rpc_proto_rawDescGZIP compress
     (((\<lambda>v. snd (file_rpc_proto_rawDescGZIP compress v)) ^^ n) (file_rpc_proto_init unsafe build initial_vars))) = compress rawDesc"
proof -
  let ?get = "\<lambda>v. snd (file_rpc_proto_rawDescGZIP compress v)"
  let ?v = "file_rpc_proto_init unsafe build initial_vars"
  have "pv_onceDone ((?get ^^ n) ?v) \<and> pv_rawDescData ((?get ^^ n) ?v) = compress rawDesc
      \<or> \<not> pv_onceDone ((?get ^^ n) ?v) \<and> pv_rawDescData ((?get ^^ n) ?v) = rawDesc"
    by (induction n) (auto simp: file_rpc_proto_rawDescGZIP_def file_rpc_proto_init_def initial_vars_def Let_def)
  then show ?thesis by (auto simp: file_rpc_proto_rawDescGZIP_def Let_def)
qed

end
