(* ===== verification/Gate.thy ===== *)
theory Gate
  imports SessionProps Messages
begin

text \<open>
  pkg/gate/gate.go and pkg/gate/io.go: the gRPC handler \<open>OpenShell\<close>, with the registry of sessions and the command that
  it runs in the app's pod, and the streams between the client and that command. The session is opened and closed in the context of the stream; what
  its cancellation does to the requests made in it is part of the answers \<open>sh_open\<close> and \<open>sh_close\<close>.
\<close>

section \<open>Sizes\<close>

text \<open>\<open>remotecommand.TerminalSize\<close>.\<close>

record WindowSize =
  ws_Width :: "16 word"
  ws_Height :: "16 word"

definition window_size :: "TerminalSize \<Rightarrow> WindowSize" where
  "window_size ts = \<lparr>ws_Width = ucast (ts_Width ts), ws_Height = ucast (ts_Height ts)\<rparr>"

section \<open>clientReader\<close>

text \<open>
  \<open>loop\<close>: one entry for each iteration, whether the reader was closed when it began and, if not, what \<open>Recv\<close>
  answered. The result is what the loop put on the stdin channel, the sizes whose sending it spawned, and whether it returned.
\<close>

fun reader_loop :: "(bool \<times> (goerror + StdIn)) list \<Rightarrow> string list \<times> WindowSize list \<times> bool" where
  "reader_loop [] = ([], [], False)"
| "reader_loop ((closed, recv) # its) =
     (if closed then ([], [], True)
      else case recv of
        Inl err \<Rightarrow> ([], [], True)
      | Inr req \<Rightarrow>
          (let sizes = (case in_TerminalSize req of None \<Rightarrow> [] | Some ts \<Rightarrow> [window_size ts])
           in if length (in_Input req) > 0 then
                (if length (in_Input req) \<noteq> 1 then ([], sizes, True)
                 else case reader_loop its of (stdin, sizes', ended) \<Rightarrow>
                   (in_Input req ! 0 # stdin, sizes @ sizes', ended))
              else case reader_loop its of (stdin, sizes', ended) \<Rightarrow> (stdin, sizes @ sizes', ended)))"

text \<open>
  \<open>Read\<close> with a buffer of the given length, when the channel yields the chunk, or is closed (\<open>None\<close>): the bytes copied, or
  the error. \<open>Next\<close> likewise yields a size, or nil.
\<close>

datatype read_result = Copied string | ReadEOF | ErrShortBuffer

definition reader_Read :: "nat \<Rightarrow> string option \<Rightarrow> read_result" where
  "reader_Read len_p chunk =
     (case chunk of
        None \<Rightarrow> ReadEOF
      | Some s \<Rightarrow> if len_p < length s then ErrShortBuffer else Copied s)"

definition reader_Next :: "bool \<Rightarrow> WindowSize option \<Rightarrow> WindowSize option" where
  "reader_Next closed sizeCh = (if closed then None else sizeCh)"

text \<open>\<open>stdoutWriter.Write\<close>; \<open>send\<close> is \<open>Send\<close> of the stream.\<close>

definition stdout_Write :: "(StdOut \<Rightarrow> goerror option) \<Rightarrow> string \<Rightarrow> nat \<times> goerror option" where
  "stdout_Write send p = (case send \<lparr>so_Output = p, so_Raw = True\<rparr> of Some e \<Rightarrow> (0, Some e) | None \<Rightarrow> (length p, None))"

text \<open>
  \<open>progressWriter.WriteLn\<close> of session.go: the message it sends, whose error is dropped. \<open>paint\<close> is the colour's \<open>Sprintf\<close> of the format
  two marks, \<open>%s\<close> and a newline; a mark is the character U+276F in UTF-8.
\<close>

definition progress_message :: "(string \<Rightarrow> string) \<Rightarrow> string \<Rightarrow> StdOut" where
  "progress_message paint a =
     (let mark = map char_of [226 :: nat, 157, 175]
      in \<lparr>so_Output = paint (mark @ mark @ '' '' @ a @ [char_of (10 :: nat)]), so_Raw = False\<rparr>)"

text \<open>\<open>genClientIOStreams\<close>: the size of the first request is on the channel before the loop begins.\<close>

definition genClientIOStreams ::
  "TerminalSize option \<Rightarrow> (bool \<times> (goerror + StdIn)) list \<Rightarrow> string list \<times> WindowSize list \<times> bool" where
  "genClientIOStreams initSize its =
     (case reader_loop its of (stdin, sizes, ended) \<Rightarrow>
        (stdin, (case initSize of None \<Rightarrow> [] | Some ts \<Rightarrow> [window_size ts]) @ sizes, ended))"

section \<open>attach\<close>

text \<open>The \<open>PodExecOptions\<close> with the pod that they are sent to.\<close>

record ExecRequest =
  ex_Namespace :: string
  ex_Pod :: string
  ex_Container :: string
  ex_Command :: "string list"
  ex_Stdin :: bool
  ex_Stdout :: bool
  ex_Stderr :: bool
  ex_TTY :: bool

definition exec_request :: "CliApp \<Rightarrow> string list \<Rightarrow> ExecRequest" where
  "exec_request app cmd =
     \<lparr>ex_Namespace = app_Namespace app, ex_Pod = PodName app, ex_Container = ''workspace'',
      ex_Command = (if length (spec_Command (app_Spec app)) > 0
        then [''chroot'', ''/app-root''] @ spec_Command (app_Spec app) @ cmd else cmd),
      ex_Stdin = True, ex_Stdout = True, ex_Stderr = False, ex_TTY = True\<rparr>"

section \<open>OpenShell\<close>

datatype grpc_code = Unavailable | InvalidArgument | Aborted

type_synonym grpc_status = "(grpc_code \<times> string) option"

datatype gate_action =
    OpenSession nat "string \<times> string"
  | OpenStreams "TerminalSize option"
  | Stream ExecRequest
  | CloseStdin
  | CloseSession nat "string \<times> string"

text \<open>The registry of the sessions, by their address, and what the handler did.\<close>

record terminalGate =
  tg_sessionMap :: "string \<times> string \<rightharpoonup> nat"
  tg_next :: nat
  tg_actions :: "gate_action list"

definition act_out :: "gate_action \<Rightarrow> 'a outcome \<Rightarrow> (terminalGate, 'a) go" where
  "act_out a out = (\<lambda>g. (out, g\<lparr>tg_actions := tg_actions g @ [a]\<rparr>))"

definition act :: "gate_action \<Rightarrow> 'a \<Rightarrow> (terminalGate, 'a) go" where
  "act a answer = act_out a (Done answer)"

text \<open>The region under \<open>sessionGuard\<close>.\<close>

definition session_of :: "string \<times> string \<Rightarrow> (terminalGate, nat) go" where
  "session_of key =
     (\<lambda>g. case tg_sessionMap g key of
            Some i \<Rightarrow> (Done i, g)
          | None \<Rightarrow> (Done (tg_next g), g\<lparr>tg_sessionMap := (tg_sessionMap g)(key \<mapsto> tg_next g),
                                    tg_next := Suc (tg_next g)\<rparr>))"

text \<open>A deferred call runs however the code ends.\<close>

definition deferred :: "('s, unit) go \<Rightarrow> ('s, 'a) go \<Rightarrow> ('s, 'a) go" where
  "deferred d m = (\<lambda>s. case m s of (out, s') \<Rightarrow>
     (case d s' of (Done u, s'') \<Rightarrow> (out, s'') | (Panic p, s'') \<Rightarrow> (Panic p, s'')))"

text \<open>
  What the handler gets from elsewhere: the first request, the result of the session's \<open>open\<close>, which may panic,
  that of \<open>close\<close>, and those of \<open>NewSPDYExecutor\<close> and \<open>Stream\<close>.
\<close>

record shell_env =
  sh_recv :: "goerror + StdIn"
  sh_open :: "(goerror option \<times> CliApp option) outcome"
  sh_close :: "goerror option"
  sh_executor :: "goerror option"
  sh_stream :: "goerror option"

definition attach :: "shell_env \<Rightarrow> CliApp option \<Rightarrow> string list \<Rightarrow> (terminalGate, goerror option) go" where
  "attach se app cmd =
     (case app of
        None \<Rightarrow> throw ''nil pointer dereference''
      | Some app \<Rightarrow>
          (case sh_executor se of
             Some err \<Rightarrow> ret (Some err)
           | None \<Rightarrow> act (Stream (exec_request app cmd)) (sh_stream se)))"

definition exit_status :: "goerror option \<Rightarrow> grpc_status" where
  "exit_status err =
     (case err of
        None \<Rightarrow> None
      | Some (CodeExitError code text) \<Rightarrow> Some (Aborted, show_int code)
      | Some e \<Rightarrow> Some (Unavailable, ErrorText e))"

text \<open>A first request without an \<open>App\<close> makes \<open>req.App.Name\<close> a nil dereference.\<close>

definition OpenShell :: "shell_env \<Rightarrow> (terminalGate, grpc_status) go" where
  "OpenShell se =
     (case sh_recv se of
        Inl err \<Rightarrow> ret (Some (Unavailable, ErrorText err))
      | Inr req \<Rightarrow>
     (case in_App req of
        None \<Rightarrow> throw ''nil pointer dereference''
      | Some app \<Rightarrow>
          if am_Name app = [] then
            ret (Some (InvalidArgument, ''App.Name is required in the first request.''))
          else if am_Namespace app = [] then
            ret (Some (InvalidArgument, ''App.Namespace is required in the first request.''))
          else
            let key = (am_Namespace app, am_Name app) in
            bnd (session_of key) (\<lambda>i.
            deferred (bnd (act (CloseSession i key) (sh_close se)) (\<lambda>_. ret ()))
              (bnd (act_out (OpenSession i key) (sh_open se)) (\<lambda>(err, app).
               case err of
                 Some e \<Rightarrow> ret (Some (Unavailable, ErrorText e))
               | None \<Rightarrow>
                   bnd (act (OpenStreams (in_TerminalSize req)) ()) (\<lambda>_.
                   deferred (act CloseStdin ())
                     (bnd (attach se app (in_Input req)) (\<lambda>err. ret (exit_status err)))))))))"

section \<open>Properties\<close>

text \<open>
  C32. The handler of a shell. A request with an app's name and namespace: the handler opens the session that the registry holds for the
  app, or a new one that it keeps there. Only when the session was opened without error it opens the streams, closes its reader
  again, and between the two runs at most one command, in the workspace of the app's pod. It closes the session exactly once and last, whatever happened
  before, a panic included. A failure to open is an \<open>Unavailable\<close> status; the exit code of the command is the message of an
  \<open>Aborted\<close> one; the command's success is no error.
\<close>

theorem OpenShell_spec:
  assumes "sh_recv se = Inr req" and "in_App req = Some \<lparr>am_Name = name, am_Namespace = ns\<rparr>" and "ns \<noteq> []" and "name \<noteq> []"
    and "i = (case tg_sessionMap g (ns, name) of Some j \<Rightarrow> j | None \<Rightarrow> tg_next g)"
  shows "case OpenShell se g of (out, g') \<Rightarrow>
      tg_sessionMap g' = (tg_sessionMap g)((ns, name) \<mapsto> i)
    \<and> tg_actions g' = tg_actions g @ [OpenSession i (ns, name)]
        @ (case sh_open se of
             Done (None, app) \<Rightarrow>
               [OpenStreams (in_TerminalSize req)]
               @ (case app of
                    Some a \<Rightarrow> if sh_executor se = None then [Stream (exec_request a (in_Input req))] else []
                  | None \<Rightarrow> [])
               @ [CloseStdin]
           | _ \<Rightarrow> [])
        @ [CloseSession i (ns, name)]
    \<and> (case sh_open se of
         Panic p \<Rightarrow> out = Panic p
       | Done (Some e, app) \<Rightarrow> out = Done (Some (Unavailable, ErrorText e))
       | Done (None, None) \<Rightarrow> out = Panic ''nil pointer dereference''
       | Done (None, Some app) \<Rightarrow>
           (\<forall>code text. sh_executor se = None \<longrightarrow> sh_stream se = Some (CodeExitError code text) \<longrightarrow>
              out = Done (Some (Aborted, show_int code)))
         \<and> (sh_executor se = None \<longrightarrow> sh_stream se = None \<longrightarrow> out = Done None))"
proof -
  have sess: "session_of (ns, name) g = (Done i,
      g\<lparr>tg_sessionMap := (tg_sessionMap g)((ns, name) \<mapsto> i),
        tg_next := (if tg_sessionMap g (ns, name) = None then Suc (tg_next g) else tg_next g)\<rparr>)"
    using assms(5) by (cases "tg_sessionMap g (ns, name)") (simp_all add: session_of_def map_upd_triv)
  note run = OpenShell_def Let_def deferred_def act_def act_out_def bnd_def ret_def throw_def attach_def exit_status_def sess
  show ?thesis
  proof (cases "sh_open se")
    case (Panic p)
    then show ?thesis using assms(1-4) by (simp add: run)
  next
    case (Done res)
    obtain err app where "res = (err, app)" by force
    with Done show ?thesis
      using assms(1-4)
      by (cases err; cases app; cases "sh_executor se") (auto simp: run split: option.splits)
  qed
qed

definition sample_shell :: shell_env where
  "sample_shell = \<lparr>sh_recv = Inr \<lparr>in_App = Some \<lparr>am_Name = ''box'', am_Namespace = ''default''\<rparr>, in_Input = [''ls''], in_TerminalSize = None\<rparr>,
     sh_open = Done (None, Some live_app), sh_close = None, sh_executor = None,
     sh_stream = Some (CodeExitError 2 ''exit status 2'')\<rparr>"

lemma OpenShell_spec_witness:
  "fst (OpenShell sample_shell \<lparr>tg_sessionMap = Map.empty, tg_next = 0, tg_actions = []\<rparr>) =
     Done (Some (Aborted, show_int 2))"
  using OpenShell_spec [of sample_shell "\<lparr>in_App = Some \<lparr>am_Name = ''box'', am_Namespace = ''default''\<rparr>, in_Input = [''ls''], in_TerminalSize = None\<rparr>"
      "''box''" "''default''" 0 "\<lparr>tg_sessionMap = Map.empty, tg_next = 0, tg_actions = []\<rparr>"]
  by (auto simp: sample_shell_def split: prod.splits)

text \<open>A request without an \<open>App\<close> ends the handler with a panic before any session is looked up.\<close>

lemma OpenShell_no_app:
  assumes "sh_recv se = Inr req" and "in_App req = None"
  shows "OpenShell se g = (Panic ''nil pointer dereference'', g)"
  using assms by (simp add: OpenShell_def throw_def)

definition chunk_of :: "bool \<times> (goerror + StdIn) \<Rightarrow> string list" where
  "chunk_of it = (case it of (closed, Inr req) \<Rightarrow> in_Input req | _ \<Rightarrow> [])"

definition goes_on :: "bool \<times> (goerror + StdIn) \<Rightarrow> bool" where
  "goes_on it \<longleftrightarrow> \<not> fst it \<and> (\<exists>req. snd it = Inr req \<and> length (in_Input req) \<le> 1)"

text \<open>
  The chunks that the loop puts on the channel are those of the
  requests with one input, up to the first request with more, the first failed receive or the reader's close.
\<close>

lemma reader_loop_chunks: "fst (reader_loop its) = concat (map chunk_of (takeWhile goes_on its))"
proof (induction its)
  case (Cons it its)
  obtain closed recv where it: "it = (closed, recv)" by (cases it)
  show ?case
  proof (cases "goes_on (closed, recv)")
    case False
    then show ?thesis by (cases recv) (auto simp: it goes_on_def Let_def)
  next
    case True
    then obtain req where req: "recv = Inr req" "\<not> closed" "length (in_Input req) \<le> 1" by (auto simp: goes_on_def)
    show ?thesis
      using req Cons.IH True
      by (cases "in_Input req") (auto simp: it chunk_of_def Let_def split: prod.splits)
  qed
qed simp

text \<open>
  A window size is passed on as it is, if both of its numbers fit into 16 bits, and modulo 65536 otherwise.
\<close>

lemma window_size_wraps:
  "unat (ws_Width (window_size ts)) = unat (ts_Width ts) mod 65536
   \<and> unat (ws_Height (window_size ts)) = unat (ts_Height ts) mod 65536"
  by (simp add: window_size_def unsigned_ucast_eq take_bit_eq_mod)

end
