(* ===== verification/Streams.thy ===== *)
theory Streams
  imports Gate Goroutines "HOL-Library.Multiset"
begin

text \<open>
  pkg/gate/io.go as it runs: the goroutine of \<open>clientReader.loop\<close>, the goroutines that it spawns for window sizes, the command that
  reads its input (\<open>Read\<close>) and its window sizes (\<open>Next\<close>), and the handler that closes the reader, all at once.
\<close>

section \<open>State\<close>

text \<open>
  \<open>r.stdin\<close> is nil until the loop makes the channel. The channel is unbuffered: a chunk goes over when the loop sends it and a \<open>Read\<close>
  waits for it. \<open>r.sizeCh\<close> holds at most one size.
\<close>

datatype stdin_chan = NilChan | OpenChan | ClosedChan

text \<open>
  Where the loop is: before it makes the channel; at the test of \<open>r.closed\<close>; in \<open>Recv\<close>; sending a chunk; and at the three
  statements of its deferred function.
\<close>

datatype loop_place =
    MakeStdin | TestClosed | InRecv | SendStdin string | SetClosed | CloseStdinCh | CloseSizeCh | LoopOver

text \<open>
  Where the goroutine is that calls \<open>Read\<close>, with the length of its buffer, on the channel or on nil; and the one that calls \<open>Next\<close>.
\<close>

datatype read_place = NoRead | Reading nat | ReadingNil

datatype next_place = NoNext | NextWaits

text \<open>
  The state of a reader. \<open>rd_senders\<close>: the goroutines that have a size to send. The last five fields are what has happened: the
  requests received, the chunks that reads took from the channel, with the lengths of their buffers (\<open>None\<close>: the channel was closed), what the reads answered to the command (a
  chunk that is larger than the buffer is taken, but not copied), the results of \<open>Next\<close>, and the panic that ended the process.
\<close>

record reader =
  rd_closed :: bool
  rd_stdin :: stdin_chan
  rd_sizeCh :: "WindowSize list"
  rd_sizeClosed :: bool
  rd_loop :: loop_place
  rd_senders :: "WindowSize list"
  rd_read :: read_place
  rd_next :: next_place
  rd_requests :: "StdIn list"
  rd_reads :: "(nat \<times> string option) list"
  rd_results :: "read_result list"
  rd_sizes :: "WindowSize option list"
  rd_crash :: "string option"

definition size_list :: "TerminalSize option \<Rightarrow> WindowSize list" where
  "size_list ts = (case ts of None \<Rightarrow> [] | Some ws \<Rightarrow> [window_size ws])"

text \<open>\<open>genClientIOStreams\<close>: the reader when its loop was just started.\<close>

definition started_reader :: "TerminalSize option \<Rightarrow> reader" where
  "started_reader initSize =
     \<lparr>rd_closed = False, rd_stdin = NilChan, rd_sizeCh = size_list initSize, rd_sizeClosed = False,
      rd_loop = MakeStdin, rd_senders = [], rd_read = NoRead, rd_next = NoNext,
      rd_requests = [], rd_reads = [], rd_results = [], rd_sizes = [], rd_crash = None\<rparr>"

section \<open>Steps\<close>

text \<open>The loop got a request: it spawns the sender of its size and goes on with its input.\<close>

definition loop_request :: "StdIn \<Rightarrow> reader \<Rightarrow> reader" where
  "loop_request req s =
     (let s = s\<lparr>rd_requests := rd_requests s @ [req], rd_senders := rd_senders s @ size_list (in_TerminalSize req)\<rparr>
      in if length (in_Input req) > 0 then
           (if length (in_Input req) \<noteq> 1 then s\<lparr>rd_loop := SetClosed\<rparr>
            else s\<lparr>rd_loop := SendStdin (in_Input req ! 0)\<rparr>)
         else s\<lparr>rd_loop := TestClosed\<rparr>)"

text \<open>
  A statement of the loop. \<open>recv\<close> is what \<open>Recv\<close> answers. Sending a chunk is no step of the loop alone, and a loop that is over has none.
\<close>

definition loop_step :: "goerror + StdIn \<Rightarrow> reader \<Rightarrow> reader option" where
  "loop_step recv s =
     (case rd_loop s of
        MakeStdin \<Rightarrow> Some (s\<lparr>rd_stdin := OpenChan, rd_loop := TestClosed\<rparr>)
      | TestClosed \<Rightarrow> Some (s\<lparr>rd_loop := (if rd_closed s then SetClosed else InRecv)\<rparr>)
      | InRecv \<Rightarrow>
          Some (case recv of Inl err \<Rightarrow> s\<lparr>rd_loop := SetClosed\<rparr> | Inr req \<Rightarrow> loop_request req s)
      | SendStdin chunk \<Rightarrow> None
      | SetClosed \<Rightarrow> Some (s\<lparr>rd_closed := True, rd_loop := CloseStdinCh\<rparr>)
      | CloseStdinCh \<Rightarrow> Some (s\<lparr>rd_stdin := ClosedChan, rd_loop := CloseSizeCh\<rparr>)
      | CloseSizeCh \<Rightarrow> Some (s\<lparr>rd_sizeClosed := True, rd_loop := LoopOver\<rparr>)
      | LoopOver \<Rightarrow> None)"

definition remove_at :: "nat \<Rightarrow> 'a list \<Rightarrow> 'a list" where
  "remove_at i xs = take i xs @ drop (Suc i) xs"

text \<open>The goroutine of the \<open>i\<close>-th pending size sends it; a send on a closed channel panics.\<close>

definition send_size :: "nat \<Rightarrow> reader \<Rightarrow> reader option" where
  "send_size i s =
     (if i \<ge> length (rd_senders s) then None
      else if rd_sizeClosed s then Some (s\<lparr>rd_crash := Some ''send on closed channel''\<rparr>)
      else if rd_sizeCh s \<noteq> [] then None
      else Some (s\<lparr>rd_sizeCh := [rd_senders s ! i], rd_senders := remove_at i (rd_senders s)\<rparr>))"

text \<open>\<open>Read\<close> is called, and returns.\<close>

definition read_call :: "nat \<Rightarrow> reader \<Rightarrow> reader option" where
  "read_call len_p s =
     (if rd_read s = NoRead
      then Some (s\<lparr>rd_read := (if rd_stdin s = NilChan then ReadingNil else Reading len_p)\<rparr>) else None)"

definition read_return :: "reader \<Rightarrow> reader option" where
  "read_return s =
     (case rd_read s of
        Reading len_p \<Rightarrow>
          (case rd_loop s of
             SendStdin chunk \<Rightarrow>
               Some (s\<lparr>rd_reads := rd_reads s @ [(len_p, Some chunk)], rd_results := rd_results s @ [reader_Read len_p (Some chunk)],
                 rd_read := NoRead, rd_loop := TestClosed\<rparr>)
           | _ \<Rightarrow>
               if rd_stdin s = ClosedChan
               then Some (s\<lparr>rd_reads := rd_reads s @ [(len_p, None)], rd_results := rd_results s @ [reader_Read len_p None],
                 rd_read := NoRead\<rparr>) else None)
      | _ \<Rightarrow> None)"

text \<open>\<open>Next\<close> is called on a copy of the reader, so it looks at \<open>closed\<close> once; then it waits for a size.\<close>

definition next_call :: "reader \<Rightarrow> reader option" where
  "next_call s =
     (if rd_next s \<noteq> NoNext then None
      else if rd_closed s then Some (s\<lparr>rd_sizes := rd_sizes s @ [None]\<rparr>)
      else Some (s\<lparr>rd_next := NextWaits\<rparr>))"

definition next_return :: "reader \<Rightarrow> reader option" where
  "next_return s =
     (if rd_next s \<noteq> NextWaits then None
      else case rd_sizeCh s of
        ws # rest \<Rightarrow> Some (s\<lparr>rd_sizeCh := rest, rd_sizes := rd_sizes s @ [Some ws], rd_next := NoNext\<rparr>)
      | [] \<Rightarrow> if rd_sizeClosed s then Some (s\<lparr>rd_sizes := rd_sizes s @ [None], rd_next := NoNext\<rparr>) else None)"

text \<open>\<open>Close\<close>, by the handler.\<close>

definition reader_Close :: "reader \<Rightarrow> reader" where
  "reader_Close s = s\<lparr>rd_closed := True\<rparr>"

datatype reader_event =
    Loop "goerror + StdIn" | SendSizeOf nat | ReadCall nat | ReadReturn | NextCall | NextReturn | Close

definition reader_step :: "reader_event \<Rightarrow> reader \<Rightarrow> reader option" where
  "reader_step ev s =
     (if rd_crash s \<noteq> None then None
      else case ev of
        Loop recv \<Rightarrow> loop_step recv s
      | SendSizeOf i \<Rightarrow> send_size i s
      | ReadCall len_p \<Rightarrow> read_call len_p s
      | ReadReturn \<Rightarrow> read_return s
      | NextCall \<Rightarrow> next_call s
      | NextReturn \<Rightarrow> next_return s
      | Close \<Rightarrow> Some (reader_Close s))"

lemmas reader_ops =
  reader_step_def loop_step_def loop_request_def send_size_def read_call_def read_return_def next_call_def
  next_return_def reader_Close_def

section \<open>Standard input\<close>

text \<open>
  The chunks of the requests, up to the first request with more than one; those that reads were given; and the one that the loop
  is sending.
\<close>

definition one_chunk :: "StdIn \<Rightarrow> bool" where
  "one_chunk req \<longleftrightarrow> length (in_Input req) \<le> 1"

definition chunks_in :: "StdIn list \<Rightarrow> string list" where
  "chunks_in reqs = concat (map in_Input (takeWhile one_chunk reqs))"

definition chunks_out :: "(nat \<times> string option) list \<Rightarrow> string list" where
  "chunks_out rs = concat (map (\<lambda>(len_p, chunk). case chunk of Some c \<Rightarrow> [c] | None \<Rightarrow> []) rs)"

text \<open>The end of the file is read only of a closed channel and after all chunks.\<close>

definition eof_last :: "stdin_chan \<Rightarrow> (nat \<times> string option) list \<Rightarrow> bool" where
  "eof_last ch rs \<longleftrightarrow>
     (\<exists>k. map snd rs = map Some (chunks_out rs) @ replicate k None \<and> (k > 0 \<longrightarrow> ch = ClosedChan))"

fun in_flight :: "loop_place \<Rightarrow> string list" where
  "in_flight (SendStdin chunk) = [chunk]"
| "in_flight p = []"

fun deferred_part :: "loop_place \<Rightarrow> bool" where
  "deferred_part SetClosed = True"
| "deferred_part CloseStdinCh = True"
| "deferred_part CloseSizeCh = True"
| "deferred_part LoopOver = True"
| "deferred_part p = False"

definition stdin_inv :: "reader \<Rightarrow> bool" where
  "stdin_inv s \<longleftrightarrow>
     chunks_in (rd_requests s) = chunks_out (rd_reads s) @ in_flight (rd_loop s)
   \<and> (\<not> deferred_part (rd_loop s) \<longrightarrow> list_all one_chunk (rd_requests s))
   \<and> (rd_stdin s = ClosedChan \<longleftrightarrow> rd_loop s = CloseSizeCh \<or> rd_loop s = LoopOver)
   \<and> eof_last (rd_stdin s) (rd_reads s)"

lemma chunks_nil [simp]: "chunks_in [] = []" "chunks_out [] = []" "eof_last ch []"
  by (simp_all add: chunks_in_def chunks_out_def eof_last_def)

lemma chunks_in_snoc:
  "list_all one_chunk reqs \<Longrightarrow> chunks_in (reqs @ [req]) = chunks_in reqs @ (if one_chunk req then in_Input req else [])"
  by (induction reqs) (auto simp: chunks_in_def)

lemma chunks_out_snoc [simp]:
  "chunks_out (rs @ [(n, c)]) = chunks_out rs @ (case c of Some x \<Rightarrow> [x] | None \<Rightarrow> [])"
  by (simp add: chunks_out_def)

lemma eof_last_chunk: "eof_last ch rs \<Longrightarrow> ch \<noteq> ClosedChan \<Longrightarrow> eof_last ch (rs @ [(n, Some c)])"
  by (auto simp: eof_last_def)

lemma eof_last_eof: "eof_last ClosedChan rs \<Longrightarrow> eof_last ClosedChan (rs @ [(n, None)])"
proof -
  assume "eof_last ClosedChan rs"
  then obtain k where "map snd rs = map Some (chunks_out rs) @ replicate k None" by (auto simp: eof_last_def)
  then have "map snd (rs @ [(n, None)]) = map Some (chunks_out (rs @ [(n, None)])) @ replicate (Suc k) None"
    by (simp add: replicate_append_same)
  then show ?thesis unfolding eof_last_def by blast
qed

lemma eof_last_closed: "eof_last ch rs \<Longrightarrow> eof_last ClosedChan rs"
  "eof_last NilChan rs \<Longrightarrow> eof_last OpenChan rs"
  by (auto simp: eof_last_def)

lemma stdin_inv_request:
  assumes "stdin_inv s" and "rd_loop s = InRecv"
  shows "stdin_inv (loop_request req s)"
proof -
  have all: "list_all one_chunk (rd_requests s)" using assms by (simp add: stdin_inv_def)
  consider "in_Input req = []" | c where "in_Input req = [c]" | c d cs where "in_Input req = c # d # cs"
    by (metis list.exhaust)
  then show ?thesis
    by cases (use assms all chunks_in_snoc [OF all, of req] in
      \<open>auto simp: stdin_inv_def loop_request_def Let_def one_chunk_def\<close>)
qed

lemma stdin_inv_read:
  assumes "stdin_inv s" and "read_return s = Some t"
  shows "stdin_inv t"
proof -
  from assms(2) obtain n where n: "rd_read s = Reading n" by (auto simp: read_return_def split: read_place.splits)
  show ?thesis
  proof (cases "\<exists>chunk. rd_loop s = SendStdin chunk")
    case True
    then obtain chunk where chunk: "rd_loop s = SendStdin chunk" by blast
    with assms(1) have "rd_stdin s \<noteq> ClosedChan" by (simp add: stdin_inv_def)
    with assms n chunk show ?thesis by (auto simp: read_return_def stdin_inv_def eof_last_chunk)
  next
    case False
    with assms(2) n have "rd_stdin s = ClosedChan" "t = s\<lparr>rd_reads := rd_reads s @ [(n, None)],
      rd_results := rd_results s @ [reader_Read n None], rd_read := NoRead\<rparr>"
      by (auto simp: read_return_def split: loop_place.splits if_splits)
    with assms(1) show ?thesis by (auto simp: stdin_inv_def eof_last_eof)
  qed
qed

lemma stdin_inv_loop:
  assumes "stdin_inv s" and "loop_step recv s = Some t"
  shows "stdin_inv t"
proof (cases "rd_loop s")
  case InRecv
  then show ?thesis
    using assms stdin_inv_request [OF assms(1) InRecv]
    by (cases recv) (auto simp: loop_step_def stdin_inv_def)
next
  case MakeStdin
  then show ?thesis
    using assms by (cases "rd_stdin s") (auto simp: loop_step_def stdin_inv_def eof_last_closed)
qed (use assms in \<open>auto simp: loop_step_def stdin_inv_def eof_last_closed split: if_splits\<close>)

lemma stdin_inv_other:
  assumes "stdin_inv s" and "rd_requests t = rd_requests s" and "rd_reads t = rd_reads s"
    and "rd_loop t = rd_loop s" and "rd_stdin t = rd_stdin s"
  shows "stdin_inv t"
  using assms by (simp add: stdin_inv_def)

lemma stdin_inv_step:
  assumes "stdin_inv s" and "reader_step ev s = Some t"
  shows "stdin_inv t"
proof (cases ev)
  case (Loop recv)
  with assms stdin_inv_loop show ?thesis by (simp add: reader_step_def split: if_splits)
next
  case ReadReturn
  with assms stdin_inv_read show ?thesis by (simp add: reader_step_def split: if_splits)
qed (use assms in \<open>auto simp: reader_ops elim!: stdin_inv_other split: if_splits list.splits\<close>)

text \<open>The states that a reader can be in whose first request had the given size.\<close>

abbreviation reader_states :: "TerminalSize option \<Rightarrow> reader \<Rightarrow> bool" where
  "reader_states initSize \<equiv> reachable ((=) (started_reader initSize)) (event_step reader_step)"

interpretation stdin_stream: kept_invariant "(=) (started_reader initSize)" "event_step reader_step" stdin_inv
  for initSize
proof
  show "stdin_inv s" if "started_reader initSize = s" for s
    using that by (auto simp: started_reader_def stdin_inv_def)
  show "stdin_inv t" if "stdin_inv s" "event_step reader_step s t" for s t
    using that stdin_inv_step by (auto simp: event_step_def)
qed

text \<open>The command is answered what \<open>Read\<close> makes of what it took.\<close>

definition results_inv :: "reader \<Rightarrow> bool" where
  "results_inv s \<longleftrightarrow> rd_results s = map (\<lambda>(len_p, chunk). reader_Read len_p chunk) (rd_reads s)"

interpretation read_results: kept_invariant "(=) (started_reader initSize)" "event_step reader_step" results_inv
  for initSize
proof
  show "results_inv s" if "started_reader initSize = s" for s
    using that by (auto simp: started_reader_def results_inv_def)
  show "results_inv t" if "results_inv s" "event_step reader_step s t" for s t
    using that by (auto simp: event_step_def reader_ops results_inv_def Let_def
        split: if_splits list.splits read_place.splits loop_place.splits sum.splits reader_event.splits)
qed

text \<open>The chunks that the command was given, of those that its reads took.\<close>

fun copied_chunk :: "read_result \<Rightarrow> string list" where
  "copied_chunk (Copied c) = [c]"
| "copied_chunk ReadEOF = []"
| "copied_chunk ErrShortBuffer = []"

definition copied :: "read_result list \<Rightarrow> string list" where
  "copied rs = concat (map copied_chunk rs)"

lemma copied_large:
  assumes "\<forall>(len_p, chunk) \<in> set rs. n \<le> len_p" and "\<forall>c \<in> set (chunks_out rs). length c \<le> n"
  shows "copied (map (\<lambda>(len_p, chunk). reader_Read len_p chunk) rs) = chunks_out rs
    \<and> ErrShortBuffer \<notin> set (map (\<lambda>(len_p, chunk). reader_Read len_p chunk) rs)"
  using assms by (induction rs) (auto simp: copied_def chunks_out_def reader_Read_def split: option.splits)

section \<open>Window sizes\<close>

definition sizes_in :: "TerminalSize option \<Rightarrow> StdIn list \<Rightarrow> WindowSize list" where
  "sizes_in initSize reqs = size_list initSize @ concat (map (\<lambda>req. size_list (in_TerminalSize req)) reqs)"

definition sizes_out :: "WindowSize option list \<Rightarrow> WindowSize list" where
  "sizes_out rs = concat (map (\<lambda>r. case r of Some ws \<Rightarrow> [ws] | None \<Rightarrow> []) rs)"

definition sizes_inv :: "TerminalSize option \<Rightarrow> reader \<Rightarrow> bool" where
  "sizes_inv initSize s \<longleftrightarrow>
     mset (sizes_in initSize (rd_requests s)) = mset (sizes_out (rd_sizes s)) + mset (rd_sizeCh s) + mset (rd_senders s)
   \<and> (rd_sizeClosed s \<longleftrightarrow> rd_loop s = LoopOver)
   \<and> (\<forall>p. rd_crash s = Some p \<longrightarrow>
        p = ''send on closed channel'' \<and> rd_loop s = LoopOver \<and> rd_senders s \<noteq> [])"

lemma sizes_simps [simp]:
  "sizes_in initSize [] = size_list initSize"
  "sizes_in initSize (reqs @ [req]) = sizes_in initSize reqs @ size_list (in_TerminalSize req)"
  "sizes_out [] = []"
  "sizes_out (rs @ [r]) = sizes_out rs @ (case r of Some ws \<Rightarrow> [ws] | None \<Rightarrow> [])"
  by (simp_all add: sizes_in_def sizes_out_def)

lemma mset_remove_at: "i < length xs \<Longrightarrow> mset (remove_at i xs) + {#xs ! i#} = mset xs"
  using arg_cong [OF id_take_nth_drop [of i xs], of mset] by (simp add: remove_at_def)

lemma sizes_inv_request: "sizes_inv i s \<Longrightarrow> rd_loop s = InRecv \<Longrightarrow> sizes_inv i (loop_request req s)"
  by (auto simp: sizes_inv_def loop_request_def Let_def)

lemma sizes_inv_step:
  assumes "sizes_inv i s" and "reader_step ev s = Some t"
  shows "sizes_inv i t"
proof (cases ev)
  case (Loop recv)
  with assms show ?thesis
    using sizes_inv_request [OF assms(1)]
    by (cases "rd_loop s = InRecv")
      (auto simp: reader_step_def loop_step_def sizes_inv_def split: loop_place.splits sum.splits if_splits)
next
  case (SendSizeOf j)
  with assms mset_remove_at [of j "rd_senders s"] show ?thesis
    by (auto simp: reader_step_def send_size_def sizes_inv_def split: if_splits)
qed (use assms in \<open>auto simp: reader_ops sizes_inv_def split: if_splits list.splits read_place.splits loop_place.splits\<close>)

interpretation size_stream: kept_invariant "(=) (started_reader initSize)" "event_step reader_step" "sizes_inv initSize"
  for initSize
proof
  show "sizes_inv initSize s" if "started_reader initSize = s" for s
    using that by (auto simp: started_reader_def sizes_inv_def)
  show "sizes_inv initSize t" if "sizes_inv initSize s" "event_step reader_step s t" for s t
    using that sizes_inv_step by (auto simp: event_step_def)
qed

section \<open>Properties\<close>

text \<open>
  C33. What the command reads is what the client typed, however the goroutines of the stream interleave. The chunks that \<open>reader_loop\<close> makes of
  the requests received so far are those that \<open>Read\<close> was given, in order, and then at most one that the loop is still sending; so none
  is lost, repeated or overtaken. With buffers that are large enough, \<open>Read\<close> copies them, and it answers the end of the file only
  when all of them were read. Each window size is at one place: given to the command, on the channel, or with its sender.
\<close>

theorem streams_in_order:
  assumes "reader_states initSize s"
  shows "fst (reader_loop (map (\<lambda>req. (False, Inr req)) (rd_requests s))) = chunks_out (rd_reads s) @ in_flight (rd_loop s)
    \<and> ((\<forall>len_p c. (len_p, Some c) \<in> set (rd_reads s) \<longrightarrow> length c \<le> len_p) \<longrightarrow>
        (\<exists>k. map (\<lambda>(len_p, chunk). reader_Read len_p chunk) (rd_reads s)
             = map Copied (chunks_out (rd_reads s)) @ replicate k ReadEOF
           \<and> (k > 0 \<longrightarrow> in_flight (rd_loop s) = [])))
    \<and> mset (sizes_in initSize (rd_requests s))
        = mset (sizes_out (rd_sizes s)) + mset (rd_sizeCh s) + mset (rd_senders s)"
proof (intro conjI impI)
  have inv: "stdin_inv s" using assms by (rule stdin_stream.inv_reachable)
  have "one_chunk = (\<lambda>req. length (in_Input req) \<le> 1)" by (simp add: fun_eq_iff one_chunk_def)
  then have "fst (reader_loop (map (\<lambda>req. (False, Inr req)) reqs)) = chunks_in reqs" for reqs
    by (simp add: reader_loop_chunks chunks_in_def takeWhile_map chunk_of_def goes_on_def comp_def)
  then show "fst (reader_loop (map (\<lambda>req. (False, Inr req)) (rd_requests s)))
      = chunks_out (rd_reads s) @ in_flight (rd_loop s)"
    using inv by (simp add: stdin_inv_def)
  assume large: "\<forall>len_p c. (len_p, Some c) \<in> set (rd_reads s) \<longrightarrow> length c \<le> len_p"
  then have "map (\<lambda>(len_p, chunk). reader_Read len_p chunk) (rd_reads s)
      = map (\<lambda>chunk. case chunk of Some c \<Rightarrow> Copied c | None \<Rightarrow> ReadEOF) (map snd (rd_reads s))"
    by (auto simp: reader_Read_def not_less split: option.splits dest: leD)
  moreover obtain k where "map snd (rd_reads s) = map Some (chunks_out (rd_reads s)) @ replicate k None"
    "k > 0 \<longrightarrow> rd_stdin s = ClosedChan"
    using inv by (auto simp: stdin_inv_def eof_last_def)
  moreover from this inv have "k > 0 \<longrightarrow> in_flight (rd_loop s) = []" by (auto simp: stdin_inv_def)
  ultimately show "\<exists>k. map (\<lambda>(len_p, chunk). reader_Read len_p chunk) (rd_reads s)
             = map Copied (chunks_out (rd_reads s)) @ replicate k ReadEOF
           \<and> (k > 0 \<longrightarrow> in_flight (rd_loop s) = [])"
    by (intro exI [of _ k]) (simp add: comp_def)
next
  have "sizes_inv initSize s" using assms by (rule size_stream.inv_reachable)
  then show "mset (sizes_in initSize (rd_requests s))
        = mset (sizes_out (rd_sizes s)) + mset (rd_sizeCh s) + mset (rd_senders s)" by (simp add: sizes_inv_def)
qed

definition typed_request :: "string \<Rightarrow> StdIn" where
  "typed_request chunk = \<lparr>in_App = None, in_Input = [chunk], in_TerminalSize = None\<rparr>"

definition resize_request :: "32 word \<Rightarrow> StdIn" where
  "resize_request n = \<lparr>in_App = None, in_Input = [], in_TerminalSize = Some \<lparr>ts_Width = n, ts_Height = n\<rparr>\<rparr>"

text \<open>A command that reads two lines and the end of the file.\<close>

definition typing :: "reader_event list" where
  "typing = [Loop (Inl EOF), Loop (Inl EOF), ReadCall 8, Loop (Inr (typed_request ''ls'')), ReadReturn,
     Loop (Inl EOF), Loop (Inr (typed_request ''cd'')), ReadCall 8, ReadReturn, Close, Loop (Inl EOF), Loop (Inl EOF),
     ReadCall 8, Loop (Inl EOF), ReadReturn]"

lemma typing_runs: "\<exists>s. run_events reader_step typing (started_reader None) = Some s
    \<and> rd_reads s = [(8, Some ''ls''), (8, Some ''cd''), (8, None)] \<and> rd_loop s = CloseSizeCh"
  by (simp add: typing_def reader_ops started_reader_def size_list_def typed_request_def)

lemma streams_in_order_witness:
  "\<exists>s k. run_events reader_step typing (started_reader None) = Some s
     \<and> map (\<lambda>(len_p, chunk). reader_Read len_p chunk) (rd_reads s) = [Copied ''ls'', Copied ''cd''] @ replicate k ReadEOF"
proof -
  obtain s where s: "run_events reader_step typing (started_reader None) = Some s"
    "rd_reads s = [(8, Some ''ls''), (8, Some ''cd''), (8, None)]"
    using typing_runs by blast
  from streams_in_order [OF run_events_reachable [OF s(1) refl]] s(2) obtain k where
    "map (\<lambda>(len_p, chunk). reader_Read len_p chunk) (rd_reads s) = map Copied (chunks_out (rd_reads s)) @ replicate k ReadEOF"
    by auto
  with s show ?thesis by (auto simp: chunks_out_def)
qed

text \<open>
  C34. A window size that comes too late ends the gate. The only panic of a stream is that of a goroutine that sends a size on the closed
  channel. It happens if and only if the loop ends while a size has not been sent: then every run of one of these goroutines panics, and
  nothing else that may happen takes their sizes away.
\<close>

theorem late_size_panics:
  assumes "reader_states initSize s" and "rd_crash s = None"
  shows "((\<exists>ev t. reader_step ev s = Some t \<and> rd_crash t \<noteq> None) \<longleftrightarrow> rd_loop s = LoopOver \<and> rd_senders s \<noteq> [])
    \<and> (rd_loop s = LoopOver \<longrightarrow> (event_step reader_step)\<^sup>*\<^sup>* s t \<longrightarrow>
         rd_senders t = rd_senders s
       \<and> (\<forall>i < length (rd_senders s). rd_crash t = None \<longrightarrow>
            reader_step (SendSizeOf i) t = Some (t\<lparr>rd_crash := Some ''send on closed channel''\<rparr>)))"
proof -
  have inv: "sizes_inv initSize s" using assms(1) by (rule size_stream.inv_reachable)
  have crash: "rd_loop s = LoopOver \<and> rd_senders s \<noteq> []" if "reader_step ev s = Some t" "rd_crash t \<noteq> None" for ev t
  proof -
    from that assms(2) obtain i where "ev = SendSizeOf i"
      by (cases ev)
        (auto simp: reader_ops Let_def split: if_splits list.splits read_place.splits loop_place.splits sum.splits)
    with that assms(2) inv show ?thesis by (auto simp: reader_step_def send_size_def sizes_inv_def split: if_splits)
  qed
  have late: "reader_step (SendSizeOf i) s = Some (s\<lparr>rd_crash := Some ''send on closed channel''\<rparr>)"
    if "rd_loop s = LoopOver" "i < length (rd_senders s)" "rd_crash s = None" "rd_sizeClosed s" for i s
    using that by (simp add: reader_step_def send_size_def)
  have closed: "rd_loop s = LoopOver \<Longrightarrow> rd_sizeClosed s" using inv by (simp add: sizes_inv_def)
  have kept: "rd_loop t = LoopOver \<and> rd_sizeClosed t \<and> rd_senders t = rd_senders s"
    if "rd_loop s = LoopOver" "(event_step reader_step)\<^sup>*\<^sup>* s t"
    by (rule steps_keep [OF that(2)])
      (use that(1) closed in \<open>auto simp: reader_ops split: if_splits list.splits read_place.splits reader_event.splits\<close>)
  have "\<exists>ev t. reader_step ev s = Some t \<and> rd_crash t \<noteq> None" if "rd_loop s = LoopOver" "rd_senders s \<noteq> []"
    using late [OF that(1) _ assms(2) closed [OF that(1)], of 0] that(2) by fastforce
  with crash have now: "(\<exists>ev t. reader_step ev s = Some t \<and> rd_crash t \<noteq> None) \<longleftrightarrow> rd_loop s = LoopOver \<and> rd_senders s \<noteq> []"
    by blast
  show ?thesis
  proof (intro conjI impI now)
    assume t: "rd_loop s = LoopOver" "(event_step reader_step)\<^sup>*\<^sup>* s t"
    show "rd_senders t = rd_senders s" using kept [OF t] by simp
    show "\<forall>i < length (rd_senders s). rd_crash t = None \<longrightarrow>
        reader_step (SendSizeOf i) t = Some (t\<lparr>rd_crash := Some ''send on closed channel''\<rparr>)"
      using kept [OF t] late [of t] by simp
  qed
qed

text \<open>The client changes its window size twice and leaves, and the command asks for no size.\<close>

definition resizing :: "reader_event list" where
  "resizing = [Loop (Inl EOF), Loop (Inl EOF), Loop (Inr (resize_request 80)), Loop (Inl EOF),
     Loop (Inr (resize_request 90)), Loop (Inl EOF), SendSizeOf 0, Loop (Inl EOF), Loop (Inl EOF), Loop (Inl EOF), Loop (Inl EOF)]"

lemma resizing_runs: "\<exists>s. run_events reader_step resizing (started_reader None) = Some s
    \<and> rd_crash s = None \<and> rd_loop s = LoopOver \<and> rd_senders s = [\<lparr>ws_Width = 90, ws_Height = 90\<rparr>]"
  by (simp add: resizing_def reader_ops started_reader_def size_list_def resize_request_def window_size_def remove_at_def)

lemma late_size_panics_witness:
  "\<exists>s t ev. run_events reader_step resizing (started_reader None) = Some s \<and> reader_step ev s = Some t \<and> rd_crash t \<noteq> None"
proof -
  obtain s where s: "run_events reader_step resizing (started_reader None) = Some s" "rd_crash s = None"
    "rd_loop s = LoopOver" "rd_senders s \<noteq> []"
    using resizing_runs by fastforce
  from late_size_panics [OF run_events_reachable [OF s(1) refl] s(2)] s show ?thesis by blast
qed

section \<open>What may go wrong\<close>

text \<open>The senders overtake each other: the command may end up with an older size than the last one.\<close>

lemma sizes_overtake:
  "\<exists>s. run_events reader_step
      [Loop (Inl EOF), Loop (Inl EOF), Loop (Inr (resize_request 80)), Loop (Inl EOF), Loop (Inr (resize_request 90)),
       SendSizeOf 1, NextCall, NextReturn, SendSizeOf 0, NextCall, NextReturn] (started_reader None) = Some s
    \<and> rd_sizes s = [Some \<lparr>ws_Width = 90, ws_Height = 90\<rparr>, Some \<lparr>ws_Width = 80, ws_Height = 80\<rparr>]"
  by (simp add: reader_ops started_reader_def size_list_def resize_request_def window_size_def remove_at_def)

text \<open>A \<open>Read\<close> that is called before the loop made the channel never returns.\<close>

lemma early_read_blocks:
  assumes "(event_step reader_step)\<^sup>*\<^sup>* s t" and "rd_read s = ReadingNil"
  shows "rd_read t = ReadingNil \<and> rd_reads t = rd_reads s"
  by (rule steps_keep [OF assms(1)])
    (use assms(2) in \<open>auto simp: reader_ops Let_def split: if_splits list.splits reader_event.splits loop_place.splits sum.splits\<close>)

lemma early_read_happens:
  "\<exists>s. run_events reader_step [ReadCall 8] (started_reader None) = Some s \<and> rd_read s = ReadingNil"
  by (simp add: reader_ops started_reader_def)

text \<open>A loop that has a chunk to send when nobody reads any more stays where it is for ever, although the handler closed the reader.\<close>

lemma unread_chunk_blocks:
  assumes "run_events reader_step evs s = Some t" and "rd_loop s = SendStdin chunk" and "rd_read s = NoRead"
    and "\<forall>ev \<in> set evs. \<forall>len_p. ev \<noteq> ReadCall len_p"
  shows "rd_loop t = SendStdin chunk"
  using assms
proof (induction evs arbitrary: s)
  case (Cons ev evs)
  then obtain u where u: "reader_step ev s = Some u" "run_events reader_step evs u = Some t" by (auto split: option.splits)
  with Cons.prems have "rd_loop u = SendStdin chunk \<and> rd_read u = NoRead"
    by (cases ev) (auto simp: reader_ops split: if_splits list.splits)
  with Cons u show ?case by simp
qed simp

end
