(* ===== verification/LibCli.thy ===== *)
theory LibCli
  imports Gate
begin

text \<open>
  pkg/libcli/api.go: the client library. \<open>fetchServiceEndpoints\<close> lists the addresses of the session gate, \<open>ExecCliApp\<close>
  dials them in order, opens a session and copies between the terminal and the session until one of them ends.
\<close>

section \<open>fetchServiceEndpoints\<close>

record ServicePort =
  sp_Name :: string
  sp_Port :: "32 word"
  sp_NodePort :: "32 word"

record Service =
  svc_Ports :: "ServicePort list"
  svc_Ingress :: "(string \<times> string) list"     \<comment> \<open>hostname and IP\<close>
  svc_ClusterIP :: string

text \<open>The loop over the ports: the numbers of the last one of the name.\<close>

fun select_port :: "string \<Rightarrow> ServicePort list \<Rightarrow> (32 word \<times> 32 word) \<Rightarrow> 32 word \<times> 32 word" where
  "select_port port [] acc = acc"
| "select_port port (p # ps) acc =
     select_port port ps (if sp_Name p \<noteq> port then acc else (sp_Port p, sp_NodePort p))"

definition tcp_addr :: "string \<Rightarrow> 32 word \<Rightarrow> string" where
  "tcp_addr host port = ''tcp://'' @ host @ '':'' @ show_int (sint port)"

definition ingress_addrs :: "32 word \<Rightarrow> string \<times> string \<Rightarrow> string list" where
  "ingress_addrs svcPort = (\<lambda>(hostname, ip).
     (if length hostname > 0 then [tcp_addr hostname svcPort] else [])
   @ (if length ip > 0 then [tcp_addr ip svcPort] else []))"

text \<open>\<open>get\<close> and \<open>nodes\<close> answer the calls of the API; a node is the list of its addresses.\<close>

definition fetchServiceEndpoints ::
  "(string \<Rightarrow> string \<Rightarrow> goerror + Service) \<Rightarrow> goerror + string list list \<Rightarrow> string \<Rightarrow> string \<Rightarrow> string
     \<Rightarrow> goerror + string list" where
  "fetchServiceEndpoints get nodes namespace service port =
     (case get namespace service of
        Inl err \<Rightarrow> Inl (Errorf (''can't fetch endpoint from Service '' @ quoted (namespace @ ''/'' @ service) @ '': '' @
                     ErrorText err))
      | Inr svc \<Rightarrow>
          (let (svcPort, nodePort) = select_port port (svc_Ports svc) (0, 0);
               addrs = (if sint svcPort > 0 then concat (map (ingress_addrs svcPort) (svc_Ingress svc)) else [])
           in case (if sint nodePort > 0 then nodes else Inr []) of
                Inl err \<Rightarrow>
                  Inl (Errorf (''can't list node while enumerating Service NodePort: '' @ ErrorText err))
              | Inr items \<Rightarrow>
                  Inr (addrs
                    @ concat (map (\<lambda>node. map (\<lambda>addr. tcp_addr addr nodePort) (filter (\<lambda>addr. length addr > 0) node)) items)
                    @ [tcp_addr (svc_ClusterIP svc) svcPort])))"

definition FetchGateEndpoints ::
  "(string \<Rightarrow> string \<Rightarrow> goerror + Service) \<Rightarrow> goerror + string list list \<Rightarrow> goerror + string list" where
  "FetchGateEndpoints get nodes =
     fetchServiceEndpoints get nodes ''cliapp-system'' ''cliapp-session-gate'' ''session-gate''"

section \<open>Dialling\<close>

text \<open>
  The loop over the endpoints: \<open>parse\<close> is \<open>url.Parse\<close> followed by \<open>.Host\<close>, \<open>dial\<close> the answer of
  \<open>DialContext\<close> for a host. The result is the first connection, the hosts dialled, or the panic of the parser.
\<close>

fun dial_loop :: "(string \<Rightarrow> goerror + string) \<Rightarrow> (string \<Rightarrow> goerror + 'c) \<Rightarrow> string list \<Rightarrow> 'c option outcome \<times> string list" where
  "dial_loop parse dial [] = (Done None, [])"
| "dial_loop parse dial (ep # eps) =
     (case parse ep of
        Inl err \<Rightarrow> (Panic (ErrorText err), [])
      | Inr host \<Rightarrow>
          (case dial host of
             Inr cc \<Rightarrow> (Done (Some cc), [host])
           | Inl err \<Rightarrow> (case dial_loop parse dial eps of (out, hosts) \<Rightarrow> (out, host # hosts))))"

section \<open>The session\<close>

text \<open>What the receiving goroutine makes of an error of \<open>Recv\<close>: a gRPC status has a code, a message and the text of its error.\<close>

datatype recv_error = RecvEOF | RecvStatus grpc_code string string | RecvOther string

text \<open>\<open>strconv.Atoi\<close>: an optional sign and decimal digits, within the range of a 64-bit \<open>int\<close>.\<close>

definition is_digit :: "char \<Rightarrow> bool" where
  "is_digit c \<longleftrightarrow> 48 \<le> (of_char c :: nat) \<and> (of_char c :: nat) \<le> 57"

definition Atoi :: "string \<Rightarrow> int option" where
  "Atoi s =
     (let (neg, ds) = (case s of
            c # cs \<Rightarrow> if c = CHR ''-'' then (True, cs) else if c = CHR ''+'' then (False, cs) else (False, s)
          | [] \<Rightarrow> (False, s));
          v = (if neg then - int (read_nat ds) else int (read_nat ds))
      in if ds = [] \<or> \<not> list_all is_digit ds then None
         else if - 9223372036854775808 \<le> v \<and> v \<le> 9223372036854775807 then Some v else None)"

definition remote_error :: "recv_error \<Rightarrow> goerror" where
  "remote_error err =
     (let other = (\<lambda>text. Errorf (''can't read the remote response:'' @ text))
      in case err of
        RecvEOF \<Rightarrow> EOF
      | RecvStatus code msg text \<Rightarrow>
          (case (if code = Aborted then Atoi msg else None) of
             Some n \<Rightarrow> CodeExitError n text
           | None \<Rightarrow> other text)
      | RecvOther text \<Rightarrow> other text)"

text \<open>
  One round of the main loop: the channel that \<open>select\<close> picked, with what it yielded. \<open>ErrCh\<close> is an error of one of
  the goroutines; \<open>InCh\<close> and \<open>OutCh\<close> yield nothing once closed.
\<close>

datatype round =
    ErrCh goerror | Winch | CtxDoneRound | InCh "string option" | OutCh "string option"

text \<open>
  What the client does: sends to the session, puts the terminal into raw mode and back, and prints. The environment: whether
  stdin and stdout are terminals, the window size, if it can be read, the answers of \<open>Send\<close> (by the number of sends so far) and of \<open>MakeRaw\<close>.
\<close>

datatype cli_action =
    SendRequest StdIn | SendSize "TerminalSize option" | SendInput string | MakeRaw | Print string | RestoreTerminal

record cli_env =
  ce_stdinTerminal :: bool
  ce_stdoutTerminal :: bool
  ce_winsize :: "goerror + 16 word \<times> 16 word"
  ce_send :: "nat \<Rightarrow> goerror option"
  ce_makeRaw :: "goerror option"

text \<open>\<open>getSize\<close>: the size of the terminal, if \<open>term.GetWinsize\<close> gives its width and height.\<close>

definition getSize :: "goerror + 16 word \<times> 16 word \<Rightarrow> TerminalSize option" where
  "getSize winsize =
     (case winsize of
        Inl err \<Rightarrow> None
      | Inr (w, h) \<Rightarrow> Some \<lparr>ts_Width = ucast w, ts_Height = ucast h\<rparr>)"

definition ce_size :: "cli_env \<Rightarrow> TerminalSize option" where
  "ce_size ce = getSize (ce_winsize ce)"

text \<open>\<open>raw\<close>: the terminal is in raw mode; \<open>n\<close>: sends so far. \<open>None\<close> as the result: still in the loop.\<close>

fun cli_loop :: "cli_env \<Rightarrow> bool \<Rightarrow> nat \<Rightarrow> round list \<Rightarrow> cli_action list \<times> goerror option option" where
  "cli_loop ce raw n [] = ([], None)"
| "cli_loop ce raw n (ErrCh err # rs) = ([], Some (if err = EOF then None else Some err))"
| "cli_loop ce raw n (Winch # rs) =
     (if \<not> ce_stdoutTerminal ce then cli_loop ce raw n rs
      else case ce_send ce n of
        Some err \<Rightarrow> ([SendSize (ce_size ce)], Some (Some err))
      | None \<Rightarrow> (case cli_loop ce raw (Suc n) rs of (acts, r) \<Rightarrow> (SendSize (ce_size ce) # acts, r)))"
| "cli_loop ce raw n (CtxDoneRound # rs) = ([], Some None)"
| "cli_loop ce raw n (InCh None # rs) = cli_loop ce raw n rs"
| "cli_loop ce raw n (InCh (Some s) # rs) =
     (case ce_send ce n of
        Some err \<Rightarrow> ([SendInput s], Some (Some err))
      | None \<Rightarrow> (case cli_loop ce raw (Suc n) rs of (acts, r) \<Rightarrow> (SendInput s # acts, r)))"
| "cli_loop ce raw n (OutCh None # rs) = cli_loop ce raw n rs"
| "cli_loop ce raw n (OutCh (Some out) # rs) =
     (if ce_stdinTerminal ce \<and> \<not> raw then
        (case ce_makeRaw ce of
           Some err \<Rightarrow> ([MakeRaw], Some (Some (Errorf (''can't initialize terminal: '' @ ErrorText err))))
         | None \<Rightarrow> (case cli_loop ce True n rs of (acts, r) \<Rightarrow> (MakeRaw # Print out # acts, r)))
      else (case cli_loop ce raw n rs of (acts, r) \<Rightarrow> (Print out # acts, r)))"

section \<open>ExecCliApp\<close>

text \<open>
  \<open>openShell\<close> is the error of the call that opens the stream. The last deferred function puts the terminal back, if
  \<open>MakeRaw\<close> gave its former state. The rounds are those of the main loop; with \<open>None\<close> as the result it still runs.
  What its receiving goroutine prints itself, the lines of the gate, is no action of the function: ClientRun has both.
\<close>

definition ExecCliApp ::
  "cli_env \<Rightarrow> (string \<Rightarrow> goerror + string) \<Rightarrow> (string \<Rightarrow> goerror + 'c) \<Rightarrow> goerror option
     \<Rightarrow> string list \<Rightarrow> CliApp \<Rightarrow> string list \<Rightarrow> round list \<Rightarrow> cli_action list \<times> goerror option option outcome" where
  "ExecCliApp ce parse dial openShell endpoints app args rs =
     (case fst (dial_loop parse dial endpoints) of
        Panic p \<Rightarrow> ([], Panic p)
      | Done None \<Rightarrow> ([], Done (Some (Some (Errorf ''all remote endpoints are unavailable''))))
      | Done (Some cc) \<Rightarrow>
     (case openShell of
        Some err \<Rightarrow> ([], Done (Some (Some (Errorf (''unable to open app session: '' @ ErrorText err)))))
      | None \<Rightarrow>
     (let request = SendRequest \<lparr>in_App = Some \<lparr>am_Name = app_Name app, am_Namespace = app_Namespace app\<rparr>, in_Input = args,
            in_TerminalSize = (if ce_stdoutTerminal ce then ce_size ce else None)\<rparr>
      in case ce_send ce 0 of
        Some err \<Rightarrow> ([request], Done (Some (Some (Errorf (''unable to open app: '' @ ErrorText err)))))
      | None \<Rightarrow>
          (case cli_loop ce False 1 rs of (acts, r) \<Rightarrow>
             (request # acts
                @ (if r \<noteq> None \<and> MakeRaw \<in> set acts \<and> ce_makeRaw ce = None then [RestoreTerminal] else []),
              Done r)))))"

section \<open>Properties\<close>

lemma select_port_last:
  "select_port port ps acc =
     (case filter (\<lambda>p. sp_Name p = port) ps of
        [] \<Rightarrow> acc | qs \<Rightarrow> (sp_Port (last qs), sp_NodePort (last qs)))"
  by (induction ps arbitrary: acc) (auto split: list.splits)

text \<open>
  The client tries the endpoints in their order until one answers: it returns the first connection, and has dialled
  exactly the endpoints before it; it gives up only when every endpoint was dialled and refused.
\<close>

theorem dial_loop_spec:
  assumes "\<forall>ep \<in> set eps. parse ep = Inr (host ep)"
  shows "case dial_loop parse dial eps of
      (Done (Some cc), hosts) \<Rightarrow> \<exists>pre ep post. eps = pre @ ep # post \<and> dial (host ep) = Inr cc
        \<and> (\<forall>p \<in> set pre. \<exists>err. dial (host p) = Inl err) \<and> hosts = map host (pre @ [ep])
    | (Done None, hosts) \<Rightarrow> hosts = map host eps \<and> (\<forall>ep \<in> set eps. \<exists>err. dial (host ep) = Inl err)
    | (Panic p, hosts) \<Rightarrow> False"
  using assms
proof (induction eps)
  case (Cons ep eps)
  then have ep: "parse ep = Inr (host ep)" and IH: "case dial_loop parse dial eps of
      (Done (Some cc), hosts) \<Rightarrow> \<exists>pre ep post. eps = pre @ ep # post \<and> dial (host ep) = Inr cc
        \<and> (\<forall>p \<in> set pre. \<exists>err. dial (host p) = Inl err) \<and> hosts = map host (pre @ [ep])
    | (Done None, hosts) \<Rightarrow> hosts = map host eps \<and> (\<forall>ep \<in> set eps. \<exists>err. dial (host ep) = Inl err)
    | (Panic p, hosts) \<Rightarrow> False" by auto
  show ?case
  proof (cases "dial (host ep)")
    case (Inr cc)
    then show ?thesis by (simp add: ep)
  next
    case (Inl err)
    obtain out hosts where rest: "dial_loop parse dial eps = (out, hosts)" by force
    have tried: "\<exists>pre e post. ep # eps = pre @ e # post \<and> dial (host e) = Inr cc
        \<and> (\<forall>p \<in> set pre. \<exists>err. dial (host p) = Inl err) \<and> host ep # hosts = map host (pre @ [e])"
      if "\<exists>pre e post. eps = pre @ e # post \<and> dial (host e) = Inr cc
        \<and> (\<forall>p \<in> set pre. \<exists>err. dial (host p) = Inl err) \<and> hosts = map host (pre @ [e])" for cc
    proof -
      from that obtain pre e post where "eps = pre @ e # post" "dial (host e) = Inr cc"
        "\<forall>p \<in> set pre. \<exists>err. dial (host p) = Inl err" "hosts = map host (pre @ [e])" by blast
      with Inl show ?thesis by (intro exI [of _ "ep # pre"] exI [of _ e] exI [of _ post]) simp
    qed
    show ?thesis
    proof (cases out)
      case (Done res)
      with IH rest Inl tried show ?thesis by (cases res) (simp_all add: ep)
    qed (use IH rest in simp)
  qed
qed simp

lemma dial_loop_spec_witness:
  "dial_loop (\<lambda>ep. Inr ep) (\<lambda>host. if host = ''b'' then Inr host else Inl EOF) [''a'', ''b'', ''c''] =
     (Done (Some ''b''), [''a'', ''b''])"
proof -
  let ?dial = "\<lambda>host. if host = ''b'' then Inr host else Inl EOF"
  obtain out hosts where run: "dial_loop (\<lambda>ep. Inr ep) ?dial [''a'', ''b'', ''c''] = (out, hosts)" by force
  have "out = Done (Some ''b'') \<and> hosts = [''a'', ''b'']"
    using dial_loop_spec [of "[''a'', ''b'', ''c'']" "\<lambda>ep. Inr ep" "\<lambda>ep. ep" ?dial] run
    by (auto simp: Cons_eq_append_conv split: outcome.splits option.splits if_splits)
  with run show ?thesis by simp
qed

text \<open>
  The addresses of a service, whose ports are those of its last port of the given name: when they can be listed, the cluster address comes last and is always there; before it are the
  addresses of the load balancer with the service port, if the port is positive, and the addresses of all nodes with the node port, if that is
  positive. The nodes are needed only for a positive node port.
\<close>

theorem endpoints_spec:
  assumes "get namespace service = Inr svc"
    and "(svcPort, nodePort) =
       (case filter (\<lambda>p. sp_Name p = port) (svc_Ports svc) of
          [] \<Rightarrow> (0, 0) | qs \<Rightarrow> (sp_Port (last qs), sp_NodePort (last qs)))"
  shows "case fetchServiceEndpoints get nodes namespace service port of
      Inl err \<Rightarrow> sint nodePort > 0 \<and> (\<exists>e. nodes = Inl e)
    | Inr addrs \<Rightarrow> addrs \<noteq> [] \<and> last addrs = tcp_addr (svc_ClusterIP svc) svcPort
        \<and> set (butlast addrs) =
            (if sint svcPort > 0 then {tcp_addr a svcPort |a. a \<noteq> [] \<and> (\<exists>p \<in> set (svc_Ingress svc). a = fst p \<or> a = snd p)} else {})
          \<union> (if sint nodePort > 0 then {tcp_addr a nodePort |a. a \<noteq> [] \<and> (\<exists>items node. nodes = Inr items \<and> node \<in> set items \<and> a \<in> set node)} else {})"
proof -
  have ports: "select_port port (svc_Ports svc) (0, 0) = (svcPort, nodePort)"
    unfolding select_port_last assms(2) ..
  have ing: "set (concat (map (ingress_addrs svcPort) is)) =
      {tcp_addr a svcPort |a. a \<noteq> [] \<and> (\<exists>p \<in> set is. a = fst p \<or> a = snd p)}" for "is"
  proof -
    have "set (ingress_addrs svcPort p) = {tcp_addr a svcPort |a. a \<noteq> [] \<and> (a = fst p \<or> a = snd p)}" for p
      by (auto simp: ingress_addrs_def case_prod_beta)
    then show ?thesis by auto
  qed
  have nds: "set (concat (map (\<lambda>node. map (\<lambda>addr. tcp_addr addr nodePort) (filter (\<lambda>addr. length addr > 0) node)) items)) =
      {tcp_addr a nodePort |a. a \<noteq> [] \<and> (\<exists>node. node \<in> set items \<and> a \<in> set node)}" for items
    by auto
  show ?thesis
  proof (cases "sint nodePort > 0")
    case False
    then show ?thesis
      using assms(1) ing [of "svc_Ingress svc"]
      by (simp add: fetchServiceEndpoints_def ports butlast_append del: set_concat)
  next
    case True
    then show ?thesis
      using assms(1) ing [of "svc_Ingress svc"] nds
      by (cases nodes) (simp_all add: fetchServiceEndpoints_def ports butlast_append del: set_concat)
  qed
qed

lemma endpoints_spec_witness:
  "\<exists>addrs. fetchServiceEndpoints (\<lambda>ns n. Inr \<lparr>svc_Ports = [\<lparr>sp_Name = ''session-gate'', sp_Port = 8001, sp_NodePort = 0\<rparr>],
       svc_Ingress = [], svc_ClusterIP = ''10.0.0.1''\<rparr>) (Inl EOF) ''cliapp-system'' ''cliapp-session-gate'' ''session-gate'' = Inr addrs
     \<and> last addrs = tcp_addr ''10.0.0.1'' 8001"
proof -
  let ?svc = "\<lparr>svc_Ports = [\<lparr>sp_Name = ''session-gate'', sp_Port = 8001, sp_NodePort = 0\<rparr>],
       svc_Ingress = [], svc_ClusterIP = ''10.0.0.1''\<rparr> :: Service"
  have port: "(8001, 0) = (case filter (\<lambda>p. sp_Name p = ''session-gate'') (svc_Ports ?svc) of
      [] \<Rightarrow> (0, 0) | qs \<Rightarrow> (sp_Port (last qs), sp_NodePort (last qs)))" by simp
  from endpoints_spec [of "\<lambda>ns n. Inr ?svc", OF refl port, where nodes = "Inl EOF"] show ?thesis
    by (cases "fetchServiceEndpoints (\<lambda>ns n. Inr ?svc) (Inl EOF) ''cliapp-system'' ''cliapp-session-gate'' ''session-gate''")
      (fastforce split: sum.splits)+
qed

text \<open>The sizes of this client fit: the gate hands the command the size of the client's terminal.\<close>

lemma window_size_getSize:
  "getSize (Inr (w, h)) = Some ts \<Longrightarrow> window_size ts = \<lparr>ws_Width = w, ws_Height = h\<rparr>"
  by (auto simp: getSize_def window_size_def ucast_up_ucast_id is_up)

section \<open>Exit codes\<close>

lemma is_digit_show_nat: "list_all is_digit (show_nat n)"
  using show_nat_digits by (fastforce simp: list_all_iff is_digit_def of_char_digit)

lemma show_nat_sign: "show_nat n = c # cs \<Longrightarrow> c \<noteq> CHR ''-'' \<and> c \<noteq> CHR ''+''"
  using is_digit_show_nat [of n] by (auto simp: is_digit_def)

lemma Atoi_show_int:
  assumes "- 9223372036854775808 \<le> i" "i \<le> 9223372036854775807"
  shows "Atoi (show_int i) = Some i"
proof (cases "i < 0")
  case True
  then show ?thesis
    using assms is_digit_show_nat [of "nat (- i)"] by (simp add: Atoi_def show_int_def read_show_nat)
next
  case False
  obtain c cs where c: "show_nat (nat i) = c # cs" by (cases "show_nat (nat i)") auto
  with show_nat_sign [OF c] False assms is_digit_show_nat [of "nat i"] read_show_nat [of "nat i"]
  show ?thesis by (simp add: Atoi_def show_int_def)
qed

text \<open>An error that comes while the loop still runs ends it, and is the result unless it is the end of the stream.\<close>

lemma cli_loop_ErrCh:
  "snd (cli_loop ce raw n rs) = None \<Longrightarrow>
     cli_loop ce raw n (rs @ ErrCh e # rs') = (fst (cli_loop ce raw n rs), Some (if e = EOF then None else Some e))"
  by (induction ce raw n rs rule: cli_loop.induct) (auto split: if_splits option.splits prod.splits)

lemma ExecCliApp_running:
  assumes "snd (ExecCliApp ce parse dial openShell endpoints app args rs) = Done None"
  shows "openShell = None" "ce_send ce 0 = None" "\<exists>cc. fst (dial_loop parse dial endpoints) = Done (Some cc)"
    "snd (cli_loop ce False 1 rs) = None"
  using assms by (auto simp: ExecCliApp_def Let_def split: outcome.splits option.splits prod.splits)

lemma ExecCliApp_result:
  assumes "fst (dial_loop parse dial endpoints) = Done (Some cc)" and "ce_send ce 0 = None"
  shows "snd (ExecCliApp ce parse dial None endpoints app args rs) = Done (snd (cli_loop ce False 1 rs))"
  using assms by (simp add: ExecCliApp_def Let_def case_prod_beta)

text \<open>
  C37. The exit code of the command comes back. The gate returns a status for a command that exited with a code; when the client receives this
  status, at whatever point of a running session, before or after the terminal was put into raw mode and whatever was typed and printed, then
  \<open>ExecCliApp\<close> returns the error of an exit with that code; and it returns no error when the command succeeded.
\<close>

theorem exit_code_roundtrip:
  assumes "snd (ExecCliApp ce parse dial openShell endpoints app args rs) = Done None"
    and "- 9223372036854775808 \<le> code" "code \<le> 9223372036854775807"
  shows "(\<exists>grpc msg. exit_status (Some (CodeExitError code err)) = Some (grpc, msg)
      \<and> snd (ExecCliApp ce parse dial openShell endpoints app args (rs @ ErrCh (remote_error (RecvStatus grpc msg text)) # rs')) =
          Done (Some (Some (CodeExitError code text))))
    \<and> exit_status None = None
    \<and> snd (ExecCliApp ce parse dial openShell endpoints app args (rs @ ErrCh (remote_error RecvEOF) # rs')) = Done (Some None)"
proof -
  note run = ExecCliApp_running [OF assms(1)]
  obtain cc where cc: "fst (dial_loop parse dial endpoints) = Done (Some cc)" using run(3) by blast
  have result: "snd (ExecCliApp ce parse dial openShell endpoints app args (rs @ ErrCh e # rs')) = Done (Some (if e = EOF then None else Some e))" for e
    unfolding run(1) ExecCliApp_result [OF cc run(2)] cli_loop_ErrCh [OF run(4)] by simp
  show ?thesis
    using Atoi_show_int [OF assms(2,3)] by (simp add: exit_status_def result remote_error_def)
qed

definition sample_cli :: cli_env where
  "sample_cli = \<lparr>ce_stdinTerminal = True, ce_stdoutTerminal = True, ce_winsize = Inl EOF, ce_send = (\<lambda>n. None), ce_makeRaw = None\<rparr>"

lemma exit_code_roundtrip_witness:
  "\<exists>grpc msg. exit_status (Some (CodeExitError 130 ''exit status 130'')) = Some (grpc, msg)
     \<and> snd (ExecCliApp sample_cli Inr Inr None [''gate''] live_app [''ls'']
         [InCh (Some ''l''), OutCh (Some ''x''), ErrCh (remote_error (RecvStatus grpc msg ''rpc error''))]) =
       Done (Some (Some (CodeExitError 130 ''rpc error'')))"
proof -
  have "snd (ExecCliApp sample_cli Inr Inr None [''gate''] live_app [''ls''] [InCh (Some ''l''), OutCh (Some ''x'')]) = Done None"
    by (simp add: ExecCliApp_def sample_cli_def)
  from exit_code_roundtrip [OF this, of 130 "''exit status 130''" "''rpc error''" "[]"] show ?thesis by (simp del: split_paired_Ex)
qed

section \<open>The terminal\<close>

fun is_print :: "cli_action \<Rightarrow> bool" where
  "is_print (Print s) = True"
| "is_print a = False"

fun sent_input :: "cli_action \<Rightarrow> string list" where
  "sent_input (SendInput s) = [s]"
| "sent_input a = []"

fun typed :: "round \<Rightarrow> string list" where
  "typed (InCh (Some s)) = [s]"
| "typed r = []"

text \<open>Whether the terminal is in raw mode after the actions.\<close>

definition raw_step :: "cli_env \<Rightarrow> cli_action \<Rightarrow> bool \<Rightarrow> bool" where
  "raw_step ce a raw = (if a = MakeRaw then ce_makeRaw ce = None else if a = RestoreTerminal then False else raw)"

definition raw_after :: "cli_env \<Rightarrow> cli_action list \<Rightarrow> bool" where
  "raw_after ce acts = fold (raw_step ce) acts False"

lemma raw_after_snoc [simp]:
  "raw_after ce (acts @ [a]) =
     (if a = MakeRaw then ce_makeRaw ce = None else if a = RestoreTerminal then False else raw_after ce acts)"
  by (simp add: raw_after_def raw_step_def)

text \<open>Every print of the main loop finds the terminal in raw mode.\<close>

fun prints_raw :: "cli_env \<Rightarrow> bool \<Rightarrow> cli_action list \<Rightarrow> bool" where
  "prints_raw ce raw [] = True"
| "prints_raw ce raw (a # as) = ((is_print a \<longrightarrow> raw) \<and> prints_raw ce (raw_step ce a raw) as)"

lemma prints_rawD: "prints_raw ce raw (pre @ Print out # post) \<Longrightarrow> fold (raw_step ce) pre raw"
  by (induction pre arbitrary: raw) auto

lemma cli_loop_prints_raw:
  "ce_stdinTerminal ce \<Longrightarrow> prints_raw ce raw (fst (cli_loop ce raw n rs))"
  by (induction ce raw n rs rule: cli_loop.induct) (auto simp: raw_step_def split: option.splits prod.splits)

lemma prints_raw_append: "prints_raw ce raw (as @ bs) \<longleftrightarrow> prints_raw ce raw as \<and> prints_raw ce (fold (raw_step ce) as raw) bs"
  by (induction as arbitrary: raw) auto

lemma cli_loop_no_restore: "RestoreTerminal \<notin> set (fst (cli_loop ce raw n rs))"
  by (induction ce raw n rs rule: cli_loop.induct) (auto split: option.splits prod.splits)

lemma cli_loop_not_raw:
  assumes "ce_makeRaw ce = Some err" and "MakeRaw \<in> set (fst (cli_loop ce raw n rs))"
  shows "last (fst (cli_loop ce raw n rs)) = MakeRaw
    \<and> snd (cli_loop ce raw n rs) = Some (Some (Errorf (''can't initialize terminal: '' @ ErrorText err)))"
  using assms by (induction ce raw n rs rule: cli_loop.induct) (auto split: option.splits prod.splits if_splits)

lemma raw_after_no_raw: "\<not> (MakeRaw \<in> set acts \<and> ce_makeRaw ce = None) \<Longrightarrow> \<not> raw_after ce acts"
proof (induction acts rule: rev_induct)
  case (snoc a acts)
  then show ?case by (auto simp del: not_None_eq)
qed (simp add: raw_after_def)

lemma cli_loop_acts:
  assumes "cli_loop ce raw n rs = (acts, r)"
  shows "count_list acts MakeRaw \<le> (if ce_stdinTerminal ce \<and> \<not> raw then 1 else 0)
    \<and> (\<exists>rest. concat (map typed rs) = concat (map sent_input acts) @ rest)"
  using assms
  by (induction ce raw n rs arbitrary: acts r rule: cli_loop.induct)
    (fastforce split: if_splits option.splits prod.splits)+

text \<open>
  C38. The client and its terminal: what \<open>ExecCliApp\<close> itself does. A terminal that was put into raw mode is out of it again when the function returns,
  however it returns; it is put into raw mode at most once, and never without a terminal. The output of the command, which this function prints, is printed
  to the terminal of a session only in raw mode; when the terminal cannot be put into raw mode, that is the error returned, and nothing is printed. The first message is the
  request for the app, and the input that is sent after it is what was typed, in order, up to where the loop ended. (The gate's own lines are not printed here, but by the
  receiving goroutine as they come, be the terminal raw or not.)
\<close>

theorem ExecCliApp_terminal:
  assumes "ExecCliApp ce parse dial openShell endpoints app args rs = (acts, out)"
  shows "(out \<noteq> Done None \<longrightarrow> \<not> raw_after ce acts)
    \<and> count_list acts MakeRaw \<le> (if ce_stdinTerminal ce then 1 else 0)
    \<and> (ce_stdinTerminal ce \<longrightarrow> (\<forall>pre line post. acts = pre @ Print line # post \<longrightarrow> raw_after ce pre))
    \<and> (\<forall>err. ce_makeRaw ce = Some err \<longrightarrow> MakeRaw \<in> set acts \<longrightarrow> (\<forall>line. Print line \<notin> set acts)
         \<and> out = Done (Some (Some (Errorf (''can't initialize terminal: '' @ ErrorText err)))))
    \<and> (acts \<noteq> [] \<longrightarrow> (\<exists>size. hd acts = SendRequest
          \<lparr>in_App = Some \<lparr>am_Name = app_Name app, am_Namespace = app_Namespace app\<rparr>, in_Input = args, in_TerminalSize = size\<rparr>))
    \<and> (\<exists>rest. concat (map typed rs) = concat (map sent_input acts) @ rest)"
proof (cases "\<exists>cc. fst (dial_loop parse dial endpoints) = Done (Some cc) \<and> openShell = None \<and> ce_send ce 0 = None")
  case False
  then have "acts = [] \<or> (\<exists>size. acts = [SendRequest
      \<lparr>in_App = Some \<lparr>am_Name = app_Name app, am_Namespace = app_Namespace app\<rparr>, in_Input = args, in_TerminalSize = size\<rparr>])"
    using assms by (auto simp: ExecCliApp_def Let_def split: outcome.splits option.splits)
  then show ?thesis by (auto simp: raw_after_def raw_step_def Cons_eq_append_conv)
next
  case True
  then obtain cc where cc: "fst (dial_loop parse dial endpoints) = Done (Some cc)" "openShell = None" "ce_send ce 0 = None"
    by blast
  obtain loop r where l: "cli_loop ce False 1 rs = (loop, r)" by force
  let ?req = "SendRequest \<lparr>in_App = Some \<lparr>am_Name = app_Name app, am_Namespace = app_Namespace app\<rparr>, in_Input = args,
      in_TerminalSize = (if ce_stdoutTerminal ce then ce_size ce else None)\<rparr>"
  let ?restore = "if r \<noteq> None \<and> MakeRaw \<in> set loop \<and> ce_makeRaw ce = None then [RestoreTerminal] else []"
  have run: "acts = ?req # loop @ ?restore" "out = Done r"
    using assms cc unfolding ExecCliApp_def by (simp_all only: cc l prod.case outcome.case option.case Let_def prod.inject)
  have raw: "\<not> raw_after ce acts" if "r \<noteq> None"
  proof (cases "MakeRaw \<in> set loop \<and> ce_makeRaw ce = None")
    case True
    with that have "acts = (?req # loop) @ [RestoreTerminal]" by (simp add: run)
    then show ?thesis by (simp only: raw_after_snoc) simp
  next
    case False
    then show ?thesis by (intro raw_after_no_raw) (auto simp: run)
  qed
  have prints: "raw_after ce pre" if "ce_stdinTerminal ce" "acts = pre @ Print line # post" for pre line post
  proof -
    have "prints_raw ce False loop" using cli_loop_prints_raw [OF that(1), of False 1 rs] unfolding l fst_conv .
    then have "prints_raw ce False acts" by (simp add: run prints_raw_append raw_step_def)
    then show ?thesis using prints_rawD that(2) by (simp add: raw_after_def)
  qed
  have failed: "(\<forall>line. Print line \<notin> set acts) \<and> r = Some (Some (Errorf (''can't initialize terminal: '' @ ErrorText err)))"
    if err: "ce_makeRaw ce = Some err" and mk: "MakeRaw \<in> set acts" for err
  proof -
    have "MakeRaw \<in> set loop" using mk err by (auto simp: run)
    with cli_loop_not_raw [OF err, of False 1 rs] have ended: "last loop = MakeRaw" "r = Some (Some (Errorf (''can't initialize terminal: '' @ ErrorText err)))"
      unfolding l by simp_all
    have tty: "ce_stdinTerminal ce" using cli_loop_acts [OF l] \<open>MakeRaw \<in> set loop\<close> by (auto simp: count_list_0_iff split: if_splits)
    have "Print line \<notin> set acts" for line
    proof
      assume "Print line \<in> set acts"
      then obtain pre post where "acts = pre @ Print line # post" using split_list by fast
      from prints [OF tty this] raw_after_no_raw [of pre ce] err show False by simp
    qed
    with ended show ?thesis by simp
  qed
  have same: "count_list acts MakeRaw = count_list loop MakeRaw"
    "concat (map sent_input acts) = concat (map sent_input loop)" "hd acts = ?req"
    by (simp_all add: run)
  show ?thesis
  proof (intro conjI allI impI)
    show "\<not> raw_after ce acts" if "out \<noteq> Done None" using raw that run(2) by simp
    show "count_list acts MakeRaw \<le> (if ce_stdinTerminal ce then 1 else 0)" using cli_loop_acts [OF l] same(1) by simp
    show "raw_after ce pre" if "ce_stdinTerminal ce" "acts = pre @ Print line # post" for pre line post by (rule prints [OF that])
    show "Print line \<notin> set acts" if "ce_makeRaw ce = Some err" "MakeRaw \<in> set acts" for err line using failed [OF that] by blast
    show "out = Done (Some (Some (Errorf (''can't initialize terminal: '' @ ErrorText err))))"
      if "ce_makeRaw ce = Some err" "MakeRaw \<in> set acts" for err
      unfolding run(2) using failed [OF that] by blast
    show "\<exists>size. hd acts = SendRequest \<lparr>in_App = Some \<lparr>am_Name = app_Name app, am_Namespace = app_Namespace app\<rparr>, in_Input = args,
        in_TerminalSize = size\<rparr>" unfolding same(3) by blast
    show "\<exists>rest. concat (map typed rs) = concat (map sent_input acts) @ rest" using cli_loop_acts [OF l] same(2) by simp
  qed
qed

lemma ExecCliApp_terminal_witness:
  "\<exists>acts. ExecCliApp sample_cli Inr Inr None [''gate''] live_app [''ls'']
       [InCh (Some ''l''), OutCh (Some ''x''), OutCh (Some ''y''), ErrCh EOF] = (acts, Done (Some None))
     \<and> MakeRaw \<in> set acts \<and> \<not> raw_after sample_cli acts"
proof -
  let ?acts = "[SendRequest \<lparr>in_App = Some \<lparr>am_Name = app_Name live_app, am_Namespace = app_Namespace live_app\<rparr>, in_Input = [''ls''],
      in_TerminalSize = None\<rparr>, SendInput ''l'', MakeRaw, Print ''x'', Print ''y'', RestoreTerminal]"
  have run: "ExecCliApp sample_cli Inr Inr None [''gate''] live_app [''ls'']
      [InCh (Some ''l''), OutCh (Some ''x''), OutCh (Some ''y''), ErrCh EOF] = (?acts, Done (Some None))"
    by (simp add: ExecCliApp_def sample_cli_def ce_size_def getSize_def)
  from ExecCliApp_terminal [OF run] run show ?thesis by auto
qed

end
