(* ===== verification/ClientRun.thy ===== *)
theory ClientRun
  imports LibCli Goroutines
begin

text \<open>
  \<open>ExecCliApp\<close> of pkg/libcli/api.go as it runs after the first message was sent: the goroutine that reads standard input, the one that
  receives from the gate, the main loop with its \<open>select\<close>, the signals of the terminal, and the deferred functions when it returns. The
  rounds of the main loop, which LibCli takes as given, come about here.
\<close>

section \<open>State\<close>

text \<open>
  Where a goroutine is: reading or receiving; sending a chunk on its channel; sending an error on \<open>errCh\<close>; about to run its deferred
  function; over, with its channel closed. Channels are unbuffered, so a value goes over when its sender and the main loop meet.
\<close>

datatype in_place = InRead | InSend string | InFail goerror | InClose | InOver

datatype out_place = OutRecv | OutSend string | OutFail goerror | OutClose | OutOver

text \<open>
  Where the function itself is: before \<open>signal.Notify\<close>; in the loop; and at its deferred functions, the last one first: to restore the terminal,
  to close \<open>winch\<close>, to stop the signals, to close \<open>errCh\<close>.
\<close>

datatype main_place = Notify | Select | Restore | CloseWinch | StopWinch | CloseErr | MainOver

text \<open>
  \<open>xs_winch\<close>: the channel of signals, which has room for one, holds one. The last five fields are what has happened: the chunks that standard input gave, those of
  them that the code dropped, the messages received, what the receiving goroutine printed itself, and the panic that ended the process.
\<close>

record exec_state =
  xs_main :: main_place
  xs_in :: in_place
  xs_out :: out_place
  xs_rounds :: "round list"
  xs_registered :: bool
  xs_winch :: bool
  xs_winchClosed :: bool
  xs_errClosed :: bool
  xs_typed :: "string list"
  xs_dropped :: "string list"
  xs_responses :: "StdOut list"
  xs_direct :: "string list"
  xs_crash :: "string option"

definition started_exec :: exec_state where
  "started_exec =
     \<lparr>xs_main = Notify, xs_in = InRead, xs_out = OutRecv, xs_rounds = [], xs_registered = False, xs_winch = False,
      xs_winchClosed = False, xs_errClosed = False, xs_typed = [], xs_dropped = [], xs_responses = [], xs_direct = [], xs_crash = None\<rparr>"

section \<open>Steps\<close>

definition closed_send :: "exec_state \<Rightarrow> exec_state" where
  "closed_send s = s\<lparr>xs_crash := Some ''send on closed channel''\<rparr>"

text \<open>
  The goroutine of standard input. \<open>answer\<close> is what \<open>stdin.Read\<close> gives: the bytes that it has put into the buffer of 1024 bytes, and an error or none, for as the
  documentation of \<open>io.Reader\<close> says it may give both at once. The code looks at the error first, and then at the bytes no more.
\<close>

definition input_step :: "string \<times> goerror option \<Rightarrow> exec_state \<Rightarrow> exec_state option" where
  "input_step answer s =
     (case xs_in s of
        InRead \<Rightarrow>
          (case answer of (chunk, error) \<Rightarrow>
             if length chunk > 1024 then None
             else case error of
               Some err \<Rightarrow>
                 let lost = (if chunk = [] then [] else [chunk])
                 in Some (s\<lparr>xs_typed := xs_typed s @ lost, xs_dropped := xs_dropped s @ lost,
                      xs_in := (if err = EOF then InClose
                        else InFail (Errorf (''can't read the input:'' @ ErrorText err)))\<rparr>)
             | None \<Rightarrow> Some (s\<lparr>xs_typed := xs_typed s @ [chunk], xs_in := InSend chunk\<rparr>))
      | InFail err \<Rightarrow> if xs_errClosed s then Some (closed_send s) else None
      | InClose \<Rightarrow> Some (s\<lparr>xs_in := InOver\<rparr>)
      | _ \<Rightarrow> None)"

text \<open>The receiving goroutine; \<open>answer\<close> is what \<open>sh.Recv\<close> gives.\<close>

definition output_step :: "recv_error + StdOut \<Rightarrow> exec_state \<Rightarrow> exec_state option" where
  "output_step answer s =
     (case xs_out s of
        OutRecv \<Rightarrow>
          Some (case answer of
            Inl err \<Rightarrow> s\<lparr>xs_out := OutFail (remote_error err)\<rparr>
          | Inr resp \<Rightarrow>
              (let s = s\<lparr>xs_responses := xs_responses s @ [resp]\<rparr>
               in if length (so_Output resp) > 0 then
                    (if so_Raw resp then s\<lparr>xs_out := OutSend (so_Output resp)\<rparr>
                     else s\<lparr>xs_direct := xs_direct s @ [so_Output resp]\<rparr>)
                  else s))
      | OutFail err \<Rightarrow> if xs_errClosed s then Some (closed_send s) else None
      | OutClose \<Rightarrow> Some (s\<lparr>xs_out := OutOver\<rparr>)
      | _ \<Rightarrow> None)"

text \<open>A round of the main loop, which returns from it or goes on.\<close>

definition main_round :: "cli_env \<Rightarrow> round \<Rightarrow> exec_state \<Rightarrow> exec_state" where
  "main_round ce rd s =
     s\<lparr>xs_rounds := xs_rounds s @ [rd],
       xs_main := (if snd (cli_loop ce False 1 (xs_rounds s @ [rd])) = None then Select else Restore)\<rparr>"

text \<open>The cases of \<open>select\<close>, each of which can be chosen only when the other side is ready; \<open>errCh\<close> has two senders.\<close>

datatype choice = ErrOfIn | ErrOfOut | WinchCase | CtxCase | InCase | OutCase

definition select_step :: "cli_env \<Rightarrow> choice \<Rightarrow> exec_state \<Rightarrow> exec_state option" where
  "select_step ce ch s =
     (if xs_main s \<noteq> Select then None
      else case ch of
        ErrOfIn \<Rightarrow> (case xs_in s of InFail err \<Rightarrow> Some (main_round ce (ErrCh err) (s\<lparr>xs_in := InClose\<rparr>)) | _ \<Rightarrow> None)
      | ErrOfOut \<Rightarrow> (case xs_out s of OutFail err \<Rightarrow> Some (main_round ce (ErrCh err) (s\<lparr>xs_out := OutClose\<rparr>)) | _ \<Rightarrow> None)
      | WinchCase \<Rightarrow> if xs_winch s then Some (main_round ce Winch (s\<lparr>xs_winch := False\<rparr>)) else None
      | CtxCase \<Rightarrow> Some (main_round ce CtxDoneRound s)
      | InCase \<Rightarrow>
          (case xs_in s of
             InSend chunk \<Rightarrow> Some (main_round ce (InCh (Some chunk)) (s\<lparr>xs_in := InRead\<rparr>))
           | InOver \<Rightarrow> Some (main_round ce (InCh None) s)
           | _ \<Rightarrow> None)
      | OutCase \<Rightarrow>
          (case xs_out s of
             OutSend out \<Rightarrow> Some (main_round ce (OutCh (Some out)) (s\<lparr>xs_out := OutRecv\<rparr>))
           | OutOver \<Rightarrow> Some (main_round ce (OutCh None) s)
           | _ \<Rightarrow> None))"

text \<open>The statements of the function outside of the loop.\<close>

definition main_step :: "exec_state \<Rightarrow> exec_state option" where
  "main_step s =
     (case xs_main s of
        Notify \<Rightarrow> Some (s\<lparr>xs_registered := True, xs_main := Select\<rparr>)
      | Select \<Rightarrow> None
      | Restore \<Rightarrow> Some (s\<lparr>xs_main := CloseWinch\<rparr>)
      | CloseWinch \<Rightarrow> Some (s\<lparr>xs_winchClosed := True, xs_main := StopWinch\<rparr>)
      | StopWinch \<Rightarrow> Some (s\<lparr>xs_registered := False, xs_main := CloseErr\<rparr>)
      | CloseErr \<Rightarrow> Some (s\<lparr>xs_errClosed := True, xs_main := MainOver\<rparr>)
      | MainOver \<Rightarrow> None)"

text \<open>The window changes its size: package signal sends on the channel, without blocking, if it is registered.\<close>

definition signal_step :: "exec_state \<Rightarrow> exec_state option" where
  "signal_step s =
     (if \<not> xs_registered s then None
      else if xs_winchClosed s then Some (closed_send s)
      else Some (s\<lparr>xs_winch := True\<rparr>))"

datatype exec_event = Input "string \<times> goerror option" | Output "recv_error + StdOut" | Choose choice | Main | Signal

definition exec_step :: "cli_env \<Rightarrow> exec_event \<Rightarrow> exec_state \<Rightarrow> exec_state option" where
  "exec_step ce ev s =
     (if xs_crash s \<noteq> None then None
      else case ev of
        Input answer \<Rightarrow> input_step answer s
      | Output answer \<Rightarrow> output_step answer s
      | Choose ch \<Rightarrow> select_step ce ch s
      | Main \<Rightarrow> main_step s
      | Signal \<Rightarrow> signal_step s)"

lemmas exec_ops = exec_step_def input_step_def output_step_def select_step_def main_round_def main_step_def signal_step_def
  closed_send_def

section \<open>The main loop\<close>

fun outs :: "round \<Rightarrow> string list" where
  "outs (OutCh (Some s)) = [s]"
| "outs r = []"

fun printed :: "cli_action \<Rightarrow> string list" where
  "printed (Print s) = [s]"
| "printed a = []"

lemma cli_loop_going:
  "snd (cli_loop ce raw n rs) = None \<Longrightarrow>
     concat (map printed (fst (cli_loop ce raw n rs))) = concat (map outs rs)
   \<and> concat (map sent_input (fst (cli_loop ce raw n rs))) = concat (map typed rs)"
  by (induction ce raw n rs rule: cli_loop.induct) (auto split: if_splits option.splits prod.splits)

lemma cli_loop_printed: "\<exists>rest. concat (map outs rs) = concat (map printed (fst (cli_loop ce raw n rs))) @ rest"
  by (induction ce raw n rs rule: cli_loop.induct) (auto split: if_splits option.splits prod.splits)

lemma cli_loop_sent: "\<exists>rest. concat (map typed rs) = concat (map sent_input (fst (cli_loop ce raw n rs))) @ rest"
  using cli_loop_acts [of ce raw n rs "fst (cli_loop ce raw n rs)" "snd (cli_loop ce raw n rs)"] by simp

section \<open>The invariant\<close>

fun typed_in_flight :: "in_place \<Rightarrow> string list" where
  "typed_in_flight (InSend chunk) = [chunk]"
| "typed_in_flight p = []"

fun reads_on :: "in_place \<Rightarrow> bool" where
  "reads_on InRead = True"
| "reads_on (InSend chunk) = True"
| "reads_on p = False"

fun raw_in_flight :: "out_place \<Rightarrow> string list" where
  "raw_in_flight (OutSend out) = [out]"
| "raw_in_flight p = []"

text \<open>The output of the command among the messages, and the gate's own lines; empty ones are dropped.\<close>

definition raw_outputs :: "StdOut list \<Rightarrow> string list" where
  "raw_outputs ms = map so_Output (filter (\<lambda>m. so_Raw m \<and> so_Output m \<noteq> []) ms)"

definition gate_lines :: "StdOut list \<Rightarrow> string list" where
  "gate_lines ms = map so_Output (filter (\<lambda>m. \<not> so_Raw m \<and> so_Output m \<noteq> []) ms)"

definition exec_result :: "cli_env \<Rightarrow> exec_state \<Rightarrow> goerror option option" where
  "exec_result ce s = snd (cli_loop ce False 1 (xs_rounds s))"

definition exec_inv :: "cli_env \<Rightarrow> exec_state \<Rightarrow> bool" where
  "exec_inv ce s \<longleftrightarrow>
     xs_typed s = concat (map typed (xs_rounds s)) @ typed_in_flight (xs_in s) @ xs_dropped s
   \<and> (reads_on (xs_in s) \<longrightarrow> xs_dropped s = []) \<and> length (xs_dropped s) \<le> 1
   \<and> raw_outputs (xs_responses s) = concat (map outs (xs_rounds s)) @ raw_in_flight (xs_out s)
   \<and> gate_lines (xs_responses s) = xs_direct s
   \<and> (exec_result ce s = None \<longleftrightarrow> xs_main s = Notify \<or> xs_main s = Select)
   \<and> (xs_out s = OutClose \<or> xs_out s = OutOver \<longrightarrow>
        (\<exists>rs e. xs_rounds s = rs @ [ErrCh e] \<and> snd (cli_loop ce False 1 rs) = None))"

definition places_inv :: "exec_state \<Rightarrow> bool" where
  "places_inv s \<longleftrightarrow>
     (xs_errClosed s \<longleftrightarrow> xs_main s = MainOver)
   \<and> (xs_winchClosed s \<longleftrightarrow> xs_main s \<in> {StopWinch, CloseErr, MainOver})
   \<and> (xs_registered s \<longleftrightarrow> xs_main s \<in> {Select, Restore, CloseWinch, StopWinch})
   \<and> (\<forall>p. xs_crash s = Some p \<longrightarrow> p = ''send on closed channel'' \<and> (xs_main s = StopWinch \<or> xs_main s = MainOver))"

text \<open>No chunk is larger than the buffer.\<close>

definition small_inv :: "exec_state \<Rightarrow> bool" where
  "small_inv s \<longleftrightarrow> list_all (\<lambda>chunk. length chunk \<le> 1024) (xs_typed s)"

lemma places_inv_same:
  assumes "places_inv s" and "xs_main t = xs_main s" and "xs_errClosed t = xs_errClosed s"
    and "xs_winchClosed t = xs_winchClosed s" and "xs_registered t = xs_registered s" and "xs_crash t = xs_crash s"
  shows "places_inv t"
  using assms by (simp add: places_inv_def)

lemma places_inv_crash:
  assumes "places_inv s" and "xs_errClosed s \<or> xs_registered s \<and> xs_winchClosed s"
  shows "places_inv (closed_send s)"
  using assms by (auto simp: places_inv_def closed_send_def)

lemma places_inv_round: "places_inv s \<Longrightarrow> xs_main s = Select \<Longrightarrow> places_inv (main_round ce rd s)"
  by (auto simp: places_inv_def main_round_def)

lemma places_inv_main: "places_inv s \<Longrightarrow> xs_crash s = None \<Longrightarrow> main_step s = Some t \<Longrightarrow> places_inv t"
  by (cases "xs_main s") (auto simp: places_inv_def main_step_def)

lemma places_inv_step:
  assumes "places_inv s" and "exec_step ce ev s = Some t"
  shows "places_inv t"
proof (cases ev)
  case (Input answer)
  with assms show ?thesis
    by (cases "xs_in s"; cases answer)
      (auto simp: exec_step_def input_step_def Let_def simp del: length_greater_0_conv intro: places_inv_same places_inv_crash
        split: if_splits option.splits)
next
  case (Output answer)
  with assms show ?thesis
    by (cases "xs_out s"; cases answer)
      (auto simp: exec_step_def output_step_def Let_def intro: places_inv_same places_inv_crash split: if_splits)
next
  case (Choose ch)
  have "places_inv (u\<lparr>xs_in := i, xs_out := out, xs_winch := w\<rparr>)" if "places_inv u" for u i out w
    using that by (rule places_inv_same) simp_all
  with Choose assms show ?thesis
    by (cases ch)
      (auto simp: exec_step_def select_step_def intro!: places_inv_round intro: places_inv_same
        split: if_splits in_place.splits out_place.splits)
next
  case Main
  with assms places_inv_main show ?thesis by (simp add: exec_step_def split: if_splits)
next
  case Signal
  with assms show ?thesis
    by (auto simp: exec_step_def signal_step_def intro: places_inv_same places_inv_crash split: if_splits)
qed

lemma outputs_simps [simp]:
  "raw_outputs [] = []" "gate_lines [] = []"
  "raw_outputs (ms @ [m]) = raw_outputs ms @ (if so_Raw m \<and> so_Output m \<noteq> [] then [so_Output m] else [])"
  "gate_lines (ms @ [m]) = gate_lines ms @ (if \<not> so_Raw m \<and> so_Output m \<noteq> [] then [so_Output m] else [])"
  by (simp_all add: raw_outputs_def gate_lines_def)

lemma exec_inv_same:
  assumes "exec_inv ce s" and "xs_rounds t = xs_rounds s" and "xs_typed t = xs_typed s" and "xs_dropped t = xs_dropped s" and "xs_responses t = xs_responses s"
    and "xs_direct t = xs_direct s" and "typed_in_flight (xs_in t) = typed_in_flight (xs_in s)" and "reads_on (xs_in t) \<longrightarrow> reads_on (xs_in s)" and "xs_out t = xs_out s"
    and "xs_main t = Notify \<or> xs_main t = Select \<longleftrightarrow> xs_main s = Notify \<or> xs_main s = Select"
  shows "exec_inv ce t"
  using assms by (simp add: exec_inv_def exec_result_def)

lemma exec_inv_selecting:
  assumes "exec_inv ce s" and "xs_main s = Select"
  shows "xs_out s \<noteq> OutClose" "xs_out s \<noteq> OutOver" "exec_result ce s = None"
  using assms cli_loop_ErrCh by (auto simp: exec_inv_def exec_result_def)

lemma exec_inv_round:
  assumes "xs_typed s = concat (map typed (xs_rounds s)) @ typed rd @ typed_in_flight (xs_in s) @ xs_dropped s"
    and "reads_on (xs_in s) \<longrightarrow> xs_dropped s = []" and "length (xs_dropped s) \<le> 1"
    and "raw_outputs (xs_responses s) = concat (map outs (xs_rounds s)) @ outs rd @ raw_in_flight (xs_out s)"
    and "gate_lines (xs_responses s) = xs_direct s" and "exec_result ce s = None"
    and "xs_out s = OutClose \<or> xs_out s = OutOver \<Longrightarrow> \<exists>e. rd = ErrCh e"
  shows "exec_inv ce (main_round ce rd s)"
  using assms by (auto simp: exec_inv_def exec_result_def main_round_def)

lemma select_cases:
  assumes "select_step ce ch s = Some t"
  obtains err where "xs_in s = InFail err" "t = main_round ce (ErrCh err) (s\<lparr>xs_in := InClose\<rparr>)"
  | err where "xs_out s = OutFail err" "t = main_round ce (ErrCh err) (s\<lparr>xs_out := OutClose\<rparr>)"
  | "t = main_round ce Winch (s\<lparr>xs_winch := False\<rparr>)"
  | "t = main_round ce CtxDoneRound s"
  | chunk where "xs_in s = InSend chunk" "t = main_round ce (InCh (Some chunk)) (s\<lparr>xs_in := InRead\<rparr>)"
  | "t = main_round ce (InCh None) s"
  | out where "xs_out s = OutSend out" "t = main_round ce (OutCh (Some out)) (s\<lparr>xs_out := OutRecv\<rparr>)"
  | "t = main_round ce (OutCh None) s"
  using assms by (cases ch) (auto simp: select_step_def split: if_splits in_place.splits out_place.splits)

lemma exec_inv_select:
  assumes "exec_inv ce s" and "select_step ce ch s = Some t"
  shows "exec_inv ce t"
proof -
  from assms(2) have "xs_main s = Select" by (auto simp: select_step_def split: if_splits)
  note sel = exec_inv_selecting [OF assms(1) this]
  have inv: "xs_typed s = concat (map typed (xs_rounds s)) @ typed_in_flight (xs_in s) @ xs_dropped s"
    "reads_on (xs_in s) \<longrightarrow> xs_dropped s = []" "length (xs_dropped s) \<le> 1"
    "raw_outputs (xs_responses s) = concat (map outs (xs_rounds s)) @ raw_in_flight (xs_out s)"
    "gate_lines (xs_responses s) = xs_direct s"
    using assms(1) by (simp_all add: exec_inv_def)
  have res: "exec_result ce (s\<lparr>xs_in := i\<rparr>) = None" "exec_result ce (s\<lparr>xs_out := out\<rparr>) = None"
    "exec_result ce (s\<lparr>xs_winch := w\<rparr>) = None" for i out w
    using sel(3) by (simp_all add: exec_result_def)
  from assms(2) show ?thesis
    by (cases rule: select_cases) (auto intro!: exec_inv_round simp: inv [simplified] res sel)
qed

lemma exec_inv_crash: "exec_inv ce s \<Longrightarrow> exec_inv ce (closed_send s)"
  by (rule exec_inv_same) (simp_all add: closed_send_def)

lemma exec_inv_in_place:
  "exec_inv ce s \<Longrightarrow> typed_in_flight i = typed_in_flight (xs_in s) \<Longrightarrow> \<not> reads_on i \<Longrightarrow> exec_inv ce (s\<lparr>xs_in := i\<rparr>)"
  by (rule exec_inv_same) simp_all

lemma exec_inv_typed:
  "exec_inv ce s \<Longrightarrow> xs_in s = InRead \<Longrightarrow> exec_inv ce (s\<lparr>xs_typed := xs_typed s @ [chunk], xs_in := InSend chunk\<rparr>)"
  "exec_inv ce s \<Longrightarrow> xs_in s = InRead \<Longrightarrow> typed_in_flight i = [] \<Longrightarrow> \<not> reads_on i \<Longrightarrow>
     exec_inv ce (s\<lparr>xs_typed := xs_typed s @ [chunk], xs_dropped := xs_dropped s @ [chunk], xs_in := i\<rparr>)"
  by (simp_all add: exec_inv_def exec_result_def)

lemma exec_inv_out_place:
  "exec_inv ce s \<Longrightarrow> xs_out s = OutRecv \<Longrightarrow> exec_inv ce (s\<lparr>xs_out := OutFail e\<rparr>)"
  "exec_inv ce s \<Longrightarrow> xs_out s = OutClose \<Longrightarrow> exec_inv ce (s\<lparr>xs_out := OutOver\<rparr>)"
  by (simp_all add: exec_inv_def exec_result_def)

lemma exec_inv_response:
  assumes "exec_inv ce s" and "xs_out s = OutRecv"
  shows "so_Raw m \<Longrightarrow> so_Output m \<noteq> [] \<Longrightarrow>
      exec_inv ce (s\<lparr>xs_responses := xs_responses s @ [m], xs_out := OutSend (so_Output m)\<rparr>)"
    and "\<not> so_Raw m \<Longrightarrow> so_Output m \<noteq> [] \<Longrightarrow>
      exec_inv ce (s\<lparr>xs_responses := xs_responses s @ [m], xs_direct := xs_direct s @ [so_Output m]\<rparr>)"
    and "so_Output m = [] \<Longrightarrow> exec_inv ce (s\<lparr>xs_responses := xs_responses s @ [m]\<rparr>)"
  using assms by (simp_all add: exec_inv_def exec_result_def)

lemma exec_inv_input:
  assumes "exec_inv ce s" and "input_step answer s = Some t"
  shows "exec_inv ce t"
proof (cases "xs_in s")
  case InRead
  with assms exec_inv_in_place [OF assms(1)] exec_inv_typed [OF assms(1)] show ?thesis
    by (cases answer) (auto simp: input_step_def Let_def not_less split: if_splits option.splits)
qed (use assms exec_inv_in_place [OF assms(1)] exec_inv_crash [OF assms(1)] in
  \<open>auto simp: input_step_def split: if_splits\<close>)

lemma exec_inv_output:
  assumes "exec_inv ce s" and "output_step answer s = Some t"
  shows "exec_inv ce t"
proof (cases "xs_out s")
  case OutRecv
  with assms exec_inv_out_place [OF assms(1)] exec_inv_response [OF assms(1) OutRecv] show ?thesis
    by (cases answer) (auto simp: output_step_def Let_def split: if_splits)
qed (use assms exec_inv_out_place [OF assms(1)] exec_inv_crash [OF assms(1)] in
  \<open>auto simp: output_step_def split: if_splits\<close>)

lemma exec_inv_step:
  assumes "exec_inv ce s" and "exec_step ce ev s = Some t"
  shows "exec_inv ce t"
proof (cases ev)
  case (Input answer)
  with assms exec_inv_input show ?thesis by (simp add: exec_step_def split: if_splits)
next
  case (Output answer)
  with assms exec_inv_output show ?thesis by (simp add: exec_step_def split: if_splits)
next
  case (Choose ch)
  with assms exec_inv_select show ?thesis by (simp add: exec_step_def split: if_splits)
next
  case Main
  with assms show ?thesis
    by (cases "xs_main s") (auto simp: exec_step_def main_step_def intro: exec_inv_same split: if_splits)
next
  case Signal
  with assms show ?thesis
    by (auto simp: exec_step_def signal_step_def exec_inv_crash elim: exec_inv_same split: if_splits)
qed

lemma small_inv_step:
  assumes "small_inv s" and "exec_step ce ev s = Some t"
  shows "small_inv t"
proof (cases ev)
  case (Input answer)
  with assms show ?thesis
    by (cases "xs_in s"; cases answer)
      (auto simp: exec_step_def input_step_def small_inv_def closed_send_def Let_def split: if_splits option.splits)
next
  case (Choose ch)
  with assms have "select_step ce ch s = Some t" by (simp add: exec_step_def split: if_splits)
  then show ?thesis by (cases rule: select_cases) (use assms(1) in \<open>simp_all add: small_inv_def main_round_def\<close>)
qed (use assms in \<open>auto simp: exec_ops small_inv_def Let_def split: if_splits out_place.splits sum.splits main_place.splits\<close>)

text \<open>When the receiving goroutine was heard to fail, all that it received has been printed.\<close>

lemma remote_end_printed:
  assumes "exec_inv ce s" and over: "xs_out s = OutClose \<or> xs_out s = OutOver"
  shows "raw_outputs (xs_responses s) = concat (map printed (fst (cli_loop ce False 1 (xs_rounds s))))"
proof -
  obtain rs e where rs: "xs_rounds s = rs @ [ErrCh e]" "snd (cli_loop ce False 1 rs) = None"
    using assms by (auto simp: exec_inv_def)
  with assms cli_loop_going [OF rs(2)] cli_loop_ErrCh [OF rs(2), of e] show ?thesis by (auto simp: exec_inv_def)
qed

abbreviation exec_states :: "cli_env \<Rightarrow> exec_state \<Rightarrow> bool" where
  "exec_states ce \<equiv> reachable ((=) started_exec) (event_step (exec_step ce))"

interpretation client_run: kept_invariant "(=) started_exec" "event_step (exec_step ce)" "\<lambda>s. exec_inv ce s \<and> places_inv s \<and> small_inv s"
  for ce
proof
  show "exec_inv ce s \<and> places_inv s \<and> small_inv s" if "started_exec = s" for s
    using that by (auto simp: started_exec_def exec_inv_def exec_result_def places_inv_def small_inv_def)
  show "exec_inv ce t \<and> places_inv t \<and> small_inv t" if "exec_inv ce s \<and> places_inv s \<and> small_inv s" "event_step (exec_step ce) s t" for s t
    using that exec_inv_step places_inv_step small_inv_step by (auto simp: event_step_def)
qed

section \<open>Properties\<close>

text \<open>
  C35. What the client copies, however its goroutines interleave. In the loop, the chunks that standard input has given were sent to the gate, in order, but for at most
  one that is waiting to be sent and one that was dropped: the code drops the bytes that come together with an error, and reads no more then. The output of the command received so far was
  printed, in order, but for at most one piece; and the gate's own lines were printed at once. What was sent and printed stays a prefix when the loop has ended, and when it was
  the remote side that ended it, everything that was received has been printed. The rounds are a run of \<open>ExecCliApp\<close>, which has returned exactly when
  the loop has ended.
\<close>

theorem client_copies:
  assumes "exec_states ce s" and "acts = fst (cli_loop ce False 1 (xs_rounds s))"
  shows "(xs_main s = Select \<longrightarrow>
         xs_typed s = concat (map sent_input acts) @ typed_in_flight (xs_in s) @ xs_dropped s
       \<and> raw_outputs (xs_responses s) = concat (map printed acts) @ raw_in_flight (xs_out s))
    \<and> length (xs_dropped s) \<le> 1 \<and> (reads_on (xs_in s) \<longrightarrow> xs_dropped s = [])
    \<and> (\<exists>rest. xs_typed s = concat (map sent_input acts) @ rest)
    \<and> (\<exists>rest. raw_outputs (xs_responses s) = concat (map printed acts) @ rest)
    \<and> gate_lines (xs_responses s) = xs_direct s
    \<and> (xs_out s = OutClose \<or> xs_out s = OutOver \<longrightarrow> raw_outputs (xs_responses s) = concat (map printed acts))
    \<and> (fst (dial_loop parse dial endpoints) = Done (Some cc) \<longrightarrow> ce_send ce 0 = None \<longrightarrow>
         (snd (ExecCliApp ce parse dial None endpoints app args (xs_rounds s)) \<noteq> Done None
            \<longleftrightarrow> xs_main s \<notin> {Notify, Select}))"
proof -
  have inv: "exec_inv ce s" using client_run.inv_reachable [OF assms(1)] by simp
  have flow: "xs_typed s = concat (map typed (xs_rounds s)) @ typed_in_flight (xs_in s) @ xs_dropped s"
    "raw_outputs (xs_responses s) = concat (map outs (xs_rounds s)) @ raw_in_flight (xs_out s)"
    "gate_lines (xs_responses s) = xs_direct s" "length (xs_dropped s) \<le> 1" "reads_on (xs_in s) \<longrightarrow> xs_dropped s = []"
    using inv by (simp_all add: exec_inv_def)
  have select: "concat (map printed acts) = concat (map outs (xs_rounds s))"
    "concat (map sent_input acts) = concat (map typed (xs_rounds s))" if "xs_main s = Select"
    using exec_inv_selecting(3) [OF inv that] cli_loop_going [of ce False 1 "xs_rounds s"]
    by (simp_all add: assms(2) exec_result_def)
  have remote: "raw_outputs (xs_responses s) = concat (map printed acts)" if "xs_out s = OutClose \<or> xs_out s = OutOver"
    using remote_end_printed [OF inv that] by (simp add: assms(2))
  have result: "snd (ExecCliApp ce parse dial None endpoints app args (xs_rounds s)) \<noteq> Done None \<longleftrightarrow> xs_main s \<notin> {Notify, Select}"
    if "fst (dial_loop parse dial endpoints) = Done (Some cc)" "ce_send ce 0 = None"
    using inv that by (auto simp: ExecCliApp_def exec_inv_def exec_result_def Let_def split: prod.splits)
  show ?thesis
    using flow select remote result cli_loop_sent [of "xs_rounds s" ce False 1] cli_loop_printed [of "xs_rounds s" ce False 1]
    by (auto simp: assms(2))
qed

text \<open>A session in which a line is typed, echoed and answered, until the remote command ends.\<close>

definition echoing :: "exec_event list" where
  "echoing = [Main, Output (Inr \<lparr>so_Output = ''wait'', so_Raw = False\<rparr>), Input (''ls'', None), Choose InCase,
     Output (Inr \<lparr>so_Output = ''ls'', so_Raw = True\<rparr>), Input ([], Some EOF), Choose OutCase,
     Output (Inr \<lparr>so_Output = ''bin'', so_Raw = True\<rparr>), Input ([], Some EOF), Choose InCase, Choose OutCase,
     Output (Inl RecvEOF), Choose ErrOfOut]"

lemma echoing_runs:
  "\<exists>s. run_events (exec_step sample_cli) echoing started_exec = Some s \<and> xs_main s = Restore \<and> xs_out s = OutClose
     \<and> raw_outputs (xs_responses s) = [''ls'', ''bin'']"
  by (simp add: echoing_def exec_ops started_exec_def sample_cli_def remote_error_def raw_outputs_def)

lemma client_copies_witness:
  "\<exists>s. run_events (exec_step sample_cli) echoing started_exec = Some s
     \<and> concat (map printed (fst (cli_loop sample_cli False 1 (xs_rounds s)))) = [''ls'', ''bin'']"
proof -
  obtain s where s: "run_events (exec_step sample_cli) echoing started_exec = Some s" "xs_out s = OutClose"
    "raw_outputs (xs_responses s) = [''ls'', ''bin'']"
    using echoing_runs by blast
  from client_copies [OF run_events_reachable [OF s(1) refl] refl, of Inr Inr "[]" "''gate''" live_app "[]"] s
  show ?thesis by auto
qed

text \<open>
  C36. When the client panics. It does so if and only if a goroutine has an error to send and \<open>ExecCliApp\<close> has returned, or a signal of the
  window comes between its last two deferred functions, for a channel that was just closed. So no run panics while the main loop is in its \<open>select\<close>.
\<close>

theorem client_panics_when:
  assumes "exec_states ce s" and "xs_crash s = None"
  shows "(\<exists>ev t. exec_step ce ev s = Some t \<and> xs_crash t \<noteq> None)
    \<longleftrightarrow> xs_main s = MainOver \<and> ((\<exists>err. xs_in s = InFail err) \<or> (\<exists>err. xs_out s = OutFail err)) \<or> xs_main s = StopWinch"
proof
  have inv: "places_inv s" using client_run.inv_reachable [OF assms(1)] by simp
  assume "\<exists>ev t. exec_step ce ev s = Some t \<and> xs_crash t \<noteq> None"
  then obtain ev t where step: "exec_step ce ev s = Some t" "xs_crash t \<noteq> None" by blast
  show "xs_main s = MainOver \<and> ((\<exists>err. xs_in s = InFail err) \<or> (\<exists>err. xs_out s = OutFail err)) \<or> xs_main s = StopWinch"
  proof (cases ev)
    case (Input answer)
    with step assms(2) inv show ?thesis
      by (cases "xs_in s"; cases answer) (auto simp: exec_step_def input_step_def places_inv_def Let_def split: if_splits option.splits)
  next
    case (Output answer)
    with step assms(2) inv show ?thesis
      by (cases "xs_out s"; cases answer) (auto simp: exec_step_def output_step_def places_inv_def Let_def split: if_splits)
  next
    case (Choose ch)
    with step assms(2) have "select_step ce ch s = Some t" by (simp add: exec_step_def)
    then have "xs_crash t = xs_crash s" by (cases rule: select_cases) (simp_all add: main_round_def)
    with step assms(2) show ?thesis by simp
  next
    case Main
    with step assms(2) show ?thesis by (cases "xs_main s") (auto simp: exec_step_def main_step_def)
  next
    case Signal
    with step assms(2) inv show ?thesis by (auto simp: exec_step_def signal_step_def places_inv_def split: if_splits)
  qed
next
  have inv: "places_inv s" using client_run.inv_reachable [OF assms(1)] by simp
  assume "xs_main s = MainOver \<and> ((\<exists>err. xs_in s = InFail err) \<or> (\<exists>err. xs_out s = OutFail err)) \<or> xs_main s = StopWinch"
  then consider err where "xs_main s = MainOver" "xs_in s = InFail err" | err where "xs_main s = MainOver" "xs_out s = OutFail err"
    | "xs_main s = StopWinch" by blast
  then show "\<exists>ev t. exec_step ce ev s = Some t \<and> xs_crash t \<noteq> None"
  proof cases
    case (1 err)
    then have "exec_step ce (Input ([], Some EOF)) s = Some (closed_send s)"
      using inv assms(2) by (simp add: exec_step_def input_step_def places_inv_def)
    then show ?thesis by (intro exI) (auto simp: closed_send_def)
  next
    case (2 err)
    then have "exec_step ce (Output (Inl RecvEOF)) s = Some (closed_send s)"
      using inv assms(2) by (simp add: exec_step_def output_step_def places_inv_def)
    then show ?thesis by (intro exI) (auto simp: closed_send_def)
  next
    case 3
    then have "exec_step ce Signal s = Some (closed_send s)"
      using inv assms(2) by (simp add: exec_step_def signal_step_def places_inv_def)
    then show ?thesis by (intro exI) (auto simp: closed_send_def)
  qed
qed

text \<open>The caller cancels the context: \<open>ExecCliApp\<close> returns nil, and then the receiving goroutine reports the cancellation.\<close>

definition cancelling :: "exec_event list" where
  "cancelling = [Main, Choose CtxCase, Main, Main, Main, Main, Output (Inl (RecvOther ''canceled''))]"

lemma cancelling_runs:
  "\<exists>s err. run_events (exec_step sample_cli) cancelling started_exec = Some s \<and> xs_crash s = None \<and> xs_main s = MainOver
     \<and> xs_out s = OutFail err"
  by (simp add: cancelling_def exec_ops started_exec_def remote_error_def)

lemma client_panics_when_witness:
  "\<exists>s t ev. run_events (exec_step sample_cli) cancelling started_exec = Some s \<and> exec_step sample_cli ev s = Some t
     \<and> xs_crash t \<noteq> None"
proof -
  obtain s err where s: "run_events (exec_step sample_cli) cancelling started_exec = Some s" "xs_crash s = None"
    "xs_main s = MainOver" "xs_out s = OutFail err"
    using cancelling_runs by blast
  from client_panics_when [OF run_events_reachable [OF s(1) refl] s(2)] s show ?thesis by blast
qed

text \<open>
  Once standard input has ended, the closed channel is always ready, and the round that it gives changes nothing: the loop need not wait any more.
\<close>

lemma loop_spins:
  assumes "xs_main s = Select" and "xs_in s = InOver" and "xs_crash s = None" and "exec_result ce s = None"
  shows "\<exists>t. exec_step ce (Choose InCase) s = Some t \<and> xs_main t = Select \<and> xs_in t = InOver \<and> exec_result ce t = None
    \<and> fst (cli_loop ce False 1 (xs_rounds t)) = fst (cli_loop ce False 1 (xs_rounds s))"
proof -
  have "cli_loop ce raw n (rs @ [InCh None]) = cli_loop ce raw n rs" if "snd (cli_loop ce raw n rs) = None" for raw n rs
    using that by (induction ce raw n rs rule: cli_loop.induct) (auto split: if_splits option.splits prod.splits)
  from this [of False 1 "xs_rounds s"] assms show ?thesis
    by (simp add: exec_step_def select_step_def main_round_def exec_result_def)
qed

end
