(* ===== verification/ShellPipe.thy ===== *)
theory ShellPipe
  imports Streams ClientRun "HOL-Library.Sublist"
begin

text \<open>
  The client and the gate together, once a shell is open: \<open>ExecCliApp\<close> at one end of a gRPC stream, the reader and the writers of
  \<open>OpenShell\<close> at the other. Each end is a system of goroutines of its own (ClientRun, Streams); what they share is the stream, which
  delivers in each direction what was sent, in order, as gRPC documents it: what one end has received is a prefix of what the other has sent.
\<close>

section \<open>What is sent\<close>

text \<open>The messages of the client after the request for the app, which the handler receives before the reader starts.\<close>

fun message_of :: "cli_action \<Rightarrow> StdIn list" where
  "message_of (SendSize ts) = [\<lparr>in_App = None, in_Input = [], in_TerminalSize = ts\<rparr>]"
| "message_of (SendInput s) = [\<lparr>in_App = None, in_Input = [s], in_TerminalSize = None\<rparr>]"
| "message_of a = []"

definition client_messages :: "cli_env \<Rightarrow> exec_state \<Rightarrow> StdIn list" where
  "client_messages ce s = concat (map message_of (fst (cli_loop ce False 1 (xs_rounds s))))"

text \<open>The messages of the gate: the progress of the app, and then each piece that the command writes.\<close>

definition write_message :: "string \<Rightarrow> StdOut" where
  "write_message p = \<lparr>so_Output = p, so_Raw = True\<rparr>"

definition gate_messages :: "(string \<Rightarrow> string) \<Rightarrow> string list \<Rightarrow> string list \<Rightarrow> StdOut list" where
  "gate_messages paint lines written = map (progress_message paint) lines @ map write_message written"

lemma write_message_sent: "stdout_Write send p = (case send (write_message p) of Some e \<Rightarrow> (0, Some e) | None \<Rightarrow> (length p, None))"
  by (simp add: stdout_Write_def write_message_def)

section \<open>Each direction\<close>

text \<open>The loop sends no request any more, and no message with more than one chunk.\<close>

lemma cli_loop_no_request: "SendRequest m \<notin> set (fst (cli_loop ce raw n rs))"
  by (induction ce raw n rs rule: cli_loop.induct) (auto split: if_splits option.splits prod.splits)

lemma message_chunks: "SendRequest m \<noteq> a \<Longrightarrow> concat (map in_Input (message_of a)) = sent_input a"
  by (cases a) auto

lemma client_message_chunks:
  "concat (map in_Input (client_messages ce s)) = concat (map sent_input (fst (cli_loop ce False 1 (xs_rounds s))))"
proof -
  have "concat (map in_Input (concat (map message_of as))) = concat (map sent_input as)" if "\<And>m. SendRequest m \<notin> set as" for as
    using that
  proof (induction as)
    case (Cons a as)
    then show ?case by (cases a) auto
  qed simp
  then show ?thesis unfolding client_messages_def using cli_loop_no_request by blast
qed

lemma client_messages_one_chunk: "list_all one_chunk (client_messages ce s)"
proof -
  have "one_chunk m" if "m \<in> set (message_of a)" for m a
    using that by (cases a) (auto simp: one_chunk_def)
  then show ?thesis by (auto simp: client_messages_def list_all_iff)
qed

lemma prefix_concat_map: "prefix xs ys \<Longrightarrow> prefix (concat (map f xs)) (concat (map f ys))"
  by (auto simp: prefix_def)

lemma chunks_in_prefix:
  assumes "prefix reqs ms" and "list_all one_chunk ms"
  shows "prefix (chunks_in reqs) (concat (map in_Input ms))"
proof -
  have "takeWhile one_chunk reqs = reqs" using assms by (auto simp: list_all_iff takeWhile_eq_all_conv prefix_def)
  with prefix_concat_map [OF assms(1), of in_Input] show ?thesis by (simp only: chunks_in_def)
qed

lemma raw_gate_messages: "raw_outputs (gate_messages paint lines written) = filter (\<lambda>p. p \<noteq> []) written"
proof -
  have "filter (\<lambda>m. so_Raw m \<and> so_Output m \<noteq> []) (map (progress_message paint) lines) = []"
    by (induction lines) (simp_all add: progress_message_def Let_def)
  moreover have "map so_Output (filter (\<lambda>m. so_Raw m \<and> so_Output m \<noteq> []) (map write_message written)) = filter (\<lambda>p. p \<noteq> []) written"
    by (induction written) (simp_all add: write_message_def)
  ultimately show ?thesis by (simp add: raw_outputs_def gate_messages_def)
qed

lemma lines_gate_messages: "gate_lines (gate_messages paint lines written) = gate_lines (map (progress_message paint) lines)"
proof -
  have "filter (\<lambda>m. \<not> so_Raw m \<and> so_Output m \<noteq> []) (map write_message written) = []"
    by (induction written) (simp_all add: write_message_def)
  then show ?thesis by (simp add: gate_lines_def gate_messages_def)
qed

lemma outputs_prefix: "prefix xs ys \<Longrightarrow> prefix (raw_outputs xs) (raw_outputs ys)"
  "prefix xs ys \<Longrightarrow> prefix (gate_lines xs) (gate_lines ys)"
  by (auto simp: prefix_def raw_outputs_def gate_lines_def)

section \<open>Property\<close>

text \<open>The command is given some of the chunks that its reads took: all of them when its buffers are large enough.\<close>

lemma copied_subseq: "subseq (copied (map (\<lambda>(len_p, chunk). reader_Read len_p chunk) rs)) (chunks_out rs)"
proof (induction rs)
  case (Cons r rs)
  obtain len_p chunk where "r = (len_p, chunk)" by force
  with Cons show ?case
    by (cases chunk) (auto simp: copied_def chunks_out_def reader_Read_def intro: list_emb_Cons)
qed (simp add: copied_def chunks_out_def)

lemma subseq_prefix: "subseq xs ys \<Longrightarrow> prefix ys zs \<Longrightarrow> subseq xs zs"
  by (rule subseq_order.trans) (auto dest: prefix_imp_subseq)

lemma taken_prefix:
  assumes "exec_states ce s" and "reader_states initSize g" and "prefix (rd_requests g) (client_messages ce s)"
  shows "prefix (chunks_out (rd_reads g)) (xs_typed s)"
proof -
  have inv: "exec_inv ce s" using client_run.inv_reachable [OF assms(1)] by simp
  let ?acts = "fst (cli_loop ce False 1 (xs_rounds s))"
  have "prefix (chunks_out (rd_reads g)) (chunks_in (rd_requests g))"
    using stdin_stream.inv_reachable [OF assms(2)] by (simp add: stdin_inv_def)
  also have "prefix \<dots> (concat (map sent_input ?acts))"
    using chunks_in_prefix [OF assms(3) client_messages_one_chunk] by (simp add: client_message_chunks)
  also have "prefix \<dots> (concat (map typed (xs_rounds s)))"
    using cli_loop_sent [of "xs_rounds s" ce False 1] by (auto simp: prefix_def)
  also have "prefix \<dots> (xs_typed s)" using inv by (simp add: exec_inv_def)
  finally show ?thesis .
qed

lemma taken_all:
  assumes "exec_states ce s" and "reader_states initSize g"
    and "rd_requests g = client_messages ce s" "in_flight (rd_loop g) = []" "xs_main s = Select" "typed_in_flight (xs_in s) = []"
  shows "chunks_out (rd_reads g) @ xs_dropped s = xs_typed s"
proof -
  have inv: "exec_inv ce s" using client_run.inv_reachable [OF assms(1)] by simp
  let ?acts = "fst (cli_loop ce False 1 (xs_rounds s))"
  have "chunks_out (rd_reads g) = chunks_in (client_messages ce s)"
    using stdin_stream.inv_reachable [OF assms(2)] by (simp add: stdin_inv_def assms(3,4))
  also have "\<dots> = concat (map sent_input ?acts)"
    using client_messages_one_chunk [of ce s] client_message_chunks [of ce s]
    by (simp add: chunks_in_def list_all_iff takeWhile_eq_all_conv [THEN iffD2])
  also have "\<dots> = concat (map typed (xs_rounds s))"
    using cli_loop_going [of ce False 1 "xs_rounds s"] exec_inv_selecting(3) [OF inv assms(5)] by (simp add: exec_result_def)
  finally show ?thesis using inv assms(6) by (simp add: exec_inv_def)
qed

lemma printed_prefix:
  assumes "exec_states ce s" and "prefix (xs_responses s) (gate_messages paint lines written)"
  shows "prefix (concat (map printed (fst (cli_loop ce False 1 (xs_rounds s))))) (filter (\<lambda>p. p \<noteq> []) written)
    \<and> prefix (xs_direct s) (gate_lines (map (progress_message paint) lines))"
proof
  have inv: "exec_inv ce s" using client_run.inv_reachable [OF assms(1)] by simp
  have "prefix (concat (map printed (fst (cli_loop ce False 1 (xs_rounds s))))) (concat (map outs (xs_rounds s)))"
    using cli_loop_printed [of "xs_rounds s" ce False 1] by (auto simp: prefix_def)
  also have "prefix \<dots> (raw_outputs (xs_responses s))" using inv by (simp add: exec_inv_def)
  also have "prefix \<dots> (filter (\<lambda>p. p \<noteq> []) written)"
    using outputs_prefix(1) [OF assms(2)] by (simp add: raw_gate_messages)
  finally show "prefix (concat (map printed (fst (cli_loop ce False 1 (xs_rounds s))))) (filter (\<lambda>p. p \<noteq> []) written)" .
  show "prefix (xs_direct s) (gate_lines (map (progress_message paint) lines))"
    using inv outputs_prefix(2) [OF assms(2)] by (simp add: exec_inv_def lines_gate_messages)
qed

lemma printed_all:
  assumes "exec_states ce s" and "xs_responses s = gate_messages paint lines written"
    and "xs_main s = Select \<and> raw_in_flight (xs_out s) = [] \<or> xs_out s \<in> {OutClose, OutOver}"
  shows "concat (map printed (fst (cli_loop ce False 1 (xs_rounds s)))) = filter (\<lambda>p. p \<noteq> []) written
    \<and> xs_direct s = gate_lines (map (progress_message paint) lines)"
proof
  let ?acts = "fst (cli_loop ce False 1 (xs_rounds s))"
  have inv: "exec_inv ce s" using client_run.inv_reachable [OF assms(1)] by simp
  have "concat (map printed ?acts) = concat (map outs (xs_rounds s))" if "xs_main s = Select"
    using cli_loop_going [of ce False 1 "xs_rounds s"] exec_inv_selecting(3) [OF inv that] by (simp add: exec_result_def)
  then have "raw_outputs (xs_responses s) = concat (map printed ?acts)"
    using assms(3) inv remote_end_printed [OF inv] by (auto simp: exec_inv_def)
  then show "concat (map printed ?acts) = filter (\<lambda>p. p \<noteq> []) written" by (simp add: assms(2) raw_gate_messages)
  show "xs_direct s = gate_lines (map (progress_message paint) lines)"
    using inv by (simp add: exec_inv_def assms(2) lines_gate_messages)
qed

text \<open>
  C12. A shell is transparent. At any moment of a session, in every interleaving at both ends, and for whatever the stream has delivered of what was
  sent: the chunks that the command was given by its reads are among those that standard input gave to the client, in their order; and when the command reads with buffers of at
  least 1024 bytes, the size of the client's own, no read fails for a short buffer, and what it was given is a prefix. What the client has printed is
  a prefix of what the command has written, empty writes apart, and the lines of the gate that it has printed are a prefix of those that the
  gate reported. Nothing is held back either: when all that was sent was delivered and nothing is in flight, a command with such buffers was given everything but what
  the client has dropped, a chunk that came together with an error; and the client has printed everything, as soon as nothing is in flight or the remote side
  has ended the session.
\<close>

theorem shell_is_transparent:
  assumes "exec_states ce s" and "reader_states initSize g"
    and "prefix (rd_requests g) (client_messages ce s)"
    and "prefix (xs_responses s) (gate_messages paint lines written)"
  shows "subseq (copied (rd_results g)) (xs_typed s)
    \<and> ((\<forall>(len_p, chunk) \<in> set (rd_reads g). 1024 \<le> len_p) \<longrightarrow>
         prefix (copied (rd_results g)) (xs_typed s) \<and> ErrShortBuffer \<notin> set (rd_results g)
       \<and> (rd_requests g = client_messages ce s \<longrightarrow> in_flight (rd_loop g) = [] \<longrightarrow> xs_main s = Select \<longrightarrow> typed_in_flight (xs_in s) = [] \<longrightarrow>
            copied (rd_results g) @ xs_dropped s = xs_typed s))
    \<and> prefix (concat (map printed (fst (cli_loop ce False 1 (xs_rounds s))))) (filter (\<lambda>p. p \<noteq> []) written)
    \<and> prefix (xs_direct s) (gate_lines (map (progress_message paint) lines))
    \<and> (xs_responses s = gate_messages paint lines written \<longrightarrow>
         xs_main s = Select \<and> raw_in_flight (xs_out s) = [] \<or> xs_out s \<in> {OutClose, OutOver} \<longrightarrow>
         concat (map printed (fst (cli_loop ce False 1 (xs_rounds s)))) = filter (\<lambda>p. p \<noteq> []) written
       \<and> xs_direct s = gate_lines (map (progress_message paint) lines))"
proof -
  have results: "rd_results g = map (\<lambda>(len_p, chunk). reader_Read len_p chunk) (rd_reads g)"
    using read_results.inv_reachable [OF assms(2)] by (simp add: results_inv_def)
  note taken = taken_prefix [OF assms(1-3)]
  have "small_inv s" using client_run.inv_reachable [OF assms(1)] by simp
  with taken have small: "\<forall>c \<in> set (chunks_out (rd_reads g)). length c \<le> 1024"
    by (auto simp: small_inv_def list_all_iff prefix_def)
  have "copied (rd_results g) = chunks_out (rd_reads g) \<and> ErrShortBuffer \<notin> set (rd_results g)"
    if "\<forall>(len_p, chunk) \<in> set (rd_reads g). 1024 \<le> len_p"
    unfolding results by (rule copied_large [OF that small])
  moreover have "subseq (copied (rd_results g)) (xs_typed s)"
    unfolding results by (rule subseq_prefix [OF copied_subseq taken])
  ultimately show ?thesis
    using taken taken_all [OF assms(1,2)] printed_prefix [OF assms(1,4)] printed_all [OF assms(1), of paint lines written] by metis
qed

lemma echoing_messages:
  "\<exists>s. run_events (exec_step sample_cli) echoing started_exec = Some s
     \<and> client_messages sample_cli s = [typed_request ''ls'']
     \<and> xs_responses s = [\<lparr>so_Output = ''wait'', so_Raw = False\<rparr>, write_message ''ls'', write_message ''bin'']
     \<and> xs_typed s = [''ls'']"
  by (simp add: echoing_def exec_ops started_exec_def sample_cli_def remote_error_def client_messages_def typed_request_def
      write_message_def)

definition one_read :: "reader_event list" where
  "one_read = [Loop (Inl EOF), Loop (Inl EOF), ReadCall 1024, Loop (Inr (typed_request ''ls'')), ReadReturn]"

lemma one_read_runs: "\<exists>g. run_events reader_step one_read (started_reader None) = Some g
    \<and> rd_requests g = [typed_request ''ls''] \<and> rd_reads g = [(1024, Some ''ls'')] \<and> in_flight (rd_loop g) = []
    \<and> rd_results g = [Copied ''ls'']"
  by (simp add: one_read_def reader_ops started_reader_def size_list_def typed_request_def reader_Read_def)

lemma shell_is_transparent_witness:
  "\<exists>s g. run_events (exec_step sample_cli) echoing started_exec = Some s
     \<and> run_events reader_step one_read (started_reader None) = Some g
     \<and> prefix (copied (rd_results g)) (xs_typed s) \<and> copied (rd_results g) = [''ls'']
     \<and> prefix (concat (map printed (fst (cli_loop sample_cli False 1 (xs_rounds s))))) [''ls'', ''bin'']"
proof -
  obtain s where s: "run_events (exec_step sample_cli) echoing started_exec = Some s"
    "client_messages sample_cli s = [typed_request ''ls'']"
    "xs_responses s = [\<lparr>so_Output = ''wait'', so_Raw = False\<rparr>, write_message ''ls'', write_message ''bin'']"
    using echoing_messages by blast
  obtain g where g: "run_events reader_step one_read (started_reader None) = Some g"
    "rd_requests g = [typed_request ''ls'']" "rd_reads g = [(1024, Some ''ls'')]" "rd_results g = [Copied ''ls'']"
    using one_read_runs by blast
  have "prefix (xs_responses s) (gate_messages (\<lambda>t. ''wait'') [''preparing Pods...''] [''ls'', ''bin''])"
    by (simp add: s gate_messages_def progress_message_def Let_def)
  from shell_is_transparent [OF run_events_reachable [OF s(1) refl] run_events_reachable [OF g(1) refl] _ this] s g
  show ?thesis by (auto simp: copied_def)
qed

text \<open>A chunk that does not fit is taken and lost.\<close>

lemma short_buffer_loses:
  "\<exists>g. run_events reader_step [Loop (Inl EOF), Loop (Inl EOF), ReadCall 1, Loop (Inr (typed_request ''ls'')), ReadReturn] (started_reader None) = Some g
    \<and> rd_results g = [ErrShortBuffer] \<and> copied (rd_results g) = [] \<and> in_flight (rd_loop g) = []"
  by (simp add: reader_ops started_reader_def size_list_def typed_request_def reader_Read_def copied_def)

end
