(* ===== verification/Descriptor.thy ===== *)
theory Descriptor
  imports Messages
begin

text \<open>
  The descriptor in pkg/session/rpc.pb.go against the Go types beside it and against pkg/session/rpc.proto. \<open>decode_file\<close> reads the wire
  format of protobuf, as it is documented, as far as the descriptor of a file uses it.
\<close>

section \<open>The wire format\<close>

datatype wire_value = Varint nat | Bytes "nat list"

fun varint :: "nat list \<Rightarrow> (nat \<times> nat list) option" where
  "varint [] = None"
| "varint (b # bs) =
     (if b < 128 then Some (b, bs)
      else case varint bs of None \<Rightarrow> None | Some (v, rest) \<Rightarrow> Some (b - 128 + 128 * v, rest))"

text \<open>The fields of a message with their numbers. The first argument bounds the number of fields; there are no more than bytes.\<close>

fun wire_fields :: "nat list \<Rightarrow> nat list \<Rightarrow> (nat \<times> wire_value) list option" where
  "wire_fields fuel [] = Some []"
| "wire_fields [] (b # bs) = None"
| "wire_fields (x # fuel) (b # bs) =
     (case varint (b # bs) of
        None \<Rightarrow> None
      | Some (tag, bs) \<Rightarrow>
          (case varint bs of
             None \<Rightarrow> None
           | Some (v, bs) \<Rightarrow>
               if tag mod 8 = 0 then map_option (Cons (tag div 8, Varint v)) (wire_fields fuel bs)
               else if tag mod 8 = 2 \<and> v \<le> length bs
               then map_option (Cons (tag div 8, Bytes (take v bs))) (wire_fields fuel (drop v bs))
               else None))"

definition text_of :: "nat \<Rightarrow> (nat \<times> wire_value) list \<Rightarrow> string" where
  "text_of n fs = concat (map (\<lambda>(m, v). case v of Bytes b \<Rightarrow> if m = n then map char_of b else [] | Varint i \<Rightarrow> []) fs)"

definition number_of :: "nat \<Rightarrow> (nat \<times> wire_value) list \<Rightarrow> nat" where
  "number_of n fs = sum_list (map (\<lambda>(m, v). case v of Varint i \<Rightarrow> if m = n then i else 0 | Bytes b \<Rightarrow> 0) fs)"

definition parts_of :: "nat \<Rightarrow> (nat \<times> wire_value) list \<Rightarrow> nat list list" where
  "parts_of n fs = concat (map (\<lambda>(m, v). case v of Bytes b \<Rightarrow> if m = n then [b] else [] | Varint i \<Rightarrow> []) fs)"

fun sequence :: "'a option list \<Rightarrow> 'a list option" where
  "sequence [] = Some []"
| "sequence (x # xs) = (case x of None \<Rightarrow> None | Some a \<Rightarrow> map_option (Cons a) (sequence xs))"

definition decode_parts :: "((nat \<times> wire_value) list \<Rightarrow> 'a) \<Rightarrow> nat \<Rightarrow> (nat \<times> wire_value) list \<Rightarrow> 'a list option" where
  "decode_parts f n fs = sequence (map (\<lambda>b. map_option f (wire_fields b b)) (parts_of n fs))"

section \<open>Descriptors\<close>

text \<open>What \<open>descriptor.proto\<close> calls \<open>FieldDescriptorProto\<close>, \<open>DescriptorProto\<close>, \<open>MethodDescriptorProto\<close> and so on.\<close>

record field_desc =
  fd_name :: string
  fd_number :: nat
  fd_label :: nat
  fd_type :: nat
  fd_type_name :: string

record method_desc =
  md_name :: string
  md_input :: string
  md_output :: string
  md_client_streaming :: bool
  md_server_streaming :: bool

record file_desc =
  fl_name :: string
  fl_package :: string
  fl_messages :: "(string \<times> field_desc list) list"
  fl_services :: "(string \<times> method_desc list) list"
  fl_syntax :: string

definition decode_field :: "(nat \<times> wire_value) list \<Rightarrow> field_desc" where
  "decode_field fs = \<lparr>fd_name = text_of 1 fs, fd_number = number_of 3 fs, fd_label = number_of 4 fs,
     fd_type = number_of 5 fs, fd_type_name = text_of 6 fs\<rparr>"

definition decode_method :: "(nat \<times> wire_value) list \<Rightarrow> method_desc" where
  "decode_method fs = \<lparr>md_name = text_of 1 fs, md_input = text_of 2 fs, md_output = text_of 3 fs,
     md_client_streaming = (number_of 5 fs = 1), md_server_streaming = (number_of 6 fs = 1)\<rparr>"

definition decode_group :: "((nat \<times> wire_value) list \<Rightarrow> 'a) \<Rightarrow> nat list \<Rightarrow> (string \<times> 'a list) option" where
  "decode_group f b =
     (case wire_fields b b of
        None \<Rightarrow> None
      | Some fs \<Rightarrow> map_option (\<lambda>parts. (text_of 1 fs, parts)) (decode_parts f 2 fs))"

definition decode_file :: "nat list \<Rightarrow> file_desc option" where
  "decode_file b =
     (case wire_fields b b of
        None \<Rightarrow> None
      | Some fs \<Rightarrow>
          (case (sequence (map (decode_group decode_field) (parts_of 4 fs)),
                 sequence (map (decode_group decode_method) (parts_of 6 fs))) of
             (Some messages, Some services) \<Rightarrow>
               Some \<lparr>fl_name = text_of 1 fs, fl_package = text_of 2 fs, fl_messages = messages, fl_services = services,
                 fl_syntax = text_of 12 fs\<rparr>
           | _ \<Rightarrow> None))"

section \<open>rpc.proto\<close>

datatype proto_type = PString | PUint32 | PBytes | PBool | PMessage string

text \<open>The declarations of the messages: name, number, whether repeated, and type of each field.\<close>

definition proto_messages :: "(string \<times> (string \<times> nat \<times> bool \<times> proto_type) list) list" where
  "proto_messages =
     [(''App'', [(''name'', 1, False, PString), (''namespace'', 2, False, PString)]),
      (''TerminalSize'', [(''Width'', 1, False, PUint32), (''Height'', 2, False, PUint32)]),
      (''StdIn'', [(''App'', 1, False, PMessage ''App''), (''Input'', 2, True, PString),
         (''TerminalSize'', 3, False, PMessage ''TerminalSize'')]),
      (''StdOut'', [(''Output'', 1, False, PBytes), (''Raw'', 2, False, PBool)])]"

text \<open>The service: its method with the types of request and response.\<close>

definition proto_service :: "string \<times> string \<times> string \<times> string" where
  "proto_service = (''AppGate'', ''OpenShell'', ''StdIn'', ''StdOut'')"

section \<open>The Go structs\<close>

text \<open>A field of a struct: its Go name and type, and the wire type, number, label and name in its tag.\<close>

datatype go_type = GoString | GoUint32 | GoByteSlice | GoBool | GoStrings | GoPointer string

record struct_field =
  sf_GoName :: string
  sf_GoType :: go_type
  sf_wire :: string
  sf_number :: nat
  sf_label :: string
  sf_name :: string

definition App_struct :: "struct_field list" where
  "App_struct =
     [\<lparr>sf_GoName = ''Name'', sf_GoType = GoString, sf_wire = ''bytes'', sf_number = 1, sf_label = ''opt'', sf_name = ''name''\<rparr>,
      \<lparr>sf_GoName = ''Namespace'', sf_GoType = GoString, sf_wire = ''bytes'', sf_number = 2, sf_label = ''opt'', sf_name = ''namespace''\<rparr>]"

definition TerminalSize_struct :: "struct_field list" where
  "TerminalSize_struct =
     [\<lparr>sf_GoName = ''Width'', sf_GoType = GoUint32, sf_wire = ''varint'', sf_number = 1, sf_label = ''opt'', sf_name = ''Width''\<rparr>,
      \<lparr>sf_GoName = ''Height'', sf_GoType = GoUint32, sf_wire = ''varint'', sf_number = 2, sf_label = ''opt'', sf_name = ''Height''\<rparr>]"

definition StdIn_struct :: "struct_field list" where
  "StdIn_struct =
     [\<lparr>sf_GoName = ''App'', sf_GoType = GoPointer ''App'', sf_wire = ''bytes'', sf_number = 1, sf_label = ''opt'', sf_name = ''App''\<rparr>,
      \<lparr>sf_GoName = ''Input'', sf_GoType = GoStrings, sf_wire = ''bytes'', sf_number = 2, sf_label = ''rep'', sf_name = ''Input''\<rparr>,
      \<lparr>sf_GoName = ''TerminalSize'', sf_GoType = GoPointer ''TerminalSize'', sf_wire = ''bytes'', sf_number = 3,
        sf_label = ''opt'', sf_name = ''TerminalSize''\<rparr>]"

definition StdOut_struct :: "struct_field list" where
  "StdOut_struct =
     [\<lparr>sf_GoName = ''Output'', sf_GoType = GoByteSlice, sf_wire = ''bytes'', sf_number = 1, sf_label = ''opt'', sf_name = ''Output''\<rparr>,
      \<lparr>sf_GoName = ''Raw'', sf_GoType = GoBool, sf_wire = ''varint'', sf_number = 2, sf_label = ''opt'', sf_name = ''Raw''\<rparr>]"

section \<open>What a field of the descriptor means\<close>

text \<open>The types and labels of fields, by their numbers in \<open>descriptor.proto\<close>; a type name is qualified by \<open>.session.\<close>\<close>

definition proto_type_of :: "field_desc \<Rightarrow> proto_type" where
  "proto_type_of fd =
     (if fd_type fd = 9 then PString else if fd_type fd = 13 then PUint32 else if fd_type fd = 12 then PBytes
      else if fd_type fd = 8 then PBool else PMessage (drop (length ''.session.'') (fd_type_name fd)))"

definition proto_field :: "field_desc \<Rightarrow> string \<times> nat \<times> bool \<times> proto_type" where
  "proto_field fd = (fd_name fd, fd_number fd, fd_label fd = 3, proto_type_of fd)"

text \<open>The field of a Go struct that stands for it: an exported name, and the Go type of the proto type.\<close>

definition exported :: "string \<Rightarrow> string" where
  "exported s = (case s of [] \<Rightarrow> [] | c # cs \<Rightarrow>
     (if 97 \<le> (of_char c :: nat) \<and> (of_char c :: nat) \<le> 122 then char_of ((of_char c :: nat) - 32) else c) # cs)"

definition go_type_of :: "field_desc \<Rightarrow> go_type" where
  "go_type_of fd =
     (case proto_type_of fd of
        PString \<Rightarrow> if fd_label fd = 3 then GoStrings else GoString
      | PUint32 \<Rightarrow> GoUint32 | PBytes \<Rightarrow> GoByteSlice | PBool \<Rightarrow> GoBool | PMessage m \<Rightarrow> GoPointer m)"

definition struct_field_of :: "field_desc \<Rightarrow> struct_field" where
  "struct_field_of fd =
     \<lparr>sf_GoName = exported (fd_name fd), sf_GoType = go_type_of fd,
      sf_wire = (if proto_type_of fd = PUint32 \<or> proto_type_of fd = PBool then ''varint'' else ''bytes''),
      sf_number = fd_number fd, sf_label = (if fd_label fd = 3 then ''rep'' else ''opt''), sf_name = fd_name fd\<rparr>"

text \<open>The types that fields and methods refer to, in the order in which the type builder resolves them.\<close>

definition references :: "file_desc \<Rightarrow> string list" where
  "references f =
     filter (\<lambda>n. n \<noteq> []) (map fd_type_name (concat (map snd (fl_messages f))))
   @ map md_input (concat (map snd (fl_services f))) @ map md_output (concat (map snd (fl_services f)))"

section \<open>Properties\<close>

lemma decode_rawDesc:
  "decode_file rawDesc = Some \<lparr>fl_name = ''rpc.proto'', fl_package = ''session'',
     fl_messages =
       [(''App'', [\<lparr>fd_name = ''name'', fd_number = 1, fd_label = 1, fd_type = 9, fd_type_name = []\<rparr>,
          \<lparr>fd_name = ''namespace'', fd_number = 2, fd_label = 1, fd_type = 9, fd_type_name = []\<rparr>]),
        (''TerminalSize'', [\<lparr>fd_name = ''Width'', fd_number = 1, fd_label = 1, fd_type = 13, fd_type_name = []\<rparr>,
          \<lparr>fd_name = ''Height'', fd_number = 2, fd_label = 1, fd_type = 13, fd_type_name = []\<rparr>]),
        (''StdIn'', [\<lparr>fd_name = ''App'', fd_number = 1, fd_label = 1, fd_type = 11, fd_type_name = ''.session.App''\<rparr>,
          \<lparr>fd_name = ''Input'', fd_number = 2, fd_label = 3, fd_type = 9, fd_type_name = []\<rparr>,
          \<lparr>fd_name = ''TerminalSize'', fd_number = 3, fd_label = 1, fd_type = 11, fd_type_name = ''.session.TerminalSize''\<rparr>]),
        (''StdOut'', [\<lparr>fd_name = ''Output'', fd_number = 1, fd_label = 1, fd_type = 12, fd_type_name = []\<rparr>,
          \<lparr>fd_name = ''Raw'', fd_number = 2, fd_label = 1, fd_type = 8, fd_type_name = []\<rparr>])],
     fl_services = [(''AppGate'', [\<lparr>md_name = ''OpenShell'', md_input = ''.session.StdIn'', md_output = ''.session.StdOut'',
        md_client_streaming = True, md_server_streaming = True\<rparr>])],
     fl_syntax = ''proto3''\<rparr>"
  by (simp add: decode_file_def rawDesc_def text_of_def number_of_def parts_of_def decode_group_def decode_parts_def
      decode_field_def decode_method_def char_of_def bit_0)

text \<open>
  The descriptor in the generated code fits the code around it. It decodes, and the messages it describes are those that rpc.proto declares,
  with the names, numbers, labels and types of the fields; they are those of the Go structs and of the tags of their fields.
  The four types come in the order of the Go types, and each reference of the descriptor resolves, by the indices, to the type it names. Its one method
  is that of the service that the gate registers, a stream in both directions, and the path that the client calls.
\<close>

theorem descriptor_fits:
  "\<exists>f service. decode_file rawDesc = Some f \<and> fl_services f = [service]
    \<and> map (\<lambda>(m, fds). (m, map proto_field fds)) (fl_messages f) = proto_messages
    \<and> map (\<lambda>(m, fds). map struct_field_of fds) (fl_messages f) = [App_struct, TerminalSize_struct, StdIn_struct, StdOut_struct]
    \<and> map (\<lambda>(m, fds). fl_package f @ ''.'' @ m) (fl_messages f) = goTypes
    \<and> references f = map (\<lambda>i. ''.'' @ goTypes ! i) (take (length (references f)) depIdxs)
    \<and> svd_ServiceName AppGate_serviceDesc = fl_package f @ ''.'' @ fst service
    \<and> svd_Metadata AppGate_serviceDesc = fl_name f
    \<and> map (\<lambda>md. (md_name md, md_server_streaming md, md_client_streaming md)) (snd service)
        = map (\<lambda>sd. (sd_StreamName sd, sd_ServerStreams sd, sd_ClientStreams sd)) (svd_Streams AppGate_serviceDesc)
    \<and> map (\<lambda>md. (fst service, md_name md, drop (length ''.session.'') (md_input md), drop (length ''.session.'') (md_output md)))
        (snd service) = [proto_service]
    \<and> (\<forall>newStream. AppGateClient_OpenShell newStream = newStream (hd (svd_Streams AppGate_serviceDesc))
          (''/'' @ svd_ServiceName AppGate_serviceDesc @ ''/'' @ md_name (hd (snd service))))"
  unfolding decode_rawDesc
  by (simp add: proto_field_def proto_type_of_def proto_messages_def struct_field_of_def go_type_of_def exported_def char_of_def bit_0
      App_struct_def TerminalSize_struct_def StdIn_struct_def StdOut_struct_def goTypes_def depIdxs_def references_def
      AppGate_serviceDesc_def proto_service_def AppGateClient_OpenShell_def split: sum.splits)

end
