(* ===== verification/Client.thy ===== *)
theory Client
  imports Complex_Main Cluster
begin

text \<open>
  pkg/clientset/versioned: the client of the CliApp API. From a configuration to the clientset (clientset.go,
  typed/cliapp/v1/cliapp_client.go), and from a method to the request it sends (typed/cliapp/v1/cliapp.go). How client-go
  sends a request is not part of the repository: a request is the data it is built from.
\<close>

section \<open>The clientset\<close>

text \<open>
  \<open>rest.Config\<close>, as far as the code reads or writes it. A rate limiter is the token bucket it was made from, or one that the
  caller brought, by a number. \<open>QPS\<close>, a \<open>float32\<close>, is a rational number.
\<close>

datatype limiter = TokenBucket rat int | OwnLimiter nat

record rest_config =
  rc_QPS :: rat
  rc_Burst :: int
  rc_RateLimiter :: "limiter option"
  rc_GroupVersion :: "(string \<times> string) option"
  rc_APIPath :: string
  rc_NegotiatedSerializer :: "string option"
  rc_UserAgent :: string

text \<open>A REST client is made from a configuration, or it is the caller's. \<open>CliappV1Client\<close> wraps one.\<close>

datatype rest_client = RESTClientFor rest_config | OwnClient nat

record CliappV1Client =
  restClient :: rest_client

record Clientset =
  cs_DiscoveryClient :: rest_client
  cs_cliappV1 :: CliappV1Client

text \<open>
  What the code calls of client-go: whether \<open>rest.RESTClientFor\<close> and \<open>discovery.NewDiscoveryClientForConfig\<close> fail, and
  \<open>rest.DefaultKubernetesUserAgent()\<close>.
\<close>

record rest_lib =
  rl_RESTClientFor :: "rest_config \<Rightarrow> goerror option"
  rl_NewDiscoveryClient :: "rest_config \<Rightarrow> goerror option"
  rl_DefaultUserAgent :: string

definition GroupVersion :: "string \<times> string" where
  "GroupVersion = (''core.cliapp.warm-metal.tech'', ''v1'')"

text \<open>\<open>Kind\<close> and \<open>Resource\<close> of register.go: the name, qualified by the group.\<close>

definition SchemeGroupVersion :: "string \<times> string" where
  "SchemeGroupVersion = GroupVersion"

definition ApiKind :: "string \<Rightarrow> string \<times> string" where
  "ApiKind kind = (fst SchemeGroupVersion, kind)"

definition ApiResource :: "string \<Rightarrow> string \<times> string" where
  "ApiResource resource = (fst SchemeGroupVersion, resource)"

definition setConfigDefaults :: "rest_lib \<Rightarrow> rest_config \<Rightarrow> rest_config" where
  "setConfigDefaults lib config =
     (let config = config\<lparr>rc_GroupVersion := Some GroupVersion, rc_APIPath := ''/apis'',
        rc_NegotiatedSerializer := Some ''scheme.Codecs.WithoutConversion''\<rparr>
      in if rc_UserAgent config = [] then config\<lparr>rc_UserAgent := rl_DefaultUserAgent lib\<rparr> else config)"

definition cliappv1_NewForConfig :: "rest_lib \<Rightarrow> rest_config \<Rightarrow> goerror + CliappV1Client" where
  "cliappv1_NewForConfig lib c =
     (let config = setConfigDefaults lib c
      in case rl_RESTClientFor lib config of
           Some err \<Rightarrow> Inl err
         | None \<Rightarrow> Inr \<lparr>restClient = RESTClientFor config\<rparr>)"

definition cliappv1_NewForConfigOrDie :: "rest_lib \<Rightarrow> rest_config \<Rightarrow> CliappV1Client outcome" where
  "cliappv1_NewForConfigOrDie lib c =
     (case cliappv1_NewForConfig lib c of Inl err \<Rightarrow> Panic (ErrorText err) | Inr client \<Rightarrow> Done client)"

definition cliappv1_New :: "rest_client \<Rightarrow> CliappV1Client" where
  "cliappv1_New c = \<lparr>restClient = c\<rparr>"

definition cliappv1_RESTClient :: "CliappV1Client option \<Rightarrow> rest_client option" where
  "cliappv1_RESTClient c = (case c of None \<Rightarrow> None | Some c \<Rightarrow> Some (restClient c))"

definition NewForConfig :: "rest_lib \<Rightarrow> rest_config \<Rightarrow> goerror + Clientset" where
  "NewForConfig lib c =
     (if rc_RateLimiter c = None \<and> rc_QPS c > 0 \<and> rc_Burst c \<le> 0 then
        Inl (Errorf ''burst is required to be greater than 0 when RateLimiter is not set and QPS is set to greater than 0'')
      else
        let config = (if rc_RateLimiter c = None \<and> rc_QPS c > 0
              then c\<lparr>rc_RateLimiter := Some (TokenBucket (rc_QPS c) (rc_Burst c))\<rparr> else c)
        in case cliappv1_NewForConfig lib config of
             Inl err \<Rightarrow> Inl err
           | Inr cliappV1 \<Rightarrow>
               (case rl_NewDiscoveryClient lib config of
                  Some err \<Rightarrow> Inl err
                | None \<Rightarrow> Inr \<lparr>cs_DiscoveryClient = RESTClientFor config, cs_cliappV1 = cliappV1\<rparr>))"

text \<open>\<open>discovery.NewDiscoveryClientForConfigOrDie\<close> panics with the error that \<open>NewDiscoveryClientForConfig\<close> returns.\<close>

definition NewForConfigOrDie :: "rest_lib \<Rightarrow> rest_config \<Rightarrow> Clientset outcome" where
  "NewForConfigOrDie lib c =
     (case cliappv1_NewForConfigOrDie lib c of
        Panic p \<Rightarrow> Panic p
      | Done client \<Rightarrow>
          (case rl_NewDiscoveryClient lib c of
             Some err \<Rightarrow> Panic (ErrorText err)
           | None \<Rightarrow> Done \<lparr>cs_DiscoveryClient = RESTClientFor c, cs_cliappV1 = client\<rparr>))"

definition Clientset_New :: "rest_client \<Rightarrow> Clientset" where
  "Clientset_New c = \<lparr>cs_DiscoveryClient = c, cs_cliappV1 = cliappv1_New c\<rparr>"

text \<open>The methods of a clientset that may be nil: \<open>CliappV1\<close> reads through the pointer, \<open>Discovery\<close> looks first.\<close>

definition Clientset_CliappV1 :: "Clientset option \<Rightarrow> CliappV1Client outcome" where
  "Clientset_CliappV1 c = (case c of None \<Rightarrow> Panic ''nil pointer dereference'' | Some c \<Rightarrow> Done (cs_cliappV1 c))"

definition Clientset_Discovery :: "Clientset option \<Rightarrow> rest_client option" where
  "Clientset_Discovery c = (case c of None \<Rightarrow> None | Some c \<Rightarrow> Some (cs_DiscoveryClient c))"

section \<open>Requests\<close>

text \<open>\<open>metav1.ListOptions\<close>: the selectors, whether to watch, and the timeout in seconds, an \<open>int64\<close>.\<close>

record ListOptions =
  lo_LabelSelector :: string
  lo_FieldSelector :: string
  lo_Watch :: bool
  lo_ResourceVersion :: string
  lo_TimeoutSeconds :: "64 word option"

text \<open>
  A method's other options are passed on as they are. \<open>rq_params\<close> is what \<open>VersionedParams\<close> was given, \<open>rq_timeout\<close> what
  \<open>Timeout\<close> was given.
\<close>

datatype verb = GET | POST | PUT | DELETE | PATCH string

datatype params = NoParams | Params string | ListParams ListOptions

datatype body = NoBody | AppBody CliApp | OptionsBody string | DataBody string

record request =
  rq_verb :: verb
  rq_namespace :: string
  rq_resource :: string
  rq_name :: "string option"
  rq_subresource :: "string list"
  rq_params :: params
  rq_timeout :: "dur option"
  rq_body :: body

record cliApps =
  ca_client :: "rest_client option"
  ca_ns :: string

definition newCliApps :: "CliappV1Client option \<Rightarrow> string \<Rightarrow> cliApps" where
  "newCliApps c namespace = \<lparr>ca_client = cliappv1_RESTClient c, ca_ns = namespace\<rparr>"

text \<open>What all methods begin with: the verb, the namespace of the client and the resource.\<close>

definition cliapps_request :: "verb \<Rightarrow> cliApps \<Rightarrow> request" where
  "cliapps_request v c =
     \<lparr>rq_verb = v, rq_namespace = ca_ns c, rq_resource = ''cliapps'', rq_name = None, rq_subresource = [],
      rq_params = NoParams, rq_timeout = None, rq_body = NoBody\<rparr>"

definition list_timeout :: "ListOptions \<Rightarrow> dur" where
  "list_timeout opts = (case lo_TimeoutSeconds opts of None \<Rightarrow> 0 | Some s \<Rightarrow> s * Second)"

definition cliApps_Get :: "cliApps \<Rightarrow> string \<Rightarrow> string \<Rightarrow> request" where
  "cliApps_Get c name options = (cliapps_request GET c)\<lparr>rq_name := Some name, rq_params := Params options\<rparr>"

definition cliApps_List :: "cliApps \<Rightarrow> ListOptions \<Rightarrow> request" where
  "cliApps_List c opts =
     (cliapps_request GET c)\<lparr>rq_params := ListParams opts, rq_timeout := Some (list_timeout opts)\<rparr>"

definition cliApps_Watch :: "cliApps \<Rightarrow> ListOptions \<Rightarrow> request" where
  "cliApps_Watch c opts =
     (let timeout = list_timeout opts; opts = opts\<lparr>lo_Watch := True\<rparr>
      in (cliapps_request GET c)\<lparr>rq_params := ListParams opts, rq_timeout := Some timeout\<rparr>)"

definition cliApps_Create :: "cliApps \<Rightarrow> CliApp \<Rightarrow> string \<Rightarrow> request" where
  "cliApps_Create c app opts = (cliapps_request POST c)\<lparr>rq_params := Params opts, rq_body := AppBody app\<rparr>"

definition cliApps_Update :: "cliApps \<Rightarrow> CliApp \<Rightarrow> string \<Rightarrow> request" where
  "cliApps_Update c app opts =
     (cliapps_request PUT c)\<lparr>rq_name := Some (app_Name app), rq_params := Params opts, rq_body := AppBody app\<rparr>"

definition cliApps_UpdateStatus :: "cliApps \<Rightarrow> CliApp \<Rightarrow> string \<Rightarrow> request" where
  "cliApps_UpdateStatus c app opts =
     (cliapps_request PUT c)\<lparr>rq_name := Some (app_Name app), rq_subresource := [''status''],
        rq_params := Params opts, rq_body := AppBody app\<rparr>"

definition cliApps_Delete :: "cliApps \<Rightarrow> string \<Rightarrow> string \<Rightarrow> request" where
  "cliApps_Delete c name opts = (cliapps_request DELETE c)\<lparr>rq_name := Some name, rq_body := OptionsBody opts\<rparr>"

definition cliApps_DeleteCollection :: "cliApps \<Rightarrow> string \<Rightarrow> ListOptions \<Rightarrow> request" where
  "cliApps_DeleteCollection c opts listOpts =
     (cliapps_request DELETE c)\<lparr>rq_params := ListParams listOpts, rq_timeout := Some (list_timeout listOpts),
        rq_body := OptionsBody opts\<rparr>"

definition cliApps_Patch :: "cliApps \<Rightarrow> string \<Rightarrow> string \<Rightarrow> string \<Rightarrow> string \<Rightarrow> string list \<Rightarrow> request" where
  "cliApps_Patch c name pt data opts subresources =
     (cliapps_request (PATCH pt) c)\<lparr>rq_name := Some name, rq_subresource := subresources,
        rq_params := Params opts, rq_body := DataBody data\<rparr>"

lemmas cliApps_defs = cliApps_Get_def cliApps_List_def cliApps_Watch_def cliApps_Create_def cliApps_Update_def
  cliApps_UpdateStatus_def cliApps_Delete_def cliApps_DeleteCollection_def cliApps_Patch_def cliapps_request_def

section \<open>Properties\<close>

lemma setConfigDefaults_fields:
  "rc_RateLimiter (setConfigDefaults lib c) = rc_RateLimiter c"
  "rc_GroupVersion (setConfigDefaults lib c) = Some GroupVersion"
  "rc_APIPath (setConfigDefaults lib c) = ''/apis''"
  "rc_UserAgent (setConfigDefaults lib c) = (if rc_UserAgent c = [] then rl_DefaultUserAgent lib else rc_UserAgent c)"
  by (simp_all add: setConfigDefaults_def Let_def)

text \<open>The configuration that a client was made from.\<close>

fun made_from :: "rest_client \<Rightarrow> rest_config option" where
  "made_from (RESTClientFor c) = Some c"
| "made_from (OwnClient n) = None"

text \<open>
  A clientset that could be made is throttled as its configuration asks: if no rate limiter is given and the rate is
  positive, then so is the burst, and the client of the group and the client for discovery share one token bucket of that rate and
  burst; otherwise both have the limiter of the configuration. The client of the group speaks to /apis and to the group and
  version of the API, under a user agent that is not empty if the default one is not.
\<close>

theorem clientset_of_config:
  assumes ok: "NewForConfig lib c = Inr cs"
  shows "\<exists>group disc. made_from (restClient (cs_cliappV1 cs)) = Some group
    \<and> made_from (cs_DiscoveryClient cs) = Some disc
    \<and> rc_RateLimiter group = rc_RateLimiter disc
    \<and> rc_RateLimiter disc =
        (if rc_RateLimiter c = None \<and> rc_QPS c > 0 then Some (TokenBucket (rc_QPS c) (rc_Burst c)) else rc_RateLimiter c)
    \<and> (rc_RateLimiter c = None \<and> rc_QPS c > 0 \<longrightarrow> rc_Burst c > 0)
    \<and> rc_APIPath group = ''/apis'' \<and> rc_GroupVersion group = Some (''core.cliapp.warm-metal.tech'', ''v1'')
    \<and> (rl_DefaultUserAgent lib \<noteq> [] \<longrightarrow> rc_UserAgent group \<noteq> [])"
proof -
  define config where "config = (if rc_RateLimiter c = None \<and> rc_QPS c > 0
    then c\<lparr>rc_RateLimiter := Some (TokenBucket (rc_QPS c) (rc_Burst c))\<rparr> else c)"
  have burst: "\<not> (rc_RateLimiter c = None \<and> rc_QPS c > 0 \<and> rc_Burst c \<le> 0)"
    and cs: "cs = \<lparr>cs_DiscoveryClient = RESTClientFor config, cs_cliappV1 = \<lparr>restClient = RESTClientFor (setConfigDefaults lib config)\<rparr>\<rparr>"
    using ok by (auto simp: NewForConfig_def cliappv1_NewForConfig_def config_def Let_def
        split: if_splits option.splits sum.splits)
  have "rc_RateLimiter config =
    (if rc_RateLimiter c = None \<and> rc_QPS c > 0 then Some (TokenBucket (rc_QPS c) (rc_Burst c)) else rc_RateLimiter c)"
    by (simp add: config_def)
  with burst show ?thesis
    by (auto simp: cs setConfigDefaults_fields GroupVersion_def not_le)
qed

definition plain_lib :: rest_lib where
  "plain_lib = \<lparr>rl_RESTClientFor = (\<lambda>c. if rc_GroupVersion c = None then Some (Errorf ''GroupVersion is required'') else None),
     rl_NewDiscoveryClient = (\<lambda>_. None), rl_DefaultUserAgent = ''session-gate''\<rparr>"

definition plain_config :: rest_config where
  "plain_config = \<lparr>rc_QPS = 5, rc_Burst = 10, rc_RateLimiter = None, rc_GroupVersion = None, rc_APIPath = [],
     rc_NegotiatedSerializer = None, rc_UserAgent = []\<rparr>"

lemma plain_clientset:
  "NewForConfig plain_lib plain_config =
     (let config = plain_config\<lparr>rc_RateLimiter := Some (TokenBucket 5 10)\<rparr>
      in Inr \<lparr>cs_DiscoveryClient = RESTClientFor config,
           cs_cliappV1 = \<lparr>restClient = RESTClientFor (setConfigDefaults plain_lib config)\<rparr>\<rparr>)"
  by (simp add: NewForConfig_def cliappv1_NewForConfig_def plain_lib_def plain_config_def setConfigDefaults_def Let_def)

theorem clientset_of_config_witness:
  "\<exists>cs group. NewForConfig plain_lib plain_config = Inr cs \<and> made_from (restClient (cs_cliappV1 cs)) = Some group
     \<and> rc_RateLimiter group = Some (TokenBucket 5 10) \<and> rc_APIPath group = ''/apis''"
proof -
  obtain cs where cs: "NewForConfig plain_lib plain_config = Inr cs"
    by (simp add: plain_clientset Let_def)
  have "rc_RateLimiter plain_config = None \<and> rc_QPS plain_config = 5 \<and> rc_Burst plain_config = 10"
    by (simp add: plain_config_def)
  with clientset_of_config [OF cs] cs show ?thesis by auto
qed

text \<open>
  The timeout of a list, a watch or a deletion is the number of seconds asked for exactly if that number of
  nanoseconds fits into a duration; beyond that it wraps, and can become negative or short.
\<close>

theorem list_timeout_exact:
  assumes "lo_TimeoutSeconds opts = Some s"
  shows "sint (list_timeout opts) = sint s * 1000000000 \<longleftrightarrow> \<bar>sint s\<bar> \<le> 9223372036"
proof -
  have t: "list_timeout opts = word_of_int (sint s * 1000000000)"
    using assms by (simp add: list_timeout_def)
  show ?thesis
  proof
    assume "sint (list_timeout opts) = sint s * 1000000000"
    with sint_dur_bounds [of "list_timeout opts"] show "\<bar>sint s\<bar> \<le> 9223372036" by simp
  next
    assume "\<bar>sint s\<bar> \<le> 9223372036"
    then show "sint (list_timeout opts) = sint s * 1000000000"
      unfolding t by (intro sint_dur_of_int) simp_all
  qed
qed

definition long_list :: ListOptions where
  "long_list = \<lparr>lo_LabelSelector = [], lo_FieldSelector = [], lo_Watch = False, lo_ResourceVersion = [],
     lo_TimeoutSeconds = Some 9223372037\<rparr>"

theorem list_timeout_exact_witness: "sint (list_timeout long_list) \<noteq> 9223372037000000000"
  using list_timeout_exact [of long_list "9223372037"] by (simp add: long_list_def)

end
