(* ===== verification/FakeClient.thy ===== *)
theory FakeClient
  imports Client KubeTypes
begin

text \<open>
  pkg/clientset/versioned/typed/cliapp/v1/fake/fake_cliapp.go: the client for tests. Each method becomes an action that client-go's
  \<open>testing.Fake\<close> is invoked with. What its reactors answer is a parameter; that the actions are those of the real client is a
  property.
\<close>

section \<open>Actions\<close>

text \<open>The actions of client-go's package testing, by their constructors.\<close>

type_synonym gvr = "string \<times> string \<times> string"

datatype action =
    GetAction gvr string string
  | ListAction gvr gvr string ListOptions
  | WatchAction gvr string ListOptions
  | CreateAction gvr string CliApp
  | UpdateAction gvr string CliApp
  | UpdateSubresourceAction gvr string string CliApp
  | DeleteAction gvr string string
  | DeleteCollectionAction gvr string ListOptions
  | PatchSubresourceAction gvr string string string string "string list"

definition cliappsResource :: gvr where
  "cliappsResource = (''cliapp'', ''v1'', ''cliapps'')"

definition cliappsKind :: gvr where
  "cliappsKind = (''cliapp'', ''v1'', ''CliApp'')"

text \<open>
  \<open>Invokes\<close> answers an action with an object, which may be nil, and an error. The methods that return an app return nil for a
  nil object.
\<close>

type_synonym 'a reaction = "'a option \<times> goerror option"

definition fake_Get :: "(action \<Rightarrow> 'a reaction) \<Rightarrow> string \<Rightarrow> string \<Rightarrow> string \<Rightarrow> 'a reaction" where
  "fake_Get invokes ns name options = invokes (GetAction cliappsResource ns name)"

text \<open>
  The items of a list come with their labels; \<open>label_of\<close> is the label selector of \<open>testing.ExtractFromListOptions\<close>.
\<close>

definition fake_List ::
  "(action \<Rightarrow> (labels \<times> CliApp) list reaction) \<Rightarrow> (ListOptions \<Rightarrow> (labels \<Rightarrow> bool) option)
     \<Rightarrow> string \<Rightarrow> ListOptions \<Rightarrow> (labels \<times> CliApp) list reaction" where
  "fake_List invokes label_of ns opts =
     (case invokes (ListAction cliappsResource cliappsKind ns opts) of
        (None, err) \<Rightarrow> (None, err)
      | (Some items, err) \<Rightarrow>
          let matches = (case label_of opts of None \<Rightarrow> (\<lambda>_. True) | Some label \<Rightarrow> label)
          in (Some (filter (\<lambda>(ls, app). matches ls) items), err))"

definition fake_Watch :: "(action \<Rightarrow> 'w) \<Rightarrow> string \<Rightarrow> ListOptions \<Rightarrow> 'w" where
  "fake_Watch invokesWatch ns opts = invokesWatch (WatchAction cliappsResource ns opts)"

definition fake_Create :: "(action \<Rightarrow> 'a reaction) \<Rightarrow> string \<Rightarrow> CliApp \<Rightarrow> string \<Rightarrow> 'a reaction" where
  "fake_Create invokes ns app opts = invokes (CreateAction cliappsResource ns app)"

definition fake_Update :: "(action \<Rightarrow> 'a reaction) \<Rightarrow> string \<Rightarrow> CliApp \<Rightarrow> string \<Rightarrow> 'a reaction" where
  "fake_Update invokes ns app opts = invokes (UpdateAction cliappsResource ns app)"

definition fake_UpdateStatus :: "(action \<Rightarrow> 'a reaction) \<Rightarrow> string \<Rightarrow> CliApp \<Rightarrow> string \<Rightarrow> 'a reaction" where
  "fake_UpdateStatus invokes ns app opts = invokes (UpdateSubresourceAction cliappsResource ''status'' ns app)"

definition fake_Delete :: "(action \<Rightarrow> 'a reaction) \<Rightarrow> string \<Rightarrow> string \<Rightarrow> string \<Rightarrow> goerror option" where
  "fake_Delete invokes ns name opts = snd (invokes (DeleteAction cliappsResource ns name))"

definition fake_DeleteCollection ::
  "(action \<Rightarrow> 'a reaction) \<Rightarrow> string \<Rightarrow> string \<Rightarrow> ListOptions \<Rightarrow> goerror option" where
  "fake_DeleteCollection invokes ns opts listOpts = snd (invokes (DeleteCollectionAction cliappsResource ns listOpts))"

definition fake_Patch ::
  "(action \<Rightarrow> 'a reaction) \<Rightarrow> string \<Rightarrow> string \<Rightarrow> string \<Rightarrow> string \<Rightarrow> string \<Rightarrow> string list \<Rightarrow> 'a reaction" where
  "fake_Patch invokes ns name pt data opts subresources =
     invokes (PatchSubresourceAction cliappsResource ns name pt data subresources)"

section \<open>What an action or a request asks for\<close>

text \<open>
  The Kubernetes API verb, the namespace, the resource, its name and its subresource. A GET without a name is a list, or a watch
  if its options say so; a DELETE without a name deletes a collection.
\<close>

record target =
  tg_verb :: string
  tg_namespace :: string
  tg_resource :: string
  tg_name :: "string option"
  tg_subresource :: "string list"

definition request_target :: "request \<Rightarrow> target" where
  "request_target rq =
     \<lparr>tg_verb = (case rq_verb rq of
          GET \<Rightarrow> (case (rq_name rq, rq_params rq) of
              (Some name, p) \<Rightarrow> ''get''
            | (None, ListParams opts) \<Rightarrow> if lo_Watch opts then ''watch'' else ''list''
            | (None, p) \<Rightarrow> ''list'')
        | POST \<Rightarrow> ''create'' | PUT \<Rightarrow> ''update''
        | DELETE \<Rightarrow> if rq_name rq = None then ''delete-collection'' else ''delete''
        | PATCH pt \<Rightarrow> ''patch''),
      tg_namespace = rq_namespace rq, tg_resource = rq_resource rq, tg_name = rq_name rq,
      tg_subresource = rq_subresource rq\<rparr>"

fun action_target :: "action \<Rightarrow> target" where
  "action_target (GetAction r ns name) = \<lparr>tg_verb = ''get'', tg_namespace = ns, tg_resource = snd (snd r), tg_name = Some name, tg_subresource = []\<rparr>"
| "action_target (ListAction r k ns opts) = \<lparr>tg_verb = ''list'', tg_namespace = ns, tg_resource = snd (snd r), tg_name = None, tg_subresource = []\<rparr>"
| "action_target (WatchAction r ns opts) = \<lparr>tg_verb = ''watch'', tg_namespace = ns, tg_resource = snd (snd r), tg_name = None, tg_subresource = []\<rparr>"
| "action_target (CreateAction r ns app) = \<lparr>tg_verb = ''create'', tg_namespace = ns, tg_resource = snd (snd r), tg_name = None, tg_subresource = []\<rparr>"
| "action_target (UpdateAction r ns app) = \<lparr>tg_verb = ''update'', tg_namespace = ns, tg_resource = snd (snd r), tg_name = Some (app_Name app), tg_subresource = []\<rparr>"
| "action_target (UpdateSubresourceAction r sub ns app) = \<lparr>tg_verb = ''update'', tg_namespace = ns, tg_resource = snd (snd r), tg_name = Some (app_Name app), tg_subresource = [sub]\<rparr>"
| "action_target (DeleteAction r ns name) = \<lparr>tg_verb = ''delete'', tg_namespace = ns, tg_resource = snd (snd r), tg_name = Some name, tg_subresource = []\<rparr>"
| "action_target (DeleteCollectionAction r ns opts) = \<lparr>tg_verb = ''delete-collection'', tg_namespace = ns, tg_resource = snd (snd r), tg_name = None, tg_subresource = []\<rparr>"
| "action_target (PatchSubresourceAction r ns name pt data subs) = \<lparr>tg_verb = ''patch'', tg_namespace = ns, tg_resource = snd (snd r), tg_name = Some name, tg_subresource = subs\<rparr>"

fun action_group :: "action \<Rightarrow> string" where
  "action_group (GetAction r ns name) = fst r"
| "action_group (ListAction r k ns opts) = fst r"
| "action_group (WatchAction r ns opts) = fst r"
| "action_group (CreateAction r ns app) = fst r"
| "action_group (UpdateAction r ns app) = fst r"
| "action_group (UpdateSubresourceAction r sub ns app) = fst r"
| "action_group (DeleteAction r ns name) = fst r"
| "action_group (DeleteCollectionAction r ns opts) = fst r"
| "action_group (PatchSubresourceAction r ns name pt data subs) = fst r"

section \<open>Properties\<close>

text \<open>
  \<open>mirrors f result rq\<close>: whatever the reactors answer, the method \<open>f\<close> invokes one action and makes its result of the answer by
  \<open>result\<close>; the action asks for what the request \<open>rq\<close> asks for, of the group "cliapp".
\<close>

definition mirrors :: "((action \<Rightarrow> 'r) \<Rightarrow> 's) \<Rightarrow> ('r \<Rightarrow> 's) \<Rightarrow> request \<Rightarrow> bool" where
  "mirrors f result rq \<longleftrightarrow>
     (\<exists>a. (\<forall>invokes. f invokes = result (invokes a)) \<and> action_target a = request_target rq \<and> action_group a = ''cliapp'')"

lemma mirrors_via:
  assumes "action_target a = request_target rq" "action_group a = ''cliapp''"
  shows "mirrors (\<lambda>i. result (i a)) result rq"
  unfolding mirrors_def using assms by blast

lemma mirrors_id:
  assumes "action_target a = request_target rq" "action_group a = ''cliapp''"
  shows "mirrors (\<lambda>i. i a) id rq"
  using mirrors_via [where result = id, OF assms] by simp

definition selected_items ::
  "(ListOptions \<Rightarrow> (labels \<Rightarrow> bool) option) \<Rightarrow> ListOptions
     \<Rightarrow> (labels \<times> CliApp) list reaction \<Rightarrow> (labels \<times> CliApp) list reaction" where
  "selected_items label_of opts =
     (\<lambda>(items, err). (map_option (filter (\<lambda>(ls, app). case label_of opts of None \<Rightarrow> True | Some label \<Rightarrow> label ls)) items, err))"

lemma fake_List_selected:
  "fake_List invokes label_of ns opts =
     selected_items label_of opts (invokes (ListAction cliappsResource cliappsKind ns opts))"
  by (auto simp: fake_List_def selected_items_def split: option.splits prod.splits)

lemmas fake_defs = fake_Get_def fake_Watch_def fake_Create_def fake_Update_def fake_UpdateStatus_def fake_Delete_def
  fake_DeleteCollection_def fake_Patch_def fake_List_selected

text \<open>
  Each method of the fake client invokes exactly one action, and that action has the verb, the namespace, the resource, the
  name and the subresource of the request that the real client sends for the same call (for a list, one that is no watch). The
  group differs: the actions address "cliapp", the requests go to core.cliapp.warm-metal.tech.
\<close>

theorem fake_mirrors_client:
  "mirrors (\<lambda>i. fake_Get i (ca_ns c) name o1) id (cliApps_Get c name o1)
   \<and> mirrors (\<lambda>i. fake_List i label_of (ca_ns c) (opts\<lparr>lo_Watch := False\<rparr>))
        (selected_items label_of (opts\<lparr>lo_Watch := False\<rparr>)) (cliApps_List c (opts\<lparr>lo_Watch := False\<rparr>))
   \<and> mirrors (\<lambda>i. fake_Watch i (ca_ns c) opts) id (cliApps_Watch c opts)
   \<and> mirrors (\<lambda>i. fake_Create i (ca_ns c) app o1) id (cliApps_Create c app o1)
   \<and> mirrors (\<lambda>i. fake_Update i (ca_ns c) app o1) id (cliApps_Update c app o1)
   \<and> mirrors (\<lambda>i. fake_UpdateStatus i (ca_ns c) app o1) id (cliApps_UpdateStatus c app o1)
   \<and> mirrors (\<lambda>i. fake_Delete i (ca_ns c) name o1) snd (cliApps_Delete c name o1)
   \<and> mirrors (\<lambda>i. fake_DeleteCollection i (ca_ns c) o1 opts) snd (cliApps_DeleteCollection c o1 opts)
   \<and> mirrors (\<lambda>i. fake_Patch i (ca_ns c) name pt data o1 subs) id (cliApps_Patch c name pt data o1 subs)
   \<and> fst cliappsResource \<noteq> fst GroupVersion"
  unfolding fake_defs
  by (intro conjI; (rule mirrors_id mirrors_via)?;
      simp add: cliApps_defs request_target_def cliappsResource_def GroupVersion_def Let_def)

end
