(* ===== verification/Manager.thy ===== *)
theory Manager
  imports ReconcileProps
begin

text \<open>
  cmd/manager/manager.go: the configuration of the controller, up to the start of the manager, and the getter
  of the REST configuration that it gives the reconciler. Of \<open>CliAppDefault\<close>
  (pkg/apis/config/v1/cliappdefault_types.go) the fields that the program reads.
\<close>

record CliAppDefault =
  cfg_DefaultAppContextImage :: string
  cfg_DefaultShell :: string
  cfg_DefaultDistro :: string
  cfg_DurationIdleLivesLast :: dur
  cfg_BuilderService :: string

definition zero_CliAppDefault :: CliAppDefault where
  "zero_CliAppDefault =
     \<lparr>cfg_DefaultAppContextImage = [], cfg_DefaultShell = [], cfg_DefaultDistro = [],
      cfg_DurationIdleLivesLast = 0, cfg_BuilderService = []\<rparr>"

section \<open>mgrClientGetter\<close>

record mgrClientGetter =
  mg_config :: string
  mg_mapper :: string
  mg_discovery :: string

definition mgrClientGetter_ToRESTConfig :: "mgrClientGetter \<Rightarrow> unit \<Rightarrow> goerror + string" where
  "mgrClientGetter_ToRESTConfig m = (\<lambda>_. Inr (mg_config m))"

definition mgrClientGetter_ToDiscoveryClient :: "mgrClientGetter \<Rightarrow> unit \<Rightarrow> goerror + string" where
  "mgrClientGetter_ToDiscoveryClient m = (\<lambda>_. Inr (mg_discovery m))"

definition mgrClientGetter_ToRESTMapper :: "mgrClientGetter \<Rightarrow> unit \<Rightarrow> goerror + string" where
  "mgrClientGetter_ToRESTMapper m = (\<lambda>_. Inr (mg_mapper m))"

text \<open>
  \<open>clientGetter\<close>, for the configuration and the mapper of the manager. \<open>discovery\<close> makes the cached discovery client or dies;
  \<open>expander\<close> is \<open>restmapper.NewShortcutExpander\<close>.
\<close>

definition clientGetter ::
  "(string \<Rightarrow> goerror + string) \<Rightarrow> (string \<Rightarrow> string \<Rightarrow> string) \<Rightarrow> string \<times> string \<Rightarrow> mgrClientGetter outcome" where
  "clientGetter discovery expander mgr =
     (case discovery (fst mgr) of
        Inl err \<Rightarrow> Panic (ErrorText err)
      | Inr discoveryCli \<Rightarrow>
          Done \<lparr>mg_config = fst mgr, mg_mapper = expander (snd mgr) discoveryCli, mg_discovery = discoveryCli\<rparr>)"

text \<open>The getter keeps the contract of the interface.\<close>

interpretation mgr_getter: rest_client_getter "mgrClientGetter_ToRESTConfig m" for m
  by unfold_locales (simp add: mgrClientGetter_ToRESTConfig_def)

section \<open>newCRIConnection\<close>

text \<open>\<open>address\<close> is the answer of \<open>GetAddressAndDialer\<close>, \<open>dial\<close> that of \<open>DialContext\<close> for an address.\<close>

definition newCRIConnection ::
  "(string \<Rightarrow> goerror + string) \<Rightarrow> (string \<Rightarrow> goerror + 'c) \<Rightarrow> string \<Rightarrow> goerror + 'c" where
  "newCRIConnection address dial endpoint =
     (case address endpoint of Inl err \<Rightarrow> Inl err | Inr addr \<Rightarrow> dial addr)"

section \<open>main\<close>

text \<open>
  What \<open>main\<close> is given: the path of the configuration file and, if there is one, its content or the error of reading it;
  the configuration and the mapper of the manager, when it is made; the CRI endpoint and its answers; the parts of the client getter; the file with
  the namespace; the answers of buildkit; and the errors of setting up the controller and its two checks, and of running the manager.
\<close>

record main_env =
  me_configFile :: string
  me_config :: "goerror + CliAppDefault"
  me_newManager :: "goerror + string \<times> string"
  me_criEndpoint :: string
  me_criAddress :: "string \<Rightarrow> goerror + string"
  me_criDial :: "string \<Rightarrow> goerror + unit"
  me_namespace :: "goerror + string"
  me_buildkit :: "goerror option"
  me_workers :: "goerror option"
  me_discovery :: "string \<Rightarrow> goerror + string"
  me_expander :: "string \<Rightarrow> string \<Rightarrow> string"
  me_setup :: "goerror option"
  me_healthz :: "goerror option"
  me_readyz :: "goerror option"
  me_start :: "goerror option"

text \<open>
  \<open>Exit\<close>: \<open>os.Exit(1)\<close> before the manager runs; \<open>Died\<close>: a panic; \<open>Ready\<close>: the manager runs the reconciler with its builder.
\<close>

datatype startup = Exit | Died string | Ready CliAppReconciler ImageBuilder

definition with_defaults :: "CliAppDefault \<Rightarrow> CliAppDefault option" where
  "with_defaults c =
     (if length (cfg_DefaultDistro c) > 0 \<and> ValidateDistro (cfg_DefaultDistro c) \<noteq> None then None
      else
        let c = (if length (cfg_DefaultDistro c) > 0 then c else c\<lparr>cfg_DefaultDistro := CliAppDistroAlpine\<rparr>)
        in if length (cfg_DefaultShell c) > 0 \<and> ValidateShell (cfg_DefaultShell c) \<noteq> None then None
           else Some (if length (cfg_DefaultShell c) > 0 then c else c\<lparr>cfg_DefaultShell := CliAppShellBash\<rparr>))"

definition manager_main :: "main_env \<Rightarrow> startup" where
  "manager_main me =
     (case (if me_configFile me \<noteq> [] then me_config me else Inr zero_CliAppDefault) of
        Inl err \<Rightarrow> Exit
      | Inr ctrlConfig \<Rightarrow>
     (case me_newManager me of
        Inl err \<Rightarrow> Exit
      | Inr mgr \<Rightarrow>
     (case with_defaults ctrlConfig of
        None \<Rightarrow> Exit
      | Some c \<Rightarrow>
     (case newCRIConnection (me_criAddress me) (me_criDial me) (me_criEndpoint me) of
        Inl err \<Rightarrow> Exit
      | Inr conn \<Rightarrow>
     (case clientGetter (me_discovery me) (me_expander me) mgr of
        Panic p \<Rightarrow> Died p
      | Done getter \<Rightarrow>
     (case GetCurrentNamespace (me_namespace me) of
        Panic p \<Rightarrow> Died p
      | Done ns \<Rightarrow>
     (case InitImageBuilderOrDie (cfg_BuilderService c) (me_buildkit me) (me_workers me) of
        Panic p \<Rightarrow> Died p
      | Done builder \<Rightarrow>
          if me_setup me \<noteq> None \<or> me_healthz me \<noteq> None \<or> me_readyz me \<noteq> None then Exit
          else Ready
            \<lparr>r_ToRESTConfig = mgrClientGetter_ToRESTConfig getter,
             r_BuilderEndpoint = cfg_BuilderService c,
             r_DurationIdleLiveLasts = cfg_DurationIdleLivesLast c,
             r_ControllerNamespace = ns,
             r_DefaultAppContextImage = cfg_DefaultAppContextImage c,
             r_DefaultShell = cfg_DefaultShell c,
             r_DefaultDistro = cfg_DefaultDistro c\<rparr> builder)))))))"

text \<open>The exit code of the process: a manager that ran ends with 1 only if it reports an error; a panic exits with 2.\<close>

definition manager_exit :: "main_env \<Rightarrow> nat" where
  "manager_exit me =
     (case manager_main me of
        Exit \<Rightarrow> 1 | Died p \<Rightarrow> 2 | Ready r b \<Rightarrow> (case me_start me of Some err \<Rightarrow> 1 | None \<Rightarrow> 0))"

section \<open>Properties\<close>

lemma with_defaults_valid:
  assumes "with_defaults c = Some c'"
  shows "cfg_DefaultShell c' \<in> {CliAppShellBash, CliAppShellZsh}"
    and "cfg_DefaultDistro c' \<in> {CliAppDistroAlpine, CliAppDistroUbuntu}"
    and "cfg_BuilderService c' = cfg_BuilderService c"
    and "cfg_DurationIdleLivesLast c' = cfg_DurationIdleLivesLast c"
  using assms by (auto simp: with_defaults_def ValidateShell_def ValidateDistro_def Let_def split: if_splits)

text \<open>
  A controller that comes up is configured properly: its default shell and distro are supported ones, whatever the
  configuration file says, its getter of the REST configuration has no error to return, it has a map for builds exactly
  if it has a builder endpoint, its builder starts with no build, and its namespace is not empty. So \<open>Reconcile\<close> finds the
  configuration that its freedom from panics rests on.
\<close>

theorem manager_ready:
  assumes "manager_main me = Ready r b"
  shows "proper_config r
    \<and> r_DefaultDistro r \<in> {CliAppDistroAlpine, CliAppDistroUbuntu}
    \<and> (ib_appMap b \<noteq> None \<longleftrightarrow> r_BuilderEndpoint r \<noteq> []) \<and> builder_init b
    \<and> r_ControllerNamespace r \<noteq> []
    \<and> (me_configFile me = [] \<longrightarrow> r_BuilderEndpoint r = [] \<and> r_DurationIdleLiveLasts r = 0)"
proof -
  obtain c0 c getter ns where c0: "(if me_configFile me \<noteq> [] then me_config me else Inr zero_CliAppDefault) = Inr c0"
    and c: "with_defaults c0 = Some c"
    and ns: "GetCurrentNamespace (me_namespace me) = Done ns"
    and b: "InitImageBuilderOrDie (cfg_BuilderService c) (me_buildkit me) (me_workers me) = Done b"
    and r: "r = \<lparr>r_ToRESTConfig = mgrClientGetter_ToRESTConfig getter,
             r_BuilderEndpoint = cfg_BuilderService c,
             r_DurationIdleLiveLasts = cfg_DurationIdleLivesLast c,
             r_ControllerNamespace = ns,
             r_DefaultAppContextImage = cfg_DefaultAppContextImage c,
             r_DefaultShell = cfg_DefaultShell c,
             r_DefaultDistro = cfg_DefaultDistro c\<rparr>"
    using assms unfolding manager_main_def by (auto split: sum.splits option.splits outcome.splits if_splits)
  have "ns \<noteq> []" using ns by (auto simp: GetCurrentNamespace_def Let_def split: sum.splits if_splits)
  moreover have "ib_appMap b \<noteq> None \<longleftrightarrow> cfg_BuilderService c \<noteq> []"
    using b by (auto simp: InitImageBuilderOrDie_def split: if_splits option.splits)
  moreover have "builder_init b" using b unfolding builder_init_def by blast
  moreover have "me_configFile me = [] \<longrightarrow> cfg_BuilderService c = [] \<and> cfg_DurationIdleLivesLast c = 0"
    using c0 with_defaults_valid(3,4) [OF c] by (auto simp: zero_CliAppDefault_def)
  moreover have "\<exists>cfg. mgrClientGetter_ToRESTConfig getter () = Inr cfg" by (rule mgr_getter.config_given)
  ultimately show ?thesis
    using with_defaults_valid(1,2) [OF c] by (simp add: r proper_config_def)
qed

lemma manager_ready_witness:
  "\<exists>r b. manager_main \<lparr>me_configFile = [], me_config = Inl EOF,
      me_newManager = Inr (''in-cluster'', []),
      me_criEndpoint = ''unix:///run/containerd.sock'', me_criAddress = Inr, me_criDial = (\<lambda>a. Inr ()),
      me_namespace = Inr ''cliapp-system'', me_buildkit = None, me_workers = None, me_discovery = Inr,
      me_expander = (\<lambda>mapper discovery. mapper), me_setup = None, me_healthz = None, me_readyz = None, me_start = None\<rparr> = Ready r b
    \<and> proper_config r"
proof -
  let ?me = "\<lparr>me_configFile = [], me_config = Inl EOF,
      me_newManager = Inr (''in-cluster'', []),
      me_criEndpoint = ''unix:///run/containerd.sock'', me_criAddress = Inr, me_criDial = (\<lambda>a. Inr ()),
      me_namespace = Inr ''cliapp-system'', me_buildkit = None, me_workers = None, me_discovery = Inr,
      me_expander = (\<lambda>mapper discovery. mapper), me_setup = None, me_healthz = None, me_readyz = None, me_start = None\<rparr>"
  have "TrimSpace ''cliapp-system'' = ''cliapp-system''" by (rule TrimSpace_id) (simp_all add: go_spaces_def)
  then obtain r b where run: "manager_main ?me = Ready r b"
    by (simp add: manager_main_def with_defaults_def zero_CliAppDefault_def newCRIConnection_def clientGetter_def
        GetCurrentNamespace_def InitImageBuilderOrDie_def)
  with manager_ready [OF run] show ?thesis by blast
qed

end
