(* ===== verification/Setup.thy ===== *)
theory Setup
  imports Manager Client
begin

text \<open>
  How the parts are connected: the types that each program registers with a scheme (pkg/apis/cliapp/v1, pkg/apis/config/v1,
  pkg/clientset/versioned/scheme/register.go and fake/register.go, the \<open>init\<close> of cmd/manager), and what wakes the reconciler
  (\<open>SetupWithManager\<close> of cliapp_controller.go).
\<close>

section \<open>Registration\<close>

text \<open>
  A \<open>runtime.Scheme\<close> is what was registered with it, in order: the types of a group and version, the options that
  \<open>metav1.AddToGroupVersion\<close> adds for it, or the types of Kubernetes.
\<close>

datatype registration = KnownTypes "string \<times> string" "string list" | MetaTypes "string \<times> string" | KubernetesTypes

type_synonym scheme = "registration list"

definition knows :: "scheme \<Rightarrow> string \<times> string \<Rightarrow> string \<Rightarrow> bool" where
  "knows s gv kind \<longleftrightarrow> (\<exists>kinds. KnownTypes gv kinds \<in> set s \<and> kind \<in> set kinds)"

text \<open>
  The \<open>scheme.Builder\<close> of controller-runtime, as documented: \<open>Register\<close> notes the types, and \<open>AddToScheme\<close> adds them, with the options of their
  group and version.
\<close>

record scheme_builder =
  sb_GroupVersion :: "string \<times> string"
  sb_registered :: "string list list"

definition Register :: "string list \<Rightarrow> scheme_builder \<Rightarrow> scheme_builder" where
  "Register types b = b\<lparr>sb_registered := sb_registered b @ [types]\<rparr>"

definition builder_AddToScheme :: "scheme_builder \<Rightarrow> scheme \<Rightarrow> scheme" where
  "builder_AddToScheme b s =
     s @ concat (map (\<lambda>types. [KnownTypes (sb_GroupVersion b) types, MetaTypes (sb_GroupVersion b)]) (sb_registered b))"

text \<open>The builders of the two API groups, with what the \<open>init\<close> functions register.\<close>

definition core_SchemeBuilder :: scheme_builder where
  "core_SchemeBuilder = Register [''CliApp'', ''CliAppList''] \<lparr>sb_GroupVersion = GroupVersion, sb_registered = []\<rparr>"

definition config_GroupVersion :: "string \<times> string" where
  "config_GroupVersion = (''config.cliapp.warm-metal.tech'', ''v1'')"

definition config_SchemeBuilder :: scheme_builder where
  "config_SchemeBuilder = Register [''CliAppDefault''] \<lparr>sb_GroupVersion = config_GroupVersion, sb_registered = []\<rparr>"

text \<open>\<open>addKnownTypes\<close> of register.go, and the schemes of the clientset, of the fake clientset, and of the manager.\<close>

definition addKnownTypes :: "scheme \<Rightarrow> scheme" where
  "addKnownTypes s = builder_AddToScheme core_SchemeBuilder s @ [MetaTypes SchemeGroupVersion]"

definition clientset_scheme :: scheme where
  "clientset_scheme = fold (\<lambda>add s. add s) [builder_AddToScheme core_SchemeBuilder] [MetaTypes ([], ''v1'')]"

definition fake_scheme :: scheme where
  "fake_scheme = fold (\<lambda>add s. add s) [builder_AddToScheme core_SchemeBuilder] [MetaTypes ([], ''v1'')]"

definition manager_scheme :: scheme where
  "manager_scheme = builder_AddToScheme config_SchemeBuilder (builder_AddToScheme core_SchemeBuilder [KubernetesTypes])"

section \<open>What wakes the reconciler\<close>

text \<open>\<open>SetupWithManager\<close>: the type that is reconciled and those that it owns, handed to the builder of controllers.\<close>

record controller_setup =
  cb_For :: string
  cb_Owns :: "string list"

definition SetupWithManager :: "(controller_setup \<Rightarrow> goerror option) \<Rightarrow> goerror option" where
  "SetupWithManager build = build \<lparr>cb_For = ''CliApp'', cb_Owns = [''Pod'']\<rparr>"

text \<open>
  What controller-runtime documents of \<open>Owns\<close>: an event of an owned object enqueues a request for its controller, if the owner reference
  is of the group and the kind of the reconciled type; the request has the namespace of the object.
\<close>

definition group_of :: "string \<Rightarrow> string" where
  "group_of apiVersion = (case split_on (CHR ''/'') apiVersion of [grp, version] \<Rightarrow> grp | _ \<Rightarrow> [])"

definition owner_requests :: "string \<times> string \<Rightarrow> string \<Rightarrow> Pod \<Rightarrow> (string \<times> string) list" where
  "owner_requests gv kind pod =
     map (\<lambda>ref. (pod_Namespace pod, or_Name ref))
       (filter (\<lambda>ref. or_Controller ref \<and> group_of (or_APIVersion ref) = fst gv \<and> or_Kind ref = kind) (pod_OwnerReferences pod))"

section \<open>Properties\<close>

lemma knows_simps [simp]:
  "\<not> knows [] gv kind"
  "knows (KnownTypes gv' kinds # s) gv kind \<longleftrightarrow> gv' = gv \<and> kind \<in> set kinds \<or> knows s gv kind"
  "knows (MetaTypes gv' # s) gv kind \<longleftrightarrow> knows s gv kind"
  "knows (KubernetesTypes # s) gv kind \<longleftrightarrow> knows s gv kind"
  "knows (s @ t) gv kind \<longleftrightarrow> knows s gv kind \<or> knows t gv kind"
  by (auto simp: knows_def)

lemma knows_builders [simp]:
  "knows (builder_AddToScheme core_SchemeBuilder s) gv kind \<longleftrightarrow>
     knows s gv kind \<or> gv = GroupVersion \<and> (kind = ''CliApp'' \<or> kind = ''CliAppList'')"
  "knows (builder_AddToScheme config_SchemeBuilder s) gv kind \<longleftrightarrow> knows s gv kind \<or> gv = config_GroupVersion \<and> kind = ''CliAppDefault''"
  by (auto simp: builder_AddToScheme_def core_SchemeBuilder_def config_SchemeBuilder_def Register_def)

text \<open>
  Every program knows the types that it handles. The schemes of the clientset, of the fake clientset and of the manager know the app and its list in the
  group and version that the client sends its requests for, and in no other; the manager knows its configuration as well. To register the
  types of the API once more adds no type. The reconciler is set up for a type that its manager knows.
\<close>

theorem schemes_know:
  "(\<forall>s \<in> {clientset_scheme, fake_scheme, manager_scheme, addKnownTypes []}. \<forall>gv. \<forall>kind \<in> {''CliApp'', ''CliAppList''}.
      knows s gv kind \<longleftrightarrow> rc_GroupVersion (setConfigDefaults lib c) = Some gv)
   \<and> (knows manager_scheme gv ''CliAppDefault'' \<longleftrightarrow> gv = config_GroupVersion)
   \<and> (\<forall>s kind. knows (addKnownTypes s) gv kind \<longleftrightarrow> knows (builder_AddToScheme core_SchemeBuilder s) gv kind)
   \<and> (\<forall>build. SetupWithManager build = None \<longrightarrow>
        (\<exists>setup. build setup = None \<and> knows manager_scheme GroupVersion (cb_For setup)))"
proof -
  have api: "rc_GroupVersion (setConfigDefaults lib c) = Some gv \<longleftrightarrow> gv = GroupVersion" for gv
    by (auto simp: setConfigDefaults_def Let_def)
  have "GroupVersion \<noteq> config_GroupVersion" by (simp add: GroupVersion_def config_GroupVersion_def)
  then show ?thesis
    unfolding api by (auto simp: clientset_scheme_def fake_scheme_def manager_scheme_def addKnownTypes_def SetupWithManager_def)
qed

text \<open>
  The pods of an app wake its reconciler. Every pod that a run of \<open>Reconcile\<close> creates for an app, as it was read, has the owner reference for
  which its events enqueue exactly one request, the one of this app.
\<close>

theorem created_pod_wakes_app:
  assumes "e_getApp env (w_calls w @ [CGetApp ns name]) = Inr app"
    and "app_APIVersion app = fst GroupVersion @ ''/'' @ snd GroupVersion" and "app_Kind app = ''CliApp''"
    and "CCreatePod pod \<in> set (drop (length (w_calls w)) (w_calls (snd (Reconcile env r ns name w))))"
  shows "owner_requests GroupVersion ''CliApp'' pod = [(app_Namespace app, app_Name app)]"
proof -
  obtain new where new: "w_calls (snd (Reconcile env r ns name w)) = w_calls w @ CGetApp ns name # new"
    and ok: "list_all (reconcile_call_ok env (set_Error [] app)) new"
    using reconcile_calls [of env r ns name w] assms(1) by auto
  have "reconcile_call_ok env (set_Error [] app) (CCreatePod pod)"
    using assms(4) ok by (auto simp: new list_all_iff)
  then have "belongs_to (set_Error [] app) pod" by (auto simp: reconcile_call_ok_def live_call_ok_def rest_call_ok_def belongs_to_def)
  then show ?thesis
    using assms(2,3) by (simp add: owner_requests_def belongs_to_def group_of_def GroupVersion_def)
qed

text \<open>An app that comes up, in a cluster without pods: the run creates one.\<close>

definition coming_app :: CliApp where
  "coming_app = set_TargetPhase CliAppPhaseLive (set_Phase CliAppPhaseRecovering sample_app)"

lemma coming_app_creates:
  "\<exists>pod. CCreatePod pod \<in> set (drop (length (w_calls idle_world))
     (w_calls (snd (Reconcile (quiet_env coming_app []) sample_reconciler ''default'' ''box'' idle_world))))"
  by (simp add: Reconcile_def reconcile_body_def coming_app_def sample_app_def sample_spec_def validateApp_def makeAppLive_def
      recovering_case_def claimPods_def recycle_pods_def sort_pods_def startApp_def generate_manifest_def convertToManifest_def applyAppConfig_def
      bnd_def ask_def ret_def choose_context_def sample_reconciler_def set_meta_def zero_Pod_def fetchImageConfiguration_def
      quiet_env_def shell_volumes_def map_is_empty_def idle_world_def report_error_def Let_def
      del: encodeSpec_def)

theorem created_pod_wakes_app_witness:
  "\<exists>pod. CCreatePod pod \<in> set (w_calls (snd (Reconcile (quiet_env coming_app []) sample_reconciler ''default'' ''box'' idle_world)))
     \<and> owner_requests GroupVersion ''CliApp'' pod = [(''default'', ''box'')]"
proof -
  obtain pod where pod: "CCreatePod pod \<in> set (drop (length (w_calls idle_world))
      (w_calls (snd (Reconcile (quiet_env coming_app []) sample_reconciler ''default'' ''box'' idle_world))))"
    using coming_app_creates by blast
  have app: "e_getApp (quiet_env coming_app []) (w_calls idle_world @ [CGetApp ''default'' ''box'']) = Inr coming_app"
    "app_APIVersion coming_app = fst GroupVersion @ ''/'' @ snd GroupVersion" "app_Kind coming_app = ''CliApp''"
    "app_Namespace coming_app = ''default''" "app_Name coming_app = ''box''"
    by (simp_all add: quiet_env_def idle_world_def stored_def coming_app_def sample_app_def GroupVersion_def)
  from created_pod_wakes_app [OF app(1-3) pod] pod show ?thesis by (auto simp: app idle_world_def)
qed

end
