(* ===== verification/FakeClientset.thy ===== *)
theory FakeClientset
  imports FakeClient Setup
begin

text \<open>
  pkg/clientset/versioned/fake/clientset_generated.go and typed/cliapp/v1/fake/fake_cliapp_client.go: the clientset for tests, made from
  the apps that it shall contain. Its object tracker and the chain of reactors are client-go's: arguments here. Objects are apps.
\<close>

section \<open>The fake clientset\<close>

text \<open>
  \<open>'tr\<close> is the state of an object tracker. A reactor is registered for a verb and a resource, each of which may be a star; a watch
  reactor for a resource.
\<close>

record ('tr, 'w) FakeClientset =
  fcs_tracker :: 'tr
  fcs_reactors :: "(string \<times> string \<times> ('tr \<Rightarrow> action \<Rightarrow> bool \<times> CliApp reaction)) list"
  fcs_watchReactors :: "(string \<times> ('tr \<Rightarrow> gvr \<Rightarrow> string \<Rightarrow> bool \<times> 'w option \<times> goerror option)) list"

fun add_objects :: "('tr \<Rightarrow> CliApp \<Rightarrow> goerror option \<times> 'tr) \<Rightarrow> 'tr \<Rightarrow> CliApp list \<Rightarrow> 'tr outcome" where
  "add_objects add tr [] = Done tr"
| "add_objects add tr (obj # objs) =
     (case add tr obj of
        (Some err, tr') \<Rightarrow> Panic (ErrorText err)
      | (None, tr') \<Rightarrow> add_objects add tr' objs)"

definition watch_reaction :: "('tr \<Rightarrow> gvr \<Rightarrow> string \<Rightarrow> goerror + 'w) \<Rightarrow> 'tr \<Rightarrow> gvr \<Rightarrow> string \<Rightarrow> bool \<times> 'w option \<times> goerror option" where
  "watch_reaction watch tr r ns =
     (case watch tr r ns of Inl err \<Rightarrow> (False, None, Some err) | Inr w \<Rightarrow> (True, Some w, None))"

definition NewSimpleClientset ::
  "'tr \<Rightarrow> ('tr \<Rightarrow> CliApp \<Rightarrow> goerror option \<times> 'tr) \<Rightarrow> ('tr \<Rightarrow> action \<Rightarrow> bool \<times> CliApp reaction)
     \<Rightarrow> ('tr \<Rightarrow> gvr \<Rightarrow> string \<Rightarrow> goerror + 'w) \<Rightarrow> CliApp list \<Rightarrow> ('tr, 'w) FakeClientset outcome" where
  "NewSimpleClientset new add objectReaction watch objects =
     (case add_objects add new objects of
        Panic p \<Rightarrow> Panic p
      | Done tr \<Rightarrow>
          Done \<lparr>fcs_tracker = tr, fcs_reactors = [(''*'', ''*'', objectReaction)],
                fcs_watchReactors = [(''*'', watch_reaction watch)]\<rparr>)"

definition Fake_Tracker :: "('tr, 'w) FakeClientset \<Rightarrow> 'tr" where
  "Fake_Tracker c = fcs_tracker c"

text \<open>\<open>CliappV1\<close> and \<open>CliApps\<close>: the clientset, with a namespace. \<open>RESTClient\<close> of a fake is nil.\<close>

definition Fake_CliappV1 :: "('tr, 'w) FakeClientset \<Rightarrow> ('tr, 'w) FakeClientset" where
  "Fake_CliappV1 c = c"

definition Fake_CliApps :: "('tr, 'w) FakeClientset \<Rightarrow> string \<Rightarrow> ('tr, 'w) FakeClientset \<times> string" where
  "Fake_CliApps c namespace = (c, namespace)"

definition Fake_RESTClient :: "('tr, 'w) FakeClientset \<Rightarrow> rest_client option" where
  "Fake_RESTClient c = None"

section \<open>What it finds\<close>

text \<open>\<open>Invokes\<close>, as documented: the first reactor that is registered for the action and handles it answers.\<close>

definition fake_invokes :: "('tr, 'w) FakeClientset \<Rightarrow> action \<Rightarrow> CliApp reaction" where
  "fake_invokes c a =
     (let matching = filter (\<lambda>(verb, resource, react). (verb = ''*'' \<or> verb = tg_verb (action_target a))
            \<and> (resource = ''*'' \<or> resource = tg_resource (action_target a))) (fcs_reactors c);
          answers = filter fst (map (\<lambda>(verb, resource, react). react (fcs_tracker c) a) matching)
      in case answers of [] \<Rightarrow> (None, None) | (handled, answer) # _ \<Rightarrow> answer)"

lemma add_objects_kept:
  assumes "add_objects add tr objs = Done tr'" and "P tr"
    and "\<And>tr app tr'. add tr app = (None, tr') \<Longrightarrow> P tr \<Longrightarrow> P tr'"
  shows "P tr'"
  using assms(1,2)
proof (induction objs arbitrary: tr)
  case (Cons obj objs)
  then show ?case using assms(3) by (auto split: prod.splits option.splits)
qed simp

text \<open>
  A fake clientset does not find the apps that it was made with. As client-go documents it, an object is added to the tracker
  under the groups in which the scheme knows its type, and found by \<open>Get\<close> under the group of the action; the group of the actions is none of them.
\<close>

theorem simple_clientset_finds_nothing:
  assumes new: "\<And>r ns name. finds new r ns name = None"
    and add: "\<And>tr app tr' r ns name. add tr app = (None, tr') \<Longrightarrow> finds tr' r ns name \<noteq> finds tr r ns name \<Longrightarrow>
      \<exists>gv. knows fake_scheme gv ''CliApp'' \<and> fst r = fst gv"
    and get: "\<And>tr r ns name. react tr (GetAction r ns name) = (True, finds tr r ns name,
      if finds tr r ns name = None then Some (ApiError NotFound name) else None)"
    and made: "NewSimpleClientset new add react watch objs = Done cs"
  shows "fake_Get (fake_invokes (fst (Fake_CliApps (Fake_CliappV1 cs) ns))) ns name opts = (None, Some (ApiError NotFound name))"
proof -
  from made obtain tr where tr: "add_objects add new objs = Done tr" and cs: "cs = \<lparr>fcs_tracker = tr,
      fcs_reactors = [(''*'', ''*'', react)], fcs_watchReactors = [(''*'', watch_reaction watch)]\<rparr>"
    by (auto simp: NewSimpleClientset_def split: outcome.splits)
  let ?P = "\<lambda>tr. \<forall>r ns name. fst r \<noteq> fst GroupVersion \<longrightarrow> finds tr r ns name = None"
  have "?P tr"
  proof (rule add_objects_kept [OF tr])
    fix tr app tr' assume added: "add tr app = (None, tr')" and old: "?P tr"
    show "?P tr'"
    proof (intro allI impI)
      fix r :: gvr and ns name
      assume other: "fst r \<noteq> fst GroupVersion"
      have "finds tr' r ns name = finds tr r ns name"
      proof (rule ccontr)
        assume "finds tr' r ns name \<noteq> finds tr r ns name"
        from add [OF added this] obtain gv where "knows fake_scheme gv ''CliApp''" "fst r = fst gv" by blast
        with other show False by (simp add: fake_scheme_def)
      qed
      also have "\<dots> = None" using old other by blast
      finally show "finds tr' r ns name = None" .
    qed
  qed (simp add: new)
  moreover have "fst cliappsResource \<noteq> fst GroupVersion" by (simp add: cliappsResource_def GroupVersion_def)
  ultimately have "finds tr cliappsResource ns name = None" by blast
  then show ?thesis
    by (simp add: fake_Get_def fake_invokes_def Fake_CliApps_def Fake_CliappV1_def cs get Let_def)
qed

definition found_at :: "(gvr \<times> CliApp) list \<Rightarrow> gvr \<Rightarrow> string \<Rightarrow> string \<Rightarrow> CliApp option" where
  "found_at tr r ns name = map_option snd (find (\<lambda>(r', app). r' = r \<and> app_Namespace app = ns \<and> app_Name app = name) tr)"

theorem simple_clientset_finds_nothing_witness:
  "\<exists>cs. NewSimpleClientset [] (\<lambda>tr app. (None, ((fst GroupVersion, snd GroupVersion, ''cliapps''), app) # tr))
      (\<lambda>tr a. case a of GetAction r ns name \<Rightarrow> (True, found_at tr r ns name,
          if found_at tr r ns name = None then Some (ApiError NotFound name) else None) | _ \<Rightarrow> (False, None, None))
      (\<lambda>tr r ns. Inl EOF :: goerror + unit) [coming_app] = Done cs
    \<and> fake_Get (fake_invokes cs) (app_Namespace coming_app) (app_Name coming_app) [] = (None, Some (ApiError NotFound (app_Name coming_app)))"
  (is "\<exists>cs. NewSimpleClientset [] ?add ?react ?watch _ = _ \<and> _")
proof -
  obtain cs where cs: "NewSimpleClientset [] ?add ?react ?watch [coming_app] = Done cs" by (simp add: NewSimpleClientset_def)
  have "fake_Get (fake_invokes (fst (Fake_CliApps (Fake_CliappV1 cs) ns))) ns name [] = (None, Some (ApiError NotFound name))" for ns name
    by (rule simple_clientset_finds_nothing [OF _ _ _ cs, where finds = found_at])
      (auto simp: found_at_def fake_scheme_def split: if_splits)
  with cs show ?thesis by (auto simp: Fake_CliApps_def Fake_CliappV1_def)
qed

end
