(* ===== verification/ConfigCopy.thy ===== *)
theory ConfigCopy
  imports Manager
begin

text \<open>
  pkg/apis/config/v1/zz_generated.deepcopy.go: copies of the configuration of the controller. What it has pointers in is the
  \<open>ControllerManagerConfigurationSpec\<close>, whose type and copy are controller-runtime's: a type variable and an argument, on a
  heap of any type.
\<close>

record 'c config_object = CliAppDefault +
  co_APIVersion :: string
  co_Kind :: string
  co_spec :: 'c

definition CliAppDefault_DeepCopyInto :: "('c \<Rightarrow> ('h, 'c) go) \<Rightarrow> 'c config_object \<Rightarrow> ('h, 'c config_object) go" where
  "CliAppDefault_DeepCopyInto copySpec c =
     bnd (copySpec (co_spec c)) (\<lambda>spec.
     ret (c\<lparr>co_spec := spec, cfg_DurationIdleLivesLast := cfg_DurationIdleLivesLast c\<rparr>))"

definition CliAppDefault_DeepCopy ::
  "('c \<Rightarrow> ('h, 'c) go) \<Rightarrow> 'c config_object option \<Rightarrow> ('h, 'c config_object option) go" where
  "CliAppDefault_DeepCopy copySpec p =
     (case p of None \<Rightarrow> ret None | Some c \<Rightarrow> bnd (CliAppDefault_DeepCopyInto copySpec c) (\<lambda>out. ret (Some out)))"

definition CliAppDefault_DeepCopyObject ::
  "('c \<Rightarrow> ('h, 'c) go) \<Rightarrow> 'c config_object option \<Rightarrow> ('h, 'c config_object option) go" where
  "CliAppDefault_DeepCopyObject copySpec p =
     bnd (CliAppDefault_DeepCopy copySpec p) (\<lambda>c. case c of Some out \<Rightarrow> ret (Some out) | None \<Rightarrow> ret None)"

text \<open>
  The copy of a configuration has the same settings, and the manager takes the same defaults from it; it fails exactly if the copy
  of the part of controller-runtime does, and changes the heap as that does.
\<close>

lemma config_copy_same:
  "CliAppDefault_DeepCopyObject copySpec (Some c) h =
     (case copySpec (co_spec c) h of
        (Panic p, h') \<Rightarrow> (Panic p, h')
      | (Done spec, h') \<Rightarrow> (Done (Some (c\<lparr>co_spec := spec\<rparr>)), h'))"
  "CliAppDefault.truncate (c\<lparr>co_spec := spec\<rparr>) = CliAppDefault.truncate c"
  by (simp_all add: CliAppDefault_DeepCopyObject_def CliAppDefault_DeepCopy_def CliAppDefault_DeepCopyInto_def bnd_def ret_def
      CliAppDefault.defs split: prod.split outcome.split)

end
