(* ===== verification/DeepCopy.thy ===== *)
theory DeepCopy
  imports ApiTypes
begin

text \<open>
  pkg/apis/cliapp/v1/zz_generated.deepcopy.go: deep copies of the API types, which the caches of the controller and of
  the gate's client rest on. Here the pointers matter, so that specs are modelled a second time, as Go holds them: \<open>Fork\<close> is an
  address, and a slice is the address of an array of strings with a length; strings are values. Of the
  metadata the model keeps strings only, whose copy is their assignment.
\<close>

section \<open>The heap\<close>

record heap =
  h_forks :: "nat \<rightharpoonup> ForkObject"
  h_arrays :: "nat \<rightharpoonup> string list"
  h_next :: nat

text \<open>A slice is \<open>None\<close> when it is nil.\<close>

type_synonym slice = "(nat \<times> nat) option"

record spec_ref =
  sr_Fork :: "nat option"
  sr_Image :: string
  sr_Dockerfile :: string
  sr_Command :: slice
  sr_HostPath :: slice
  sr_Env :: slice
  sr_Distro :: CliAppDistro
  sr_Shell :: CliAppShell
  sr_TargetPhase :: CliAppPhase
  sr_UninstallUnlessLive :: bool

record app_ref =
  ar_APIVersion :: string
  ar_Kind :: string
  ar_Name :: string
  ar_Namespace :: string
  ar_UID :: string
  ar_Spec :: spec_ref
  ar_Status :: CliAppStatus

text \<open>What a slice and a spec hold, if nothing dangles.\<close>

definition slice_value :: "heap \<Rightarrow> slice \<Rightarrow> string list option" where
  "slice_value h s =
     (case s of
        None \<Rightarrow> Some []
      | Some (a, n) \<Rightarrow>
          (case h_arrays h a of None \<Rightarrow> None | Some ss \<Rightarrow> if n \<le> length ss then Some (take n ss) else None))"

definition fork_value :: "heap \<Rightarrow> nat option \<Rightarrow> ForkObject option option" where
  "fork_value h p =
     (case p of None \<Rightarrow> Some None | Some a \<Rightarrow> (case h_forks h a of None \<Rightarrow> None | Some f \<Rightarrow> Some (Some f)))"

definition spec_value :: "heap \<Rightarrow> spec_ref \<Rightarrow> CliAppSpec option" where
  "spec_value h s =
     (case (fork_value h (sr_Fork s), slice_value h (sr_Command s), slice_value h (sr_HostPath s), slice_value h (sr_Env s)) of
        (Some f, Some c, Some p, Some e) \<Rightarrow>
          Some \<lparr>spec_Fork = f, spec_Image = sr_Image s, spec_Dockerfile = sr_Dockerfile s, spec_Command = c,
            spec_HostPath = p, spec_Env = e, spec_Distro = sr_Distro s, spec_Shell = sr_Shell s,
            spec_TargetPhase = sr_TargetPhase s, spec_UninstallUnlessLive = sr_UninstallUnlessLive s\<rparr>
      | _ \<Rightarrow> None)"

definition app_value :: "heap \<Rightarrow> app_ref \<Rightarrow> CliApp option" where
  "app_value h a = map_option (\<lambda>spec.
     \<lparr>app_APIVersion = ar_APIVersion a, app_Kind = ar_Kind a, app_Name = ar_Name a, app_Namespace = ar_Namespace a,
      app_UID = ar_UID a, app_Spec = spec, app_Status = ar_Status a\<rparr>) (spec_value h (ar_Spec a))"

section \<open>The copies\<close>

definition new_fork :: "ForkObject \<Rightarrow> (heap, nat) go" where
  "new_fork f = (\<lambda>h. (Done (h_next h), h\<lparr>h_forks := (h_forks h)(h_next h \<mapsto> f), h_next := Suc (h_next h)\<rparr>))"

definition new_array :: "string list \<Rightarrow> (heap, nat) go" where
  "new_array ss = (\<lambda>h. (Done (h_next h), h\<lparr>h_arrays := (h_arrays h)(h_next h \<mapsto> ss), h_next := Suc (h_next h)\<rparr>))"

text \<open>\<open>ForkObject.DeepCopyInto\<close> assigns the struct.\<close>

definition ForkObject_DeepCopyInto :: "ForkObject \<Rightarrow> ForkObject" where
  "ForkObject_DeepCopyInto f = f"

text \<open>\<open>*out = new(ForkObject); **out = **in\<close>, if \<open>in.Fork\<close> is not nil; a dangling address panics.\<close>

definition copy_fork :: "nat option \<Rightarrow> (heap, nat option) go" where
  "copy_fork p =
     (case p of
        None \<Rightarrow> ret None
      | Some a \<Rightarrow> (\<lambda>h. case h_forks h a of
          None \<Rightarrow> (Panic ''invalid memory address'', h)
        | Some f \<Rightarrow> bnd (new_fork f) (\<lambda>b. ret (Some b)) h))"

text \<open>\<open>*out = make([]string, len(*in)); copy(*out, *in)\<close>, if the slice is not nil.\<close>

definition copy_strings :: "slice \<Rightarrow> (heap, slice) go" where
  "copy_strings s =
     (case s of
        None \<Rightarrow> ret None
      | Some (a, n) \<Rightarrow> (\<lambda>h. case slice_value h s of
          None \<Rightarrow> (Panic ''invalid memory address'', h)
        | Some ss \<Rightarrow> bnd (new_array ss) (\<lambda>b. ret (Some (b, n))) h))"

definition CliAppSpec_DeepCopyInto :: "spec_ref \<Rightarrow> (heap, spec_ref) go" where
  "CliAppSpec_DeepCopyInto s =
     bnd (copy_fork (sr_Fork s)) (\<lambda>fork.
     bnd (copy_strings (sr_Command s)) (\<lambda>command.
     bnd (copy_strings (sr_HostPath s)) (\<lambda>hostpath.
     bnd (copy_strings (sr_Env s)) (\<lambda>env.
     ret (s\<lparr>sr_Fork := fork, sr_Command := command, sr_HostPath := hostpath, sr_Env := env\<rparr>)))))"

definition CliAppStatus_DeepCopyInto :: "CliAppStatus \<Rightarrow> CliAppStatus" where
  "CliAppStatus_DeepCopyInto s = s"

definition CliApp_DeepCopyInto :: "app_ref \<Rightarrow> (heap, app_ref) go" where
  "CliApp_DeepCopyInto a =
     bnd (CliAppSpec_DeepCopyInto (ar_Spec a)) (\<lambda>spec.
     ret (a\<lparr>ar_Spec := spec, ar_Status := CliAppStatus_DeepCopyInto (ar_Status a)\<rparr>))"

text \<open>\<open>DeepCopy\<close> and \<open>DeepCopyObject\<close> of a pointer, which may be nil; the new object is the value returned.\<close>

definition CliApp_DeepCopy :: "app_ref option \<Rightarrow> (heap, app_ref option) go" where
  "CliApp_DeepCopy p =
     (case p of None \<Rightarrow> ret None | Some a \<Rightarrow> bnd (CliApp_DeepCopyInto a) (\<lambda>out. ret (Some out)))"

definition CliApp_DeepCopyObject :: "app_ref option \<Rightarrow> (heap, app_ref option) go" where
  "CliApp_DeepCopyObject p =
     bnd (CliApp_DeepCopy p) (\<lambda>c. case c of Some out \<Rightarrow> ret (Some out) | None \<Rightarrow> ret None)"

text \<open>The loop over the items of a list, which are structs in an array of their own.\<close>

fun copy_items :: "app_ref list \<Rightarrow> (heap, app_ref list) go" where
  "copy_items [] = ret []"
| "copy_items (a # as) =
     bnd (CliApp_DeepCopyInto a) (\<lambda>out. bnd (copy_items as) (\<lambda>outs. ret (out # outs)))"

definition CliAppList_DeepCopyInto :: "app_ref list option \<Rightarrow> (heap, app_ref list option) go" where
  "CliAppList_DeepCopyInto items =
     (case items of None \<Rightarrow> ret None | Some as \<Rightarrow> bnd (copy_items as) (\<lambda>outs. ret (Some outs)))"

definition CliAppList_DeepCopy :: "app_ref list option option \<Rightarrow> (heap, app_ref list option option) go" where
  "CliAppList_DeepCopy p =
     (case p of None \<Rightarrow> ret None | Some items \<Rightarrow> bnd (CliAppList_DeepCopyInto items) (\<lambda>out. ret (Some out)))"

definition CliAppList_DeepCopyObject :: "app_ref list option option \<Rightarrow> (heap, app_ref list option option) go" where
  "CliAppList_DeepCopyObject p =
     bnd (CliAppList_DeepCopy p) (\<lambda>c. case c of Some out \<Rightarrow> ret (Some out) | None \<Rightarrow> ret None)"

text \<open>The copies of the parts.\<close>

definition CliAppSpec_DeepCopy :: "spec_ref option \<Rightarrow> (heap, spec_ref option) go" where
  "CliAppSpec_DeepCopy p =
     (case p of None \<Rightarrow> ret None | Some s \<Rightarrow> bnd (CliAppSpec_DeepCopyInto s) (\<lambda>out. ret (Some out)))"

definition CliAppStatus_DeepCopy :: "CliAppStatus option \<Rightarrow> CliAppStatus option" where
  "CliAppStatus_DeepCopy p = (case p of None \<Rightarrow> None | Some s \<Rightarrow> Some (CliAppStatus_DeepCopyInto s))"

definition ForkObject_DeepCopy :: "ForkObject option \<Rightarrow> ForkObject option" where
  "ForkObject_DeepCopy p = (case p of None \<Rightarrow> None | Some f \<Rightarrow> Some (ForkObject_DeepCopyInto f))"

section \<open>Addresses\<close>

text \<open>The addresses that a value can reach, and what it means that code only allocates.\<close>

definition slice_addrs :: "slice \<Rightarrow> nat set" where
  "slice_addrs s = (case s of None \<Rightarrow> {} | Some (a, n) \<Rightarrow> {a})"

definition spec_addrs :: "spec_ref \<Rightarrow> nat set" where
  "spec_addrs s = set_option (sr_Fork s) \<union> slice_addrs (sr_Command s) \<union> slice_addrs (sr_HostPath s) \<union> slice_addrs (sr_Env s)"

definition wf_heap :: "heap \<Rightarrow> bool" where
  "wf_heap h \<longleftrightarrow> (\<forall>a \<ge> h_next h. h_forks h a = None \<and> h_arrays h a = None)"

definition extends :: "heap \<Rightarrow> heap \<Rightarrow> bool" where
  "extends h k \<longleftrightarrow> h_next h \<le> h_next k \<and> wf_heap k
     \<and> (\<forall>a < h_next h. h_forks k a = h_forks h a \<and> h_arrays k a = h_arrays h a)"

lemma slice_value_eq:
  "slice_value h s = Some ss \<longleftrightarrow>
     s = None \<and> ss = [] \<or> (\<exists>a n xs. s = Some (a, n) \<and> h_arrays h a = Some xs \<and> n \<le> length xs \<and> ss = take n xs)"
  by (auto simp: slice_value_def split: option.splits if_splits)

lemma fork_value_eq:
  "fork_value h p = Some f \<longleftrightarrow> p = None \<and> f = None \<or> (\<exists>a g. p = Some a \<and> h_forks h a = Some g \<and> f = Some g)"
  by (auto simp: fork_value_def split: option.splits)

lemma extends_refl: "wf_heap h \<Longrightarrow> extends h h"
  by (simp add: extends_def)

lemma extends_trans: "extends h k \<Longrightarrow> extends k l \<Longrightarrow> extends h l"
  by (auto simp: extends_def)

lemma extends_values:
  assumes "extends h k" and "wf_heap h"
  shows "slice_value h s = Some ss \<Longrightarrow> slice_value k s = Some ss"
    and "fork_value h p = Some f \<Longrightarrow> fork_value k p = Some f"
proof -
  have same: "h_arrays h a = Some x \<Longrightarrow> h_arrays k a = Some x" "h_forks h a = Some f \<Longrightarrow> h_forks k a = Some f" for a x f
    using assms by (simp_all add: wf_heap_def extends_def) (metis not_le option.distinct(1))+
  show "slice_value h s = Some ss \<Longrightarrow> slice_value k s = Some ss"
    by (auto simp: slice_value_eq dest: same(1))
  show "fork_value h p = Some f \<Longrightarrow> fork_value k p = Some f"
    by (auto simp: fork_value_eq dest: same(2))
qed

text \<open>A copy: it has the same value, and its addresses are new.\<close>

lemma wp_copy_fork:
  assumes "wf_heap h" and "fork_value h p = Some f"
  shows "wp (copy_fork p) (\<lambda>q k. extends h k \<and> fork_value k q = Some f \<and> set_option q \<subseteq> {h_next h ..< h_next k})
    (\<lambda>_ _. False) h"
  using assms unfolding fork_value_eq
  by (auto simp: wp_def copy_fork_def new_fork_def bnd_def ret_def extends_def wf_heap_def)

lemma wp_copy_strings:
  assumes "wf_heap h" and "slice_value h s = Some ss"
  shows "wp (copy_strings s) (\<lambda>t k. extends h k \<and> slice_value k t = Some ss \<and> slice_addrs t \<subseteq> {h_next h ..< h_next k})
    (\<lambda>_ _. False) h"
proof (cases s)
  case (Some an)
  obtain a n where an: "an = (a, n)" by (cases an)
  from assms(2) have "length ss = n" by (auto simp: slice_value_eq Some an)
  then show ?thesis
    using assms unfolding Some an
    by (auto simp: wp_def copy_strings_def new_array_def bnd_def ret_def extends_def wf_heap_def slice_addrs_def)
      (simp add: slice_value_def)
qed (use assms in \<open>auto simp: copy_strings_def slice_value_def slice_addrs_def extends_refl\<close>)

text \<open>The addresses of a value that does not dangle are allocated, and the value depends on nothing else.\<close>

lemma spec_value_eq:
  "spec_value h s = Some v \<longleftrightarrow>
     (\<exists>f c p e. fork_value h (sr_Fork s) = Some f \<and> slice_value h (sr_Command s) = Some c
      \<and> slice_value h (sr_HostPath s) = Some p \<and> slice_value h (sr_Env s) = Some e
      \<and> v = \<lparr>spec_Fork = f, spec_Image = sr_Image s, spec_Dockerfile = sr_Dockerfile s, spec_Command = c,
            spec_HostPath = p, spec_Env = e, spec_Distro = sr_Distro s, spec_Shell = sr_Shell s,
            spec_TargetPhase = sr_TargetPhase s, spec_UninstallUnlessLive = sr_UninstallUnlessLive s\<rparr>)"
  by (auto simp: spec_value_def split: option.splits)

lemma spec_addrs_allocated:
  assumes "wf_heap h" and "spec_value h s = Some v"
  shows "spec_addrs s \<subseteq> {..< h_next h}"
proof -
  have less: "h_arrays h a = Some x \<Longrightarrow> a < h_next h" "h_forks h a = Some f \<Longrightarrow> a < h_next h" for a x f
    using assms(1) by (metis wf_heap_def not_le option.distinct(1))+
  have slice: "slice_addrs t \<subseteq> {..< h_next h}" if "slice_value h t = Some ss" for t ss
    using that less(1) by (auto simp: slice_value_eq slice_addrs_def)
  have "set_option (sr_Fork s) \<subseteq> {..< h_next h}"
    using assms(2) less(2) by (auto simp: spec_value_eq fork_value_eq)
  then show ?thesis
    using assms(2) slice unfolding spec_value_eq spec_addrs_def by (metis Un_least)
qed

lemma spec_value_same:
  assumes "\<forall>a \<in> spec_addrs s. h_forks k a = h_forks h a \<and> h_arrays k a = h_arrays h a"
  shows "spec_value k s = spec_value h s"
proof -
  have "slice_value k t = slice_value h t" if "slice_addrs t \<subseteq> spec_addrs s" for t
    using assms that by (cases t) (auto simp: slice_value_def slice_addrs_def)
  moreover have "fork_value k (sr_Fork s) = fork_value h (sr_Fork s)"
    using assms by (cases "sr_Fork s") (auto simp: fork_value_def spec_addrs_def)
  ultimately show ?thesis by (simp add: spec_value_def spec_addrs_def le_supI1 le_supI2)
qed

lemma extends_spec_value:
  assumes "extends h k" and "wf_heap h" and "spec_value h s = Some v"
  shows "spec_value k s = Some v"
proof -
  have "spec_value k s = spec_value h s"
    using spec_addrs_allocated [OF assms(2,3)] assms(1)
    by (intro spec_value_same) (auto simp: extends_def)
  with assms(3) show ?thesis by simp
qed

lemma extends_wf: "extends h k \<Longrightarrow> wf_heap k"
  by (simp add: extends_def)

lemma extends_next: "extends h k \<Longrightarrow> h_next h \<le> h_next k"
  by (simp add: extends_def)

lemma copy_spec:
  assumes "wf_heap h" and "spec_value h s = Some v"
  obtains t k where "CliAppSpec_DeepCopyInto s h = (Done t, k)" and "extends h k" and "spec_value k t = Some v"
    and "spec_addrs t \<subseteq> {h_next h ..< h_next k}"
proof -
  from assms(2) obtain f c p e where vals: "fork_value h (sr_Fork s) = Some f" "slice_value h (sr_Command s) = Some c"
      "slice_value h (sr_HostPath s) = Some p" "slice_value h (sr_Env s) = Some e"
    and v: "v = \<lparr>spec_Fork = f, spec_Image = sr_Image s, spec_Dockerfile = sr_Dockerfile s, spec_Command = c,
            spec_HostPath = p, spec_Env = e, spec_Distro = sr_Distro s, spec_Shell = sr_Shell s,
            spec_TargetPhase = sr_TargetPhase s, spec_UninstallUnlessLive = sr_UninstallUnlessLive s\<rparr>"
    unfolding spec_value_eq by blast
  obtain fork k1 where 1: "copy_fork (sr_Fork s) h = (Done fork, k1)" "extends h k1" "fork_value k1 fork = Some f"
      "set_option fork \<subseteq> {h_next h ..< h_next k1}"
    using wp_no_panic [OF wp_copy_fork [OF assms(1) vals(1)]] by blast
  note w1 = extends_wf [OF 1(2)]
  obtain command k2 where 2: "copy_strings (sr_Command s) k1 = (Done command, k2)" "extends k1 k2"
      "slice_value k2 command = Some c" "slice_addrs command \<subseteq> {h_next k1 ..< h_next k2}"
    using wp_no_panic [OF wp_copy_strings [OF w1 extends_values(1) [OF 1(2) assms(1) vals(2)]]] by blast
  note w2 = extends_wf [OF 2(2)] and e2 = extends_trans [OF 1(2) 2(2)]
  obtain hostpath k3 where 3: "copy_strings (sr_HostPath s) k2 = (Done hostpath, k3)" "extends k2 k3"
      "slice_value k3 hostpath = Some p" "slice_addrs hostpath \<subseteq> {h_next k2 ..< h_next k3}"
    using wp_no_panic [OF wp_copy_strings [OF w2 extends_values(1) [OF e2 assms(1) vals(3)]]] by blast
  note w3 = extends_wf [OF 3(2)] and e3 = extends_trans [OF e2 3(2)]
  obtain env k4 where 4: "copy_strings (sr_Env s) k3 = (Done env, k4)" "extends k3 k4"
      "slice_value k4 env = Some e" "slice_addrs env \<subseteq> {h_next k3 ..< h_next k4}"
    using wp_no_panic [OF wp_copy_strings [OF w3 extends_values(1) [OF e3 assms(1) vals(4)]]] by blast
  note e24 = extends_trans [OF 3(2) 4(2)]
  note e14 = extends_trans [OF 2(2) e24]
  let ?t = "s\<lparr>sr_Fork := fork, sr_Command := command, sr_HostPath := hostpath, sr_Env := env\<rparr>"
  note grows = extends_next [OF 1(2)] extends_next [OF 2(2)] extends_next [OF 3(2)] extends_next [OF 4(2)]
  show thesis
  proof (rule that)
    show "CliAppSpec_DeepCopyInto s h = (Done ?t, k4)"
      by (simp add: CliAppSpec_DeepCopyInto_def bnd_def ret_def 1(1) 2(1) 3(1) 4(1))
    show "extends h k4" by (rule extends_trans [OF e3 4(2)])
    show "spec_value k4 ?t = Some v"
      using extends_values(2) [OF e14 w1 1(3)] extends_values(1) [OF e24 w2 2(3)] extends_values(1) [OF 4(2) w3 3(3)] 4(3)
      by (simp add: spec_value_eq v)
    have "{h_next h ..< h_next k1} \<subseteq> {h_next h ..< h_next k4}" "{h_next k1 ..< h_next k2} \<subseteq> {h_next h ..< h_next k4}"
      "{h_next k2 ..< h_next k3} \<subseteq> {h_next h ..< h_next k4}" "{h_next k3 ..< h_next k4} \<subseteq> {h_next h ..< h_next k4}"
      using grows by auto
    then have "set_option fork \<subseteq> {h_next h ..< h_next k4}" "slice_addrs command \<subseteq> {h_next h ..< h_next k4}"
      "slice_addrs hostpath \<subseteq> {h_next h ..< h_next k4}" "slice_addrs env \<subseteq> {h_next h ..< h_next k4}"
      using 1(4) 2(4) 3(4) 4(4) by (blast intro: order_trans)+
    then show "spec_addrs ?t \<subseteq> {h_next h ..< h_next k4}" by (simp add: spec_addrs_def)
  qed
qed

section \<open>Apps and lists\<close>

abbreviation app_addrs :: "app_ref \<Rightarrow> nat set" where
  "app_addrs a \<equiv> spec_addrs (ar_Spec a)"

lemma copy_app:
  assumes "wf_heap h" and "app_value h a = Some v"
  obtains out k where "CliApp_DeepCopyInto a h = (Done out, k)" and "extends h k" and "app_value k out = Some v"
    and "app_addrs out \<subseteq> {h_next h ..< h_next k}"
proof -
  from assms(2) obtain sv where sv: "spec_value h (ar_Spec a) = Some sv"
    and v: "v = \<lparr>app_APIVersion = ar_APIVersion a, app_Kind = ar_Kind a, app_Name = ar_Name a, app_Namespace = ar_Namespace a,
      app_UID = ar_UID a, app_Spec = sv, app_Status = ar_Status a\<rparr>"
    by (auto simp: app_value_def)
  obtain t k where c: "CliAppSpec_DeepCopyInto (ar_Spec a) h = (Done t, k)" "extends h k" "spec_value k t = Some sv"
      "spec_addrs t \<subseteq> {h_next h ..< h_next k}"
    by (rule copy_spec [OF assms(1) sv])
  show thesis
    by (rule that [of "a\<lparr>ar_Spec := t\<rparr>" k])
      (use c in \<open>simp_all add: CliApp_DeepCopyInto_def CliAppStatus_DeepCopyInto_def bnd_def ret_def app_value_def v\<close>)
qed

lemma extends_app_value:
  "extends h k \<Longrightarrow> wf_heap h \<Longrightarrow> app_value h a = Some v \<Longrightarrow> app_value k a = Some v"
  by (auto simp: app_value_def extends_spec_value)

abbreviation values_at :: "heap \<Rightarrow> app_ref list \<Rightarrow> CliApp list \<Rightarrow> bool" where
  "values_at h \<equiv> list_all2 (\<lambda>a v. app_value h a = Some v)"

lemma copy_items:
  assumes "wf_heap h" and "values_at h as vs"
  shows "\<exists>outs k. copy_items as h = (Done outs, k) \<and> extends h k \<and> values_at k outs vs
    \<and> \<Union> (app_addrs ` set outs) \<subseteq> {h_next h ..< h_next k}"
  using assms
proof (induction as arbitrary: h vs)
  case Nil
  then show ?case by (simp add: ret_def extends_refl)
next
  case (Cons a as)
  from Cons.prems(2) obtain v ws where vs: "vs = v # ws" "app_value h a = Some v" "values_at h as ws"
    by (auto simp: list_all2_Cons1)
  obtain out k where 1: "CliApp_DeepCopyInto a h = (Done out, k)" "extends h k" "app_value k out = Some v"
      "app_addrs out \<subseteq> {h_next h ..< h_next k}"
    by (rule copy_app [OF Cons.prems(1) vs(2)])
  have "values_at k as ws"
    using vs(3) by (rule list_all2_mono) (rule extends_app_value [OF 1(2) Cons.prems(1)])
  from Cons.IH [OF extends_wf [OF 1(2)] this]
  obtain outs l where 2: "copy_items as k = (Done outs, l)" "extends k l" "values_at l outs ws"
      "\<Union> (app_addrs ` set outs) \<subseteq> {h_next k ..< h_next l}"
    by blast
  show ?case
  proof (intro exI conjI)
    show "copy_items (a # as) h = (Done (out # outs), l)" by (simp add: bnd_def ret_def 1(1) 2(1))
    show "extends h l" by (rule extends_trans [OF 1(2) 2(2)])
    show "values_at l (out # outs) vs"
      using extends_app_value [OF 2(2) extends_wf [OF 1(2)] 1(3)] 2(3) by (simp add: vs(1))
    have "{h_next h ..< h_next k} \<subseteq> {h_next h ..< h_next l}" "{h_next k ..< h_next l} \<subseteq> {h_next h ..< h_next l}"
      using extends_next [OF 1(2)] extends_next [OF 2(2)] by auto
    with 1(4) 2(4) have "app_addrs out \<subseteq> {h_next h ..< h_next l}" "\<Union> (app_addrs ` set outs) \<subseteq> {h_next h ..< h_next l}"
      by (blast intro: order_trans)+
    then show "\<Union> (app_addrs ` set (out # outs)) \<subseteq> {h_next h ..< h_next l}" by simp
  qed
qed

text \<open>
  C39. A deep copy is equal to the original and independent of it: the copy of an app has the value of the app, which
  keeps it; the two reach no address in common; and whatever is written later to addresses that the copy reaches, the original
  keeps its value.
\<close>

theorem deep_copy_independent:
  assumes "wf_heap h" and "app_value h a = Some v"
  shows "\<exists>out k. CliApp_DeepCopyObject (Some a) h = (Done (Some out), k)
    \<and> app_value k out = Some v \<and> app_addrs out \<inter> app_addrs a = {}
    \<and> (\<forall>l. (\<forall>b. b \<notin> app_addrs out \<longrightarrow> h_forks l b = h_forks k b \<and> h_arrays l b = h_arrays k b) \<longrightarrow>
          app_value l a = Some v)"
proof -
  obtain out k where c: "CliApp_DeepCopyInto a h = (Done out, k)" "extends h k" "app_value k out = Some v"
      "app_addrs out \<subseteq> {h_next h ..< h_next k}"
    by (rule copy_app [OF assms])
  from assms(2) obtain sv where "spec_value h (ar_Spec a) = Some sv" by (auto simp: app_value_def)
  with assms(1) have old: "app_addrs a \<subseteq> {..< h_next h}" by (rule spec_addrs_allocated)
  then have apart: "app_addrs out \<inter> app_addrs a = {}" using c(4) by fastforce
  have "app_value l a = Some v"
    if "\<forall>b. b \<notin> app_addrs out \<longrightarrow> h_forks l b = h_forks k b \<and> h_arrays l b = h_arrays k b" for l
  proof -
    have "spec_value l (ar_Spec a) = spec_value k (ar_Spec a)"
      using that apart by (intro spec_value_same) blast
    with extends_app_value [OF c(2) assms] show ?thesis by (simp add: app_value_def)
  qed
  with c(1,3) apart show ?thesis
    by (intro exI [of _ out] exI [of _ k])
      (simp add: CliApp_DeepCopyObject_def CliApp_DeepCopy_def bnd_def ret_def)
qed

definition sample_heap :: heap where
  "sample_heap = \<lparr>h_forks = [0 \<mapsto> \<lparr>fork_Object = ''deploy/web'', fork_Container = [], fork_WithEnvs = True\<rparr>],
     h_arrays = [1 \<mapsto> [''ls'', ''-l'']], h_next = 2\<rparr>"

definition sample_ref :: app_ref where
  "sample_ref = \<lparr>ar_APIVersion = ''core.cliapp.warm-metal.tech/v1'', ar_Kind = ''CliApp'', ar_Name = ''box'',
     ar_Namespace = ''default'', ar_UID = ''u'',
     ar_Spec = \<lparr>sr_Fork = Some 0, sr_Image = [], sr_Dockerfile = [], sr_Command = Some (1, 2), sr_HostPath = None,
       sr_Env = Some (1, 1), sr_Distro = [], sr_Shell = [], sr_TargetPhase = ''Live'', sr_UninstallUnlessLive = False\<rparr>,
     ar_Status = \<lparr>status_Phase = [], status_LastPhaseTransition = 0, status_PodName = [], status_Error = []\<rparr>\<rparr>"

lemma deep_copy_independent_witness:
  "\<exists>out k. CliApp_DeepCopyObject (Some sample_ref) sample_heap = (Done (Some out), k)
     \<and> app_value k out = app_value sample_heap sample_ref \<and> app_addrs out \<inter> app_addrs sample_ref = {}"
proof -
  obtain v where v: "app_value sample_heap sample_ref = Some v"
    by (simp add: app_value_def spec_value_def fork_value_def slice_value_def sample_ref_def sample_heap_def)
  have "wf_heap sample_heap" by (simp add: wf_heap_def sample_heap_def)
  from deep_copy_independent [OF this v] v show ?thesis by fastforce
qed

text \<open>The copy of a list: the values of its items, and addresses that are all new.\<close>

lemma deep_copy_list:
  assumes "wf_heap h" and "values_at h as vs"
  shows "\<exists>outs k. CliAppList_DeepCopyObject (Some (Some as)) h = (Done (Some (Some outs)), k) \<and> values_at k outs vs
    \<and> (\<forall>out \<in> set outs. \<forall>a \<in> set as. app_addrs out \<inter> app_addrs a = {})"
proof -
  obtain outs k where c: "copy_items as h = (Done outs, k)" "values_at k outs vs"
      "\<Union> (app_addrs ` set outs) \<subseteq> {h_next h ..< h_next k}"
    using copy_items [OF assms] by blast
  have "app_addrs a \<subseteq> {..< h_next h}" if "a \<in> set as" for a
  proof -
    from that assms(2) obtain v where "app_value h a = Some v"
      by (auto simp: list_all2_conv_all_nth in_set_conv_nth)
    then obtain sv where "spec_value h (ar_Spec a) = Some sv" by (auto simp: app_value_def)
    with assms(1) show ?thesis by (rule spec_addrs_allocated)
  qed
  then have "app_addrs out \<inter> app_addrs a = {}" if "out \<in> set outs" "a \<in> set as" for out a
    using c(3) that by fastforce
  with c(1,2) show ?thesis
    by (intro exI [of _ outs] exI [of _ k]) (simp add: CliAppList_DeepCopyObject_def CliAppList_DeepCopy_def CliAppList_DeepCopyInto_def bnd_def ret_def)
qed

end
