(* ===== verification/Informers.thy ===== *)
theory Informers
  imports Client KubeTypes
begin

text \<open>
  pkg/informers/externalversions and pkg/listers: the shared informers of apps. The factory (factory.go) makes one informer for
  each type and runs it once, whoever asks and however often; cliapp/v1/cliapp.go says what an informer of apps lists and watches, and the interfaces between hand
  the factory's settings down. The lock of the factory makes each of its methods one step. What an
  informer does when it runs is client-go's, and here only that it was started.
\<close>

section \<open>The factory\<close>

text \<open>
  A \<open>SharedIndexInformer\<close> is a pointer: an index of the store. Stored is what it was made from. \<open>sf_running\<close> lists the informers
  for which a goroutine \<open>informer.Run\<close> was started, in order. A \<open>reflect.Type\<close> is its name; the map of started
  informers is the set of the types that it maps to true.
\<close>

type_synonym tweak = "(ListOptions \<Rightarrow> ListOptions) option"

record informer =
  shi_client :: Clientset
  shi_namespace :: string
  shi_tweak :: tweak
  shi_type :: string
  shi_resync :: dur
  shi_indexers :: "string list"

record sharedInformerFactory =
  sf_client :: Clientset
  sf_namespace :: string
  sf_tweakListOptions :: tweak
  sf_defaultResync :: dur
  sf_customResync :: "string \<rightharpoonup> dur"
  sf_informers :: "string \<rightharpoonup> nat"
  sf_startedInformers :: "string set"
  sf_store :: "informer list"
  sf_running :: "nat list"

text \<open>The options; the entries of a resync configuration come in the order in which the loop meets them.\<close>

datatype SharedInformerOption =
    WithCustomResyncConfig "(string \<times> dur) list"
  | WithTweakListOptions "ListOptions \<Rightarrow> ListOptions"
  | WithNamespace string

fun apply_option :: "sharedInformerFactory \<Rightarrow> SharedInformerOption \<Rightarrow> sharedInformerFactory" where
  "apply_option f (WithCustomResyncConfig resyncConfig) =
     f\<lparr>sf_customResync := foldl (\<lambda>m (k, v). m(k \<mapsto> v)) (sf_customResync f) resyncConfig\<rparr>"
| "apply_option f (WithTweakListOptions tweakListOptions) = f\<lparr>sf_tweakListOptions := Some tweakListOptions\<rparr>"
| "apply_option f (WithNamespace namespace) = f\<lparr>sf_namespace := namespace\<rparr>"

definition NewSharedInformerFactoryWithOptions ::
  "Clientset \<Rightarrow> dur \<Rightarrow> SharedInformerOption list \<Rightarrow> sharedInformerFactory" where
  "NewSharedInformerFactoryWithOptions client defaultResync options =
     foldl apply_option
       \<lparr>sf_client = client, sf_namespace = [], sf_tweakListOptions = None, sf_defaultResync = defaultResync,
        sf_customResync = Map.empty, sf_informers = Map.empty, sf_startedInformers = {}, sf_store = [], sf_running = []\<rparr>
       options"

definition NewSharedInformerFactory :: "Clientset \<Rightarrow> dur \<Rightarrow> sharedInformerFactory" where
  "NewSharedInformerFactory client defaultResync = NewSharedInformerFactoryWithOptions client defaultResync []"

definition NewFilteredSharedInformerFactory ::
  "Clientset \<Rightarrow> dur \<Rightarrow> string \<Rightarrow> (ListOptions \<Rightarrow> ListOptions) \<Rightarrow> sharedInformerFactory" where
  "NewFilteredSharedInformerFactory client defaultResync namespace tweakListOptions =
     NewSharedInformerFactoryWithOptions client defaultResync [WithNamespace namespace, WithTweakListOptions tweakListOptions]"

text \<open>\<open>Start\<close>: the loop meets the types that have an informer in the order \<open>types\<close>.\<close>

definition start_type :: "sharedInformerFactory \<Rightarrow> string \<Rightarrow> sharedInformerFactory" where
  "start_type f t =
     (case sf_informers f t of
        None \<Rightarrow> f
      | Some i \<Rightarrow>
          if t \<in> sf_startedInformers f then f
          else f\<lparr>sf_running := sf_running f @ [i], sf_startedInformers := insert t (sf_startedInformers f)\<rparr>)"

definition factory_Start :: "string list \<Rightarrow> sharedInformerFactory \<Rightarrow> sharedInformerFactory" where
  "factory_Start types f = foldl start_type f types"

text \<open>\<open>synced i\<close> is what \<open>cache.WaitForCacheSync\<close> says of the informer \<open>i\<close>.\<close>

definition WaitForCacheSync :: "(nat \<Rightarrow> bool) \<Rightarrow> sharedInformerFactory \<Rightarrow> (string \<rightharpoonup> bool)" where
  "WaitForCacheSync synced f =
     (let informers = (\<lambda>t. if t \<in> sf_startedInformers f then sf_informers f t else None)
      in (\<lambda>t. map_option synced (informers t)))"

text \<open>
  \<open>InformerFor\<close>: \<open>newFunc\<close> says what a new informer is made from; its address is the next one of the store.
\<close>

definition InformerFor ::
  "string \<Rightarrow> (Clientset \<Rightarrow> dur \<Rightarrow> informer) \<Rightarrow> sharedInformerFactory \<Rightarrow> nat \<times> sharedInformerFactory" where
  "InformerFor informerType newFunc f =
     (case sf_informers f informerType of
        Some informer \<Rightarrow> (informer, f)
      | None \<Rightarrow>
          let resyncPeriod = (case sf_customResync f informerType of Some d \<Rightarrow> d | None \<Rightarrow> sf_defaultResync f);
              informer = length (sf_store f)
          in (informer, f\<lparr>sf_store := sf_store f @ [newFunc (sf_client f) resyncPeriod],
                sf_informers := (sf_informers f)(informerType \<mapsto> informer)\<rparr>))"

section \<open>The informer of apps\<close>

definition NewFilteredCliAppInformer ::
  "Clientset \<Rightarrow> string \<Rightarrow> dur \<Rightarrow> string list \<Rightarrow> tweak \<Rightarrow> informer" where
  "NewFilteredCliAppInformer client namespace resyncPeriod indexers tweakListOptions =
     \<lparr>shi_client = client, shi_namespace = namespace, shi_tweak = tweakListOptions, shi_type = ''CliApp'',
      shi_resync = resyncPeriod, shi_indexers = indexers\<rparr>"

definition NewCliAppInformer :: "Clientset \<Rightarrow> string \<Rightarrow> dur \<Rightarrow> string list \<Rightarrow> informer" where
  "NewCliAppInformer client namespace resyncPeriod indexers =
     NewFilteredCliAppInformer client namespace resyncPeriod indexers None"

text \<open>The closures \<open>ListFunc\<close> and \<open>WatchFunc\<close>: the requests that they make.\<close>

definition ListFunc :: "informer \<Rightarrow> ListOptions \<Rightarrow> request" where
  "ListFunc i options =
     (let options = (case shi_tweak i of Some tw \<Rightarrow> tw options | None \<Rightarrow> options)
      in cliApps_List (newCliApps (Some (cs_cliappV1 (shi_client i))) (shi_namespace i)) options)"

definition WatchFunc :: "informer \<Rightarrow> ListOptions \<Rightarrow> request" where
  "WatchFunc i options =
     (let options = (case shi_tweak i of Some tw \<Rightarrow> tw options | None \<Rightarrow> options)
      in cliApps_Watch (newCliApps (Some (cs_cliappV1 (shi_client i))) (shi_namespace i)) options)"

text \<open>
  The way from the factory to its informer of apps: \<open>Cliapp()\<close>, \<open>V1()\<close>, \<open>CliApps()\<close>. Each interface holds the factory, whose state is
  passed along here, with the factory's namespace and tweak.
\<close>

record informer_group =
  ig_namespace :: string
  ig_tweakListOptions :: tweak

record informer_version =
  iv_namespace :: string
  iv_tweakListOptions :: tweak

record cliAppInformer =
  ci_namespace :: string
  ci_tweakListOptions :: tweak

definition group_New :: "string \<Rightarrow> tweak \<Rightarrow> informer_group" where
  "group_New namespace tweakListOptions = \<lparr>ig_namespace = namespace, ig_tweakListOptions = tweakListOptions\<rparr>"

definition version_New :: "string \<Rightarrow> tweak \<Rightarrow> informer_version" where
  "version_New namespace tweakListOptions = \<lparr>iv_namespace = namespace, iv_tweakListOptions = tweakListOptions\<rparr>"

definition factory_Cliapp :: "sharedInformerFactory \<Rightarrow> informer_group" where
  "factory_Cliapp f = group_New (sf_namespace f) (sf_tweakListOptions f)"

definition group_V1 :: "informer_group \<Rightarrow> informer_version" where
  "group_V1 g = version_New (ig_namespace g) (ig_tweakListOptions g)"

definition version_CliApps :: "informer_version \<Rightarrow> cliAppInformer" where
  "version_CliApps v = \<lparr>ci_namespace = iv_namespace v, ci_tweakListOptions = iv_tweakListOptions v\<rparr>"

definition defaultInformer :: "cliAppInformer \<Rightarrow> Clientset \<Rightarrow> dur \<Rightarrow> informer" where
  "defaultInformer ci client resyncPeriod =
     NewFilteredCliAppInformer client (ci_namespace ci) resyncPeriod [''namespace''] (ci_tweakListOptions ci)"

definition cliAppInformer_Informer :: "cliAppInformer \<Rightarrow> sharedInformerFactory \<Rightarrow> nat \<times> sharedInformerFactory" where
  "cliAppInformer_Informer ci f = InformerFor ''CliApp'' (defaultInformer ci) f"

definition CliApps_Informer :: "sharedInformerFactory \<Rightarrow> nat \<times> sharedInformerFactory" where
  "CliApps_Informer f = cliAppInformer_Informer (version_CliApps (group_V1 (factory_Cliapp f))) f"

lemmas informer_path =
  factory_Cliapp_def group_New_def group_V1_def version_New_def version_CliApps_def cliAppInformer_Informer_def

section \<open>Steps\<close>

text \<open>
  What callers do to a factory, in any order and from any goroutine: ask for an informer of any type, and start. The loop of
  \<open>Start\<close> meets each type that has an informer once.
\<close>

inductive factory_step :: "sharedInformerFactory \<Rightarrow> sharedInformerFactory \<Rightarrow> bool" where
  Ask: "factory_step f (snd (InformerFor t newFunc f))"
| Run: "set types = dom (sf_informers f) \<Longrightarrow> distinct types \<Longrightarrow> factory_step f (factory_Start types f)"

definition new_factory :: "sharedInformerFactory \<Rightarrow> bool" where
  "new_factory f \<longleftrightarrow> (\<exists>client resync options. f = NewSharedInformerFactoryWithOptions client resync options)"

section \<open>Every informer runs once\<close>

definition factory_inv :: "sharedInformerFactory \<Rightarrow> bool" where
  "factory_inv f \<longleftrightarrow>
     sf_startedInformers f \<subseteq> dom (sf_informers f)
     \<and> inj_on (sf_informers f) (dom (sf_informers f))
     \<and> (\<forall>i \<in> ran (sf_informers f). i < length (sf_store f))
     \<and> distinct (sf_running f)
     \<and> Some ` set (sf_running f) = sf_informers f ` sf_startedInformers f"

text \<open>What no step takes back: informers keep their address and what they were made from, and go on running.\<close>

definition grows :: "sharedInformerFactory \<Rightarrow> sharedInformerFactory \<Rightarrow> bool" where
  "grows f g \<longleftrightarrow>
     sf_informers f \<subseteq>\<^sub>m sf_informers g \<and> sf_startedInformers f \<subseteq> sf_startedInformers g
     \<and> (\<exists>more. sf_store g = sf_store f @ more) \<and> (\<exists>more. sf_running g = sf_running f @ more)"

lemma grows_refl [simp, intro]: "grows f f"
  by (simp add: grows_def)

lemma grows_trans [trans]: "grows f g \<Longrightarrow> grows g h \<Longrightarrow> grows f h"
  unfolding grows_def by (auto intro: map_le_trans)

lemma start_type_fields:
  "sf_informers (start_type f t) = sf_informers f"
  "sf_startedInformers (start_type f t) = sf_startedInformers f \<union> ({t} \<inter> dom (sf_informers f))"
  by (auto simp: start_type_def split: option.splits)

lemma factory_inv_start_type: "factory_inv f \<Longrightarrow> factory_inv (start_type f t) \<and> grows f (start_type f t)"
proof (cases "sf_informers f t")
  case (Some i)
  assume inv: "factory_inv f"
  have "i \<notin> set (sf_running f)" if "t \<notin> sf_startedInformers f"
  proof
    assume "i \<in> set (sf_running f)"
    with inv obtain t' where "t' \<in> sf_startedInformers f" "sf_informers f t' = Some i"
      unfolding factory_inv_def by (metis imageE imageI)
    with inv Some that show False
      unfolding factory_inv_def by (metis domI inj_onD)
  qed
  with inv Some show ?thesis
    by (auto simp: start_type_def factory_inv_def grows_def)
qed (simp add: start_type_def)

lemma factory_inv_Start: "factory_inv f \<Longrightarrow> factory_inv (factory_Start types f) \<and> grows f (factory_Start types f)"
proof (induction types arbitrary: f)
  case (Cons t types)
  with factory_inv_start_type [of f t] show ?case
    unfolding factory_Start_def by (auto intro: grows_trans)
qed (simp add: factory_Start_def)

lemma factory_inv_InformerFor:
  assumes inv: "factory_inv f"
  shows "factory_inv (snd (InformerFor t newFunc f)) \<and> grows f (snd (InformerFor t newFunc f))"
proof (cases "sf_informers f t")
  case None
  define a where "a = length (sf_store f)"
  define g where "g = snd (InformerFor t newFunc f)"
  have g: "sf_informers g = (sf_informers f)(t \<mapsto> a)" "sf_startedInformers g = sf_startedInformers f"
    "sf_running g = sf_running f" "\<exists>i. sf_store g = sf_store f @ [i]"
    using None by (simp_all add: g_def InformerFor_def a_def Let_def)
  have t: "t \<notin> sf_startedInformers f" and a: "\<And>u. sf_informers f u \<noteq> Some a"
    using inv None by (auto simp: factory_inv_def ran_def a_def)
  have "inj_on (sf_informers g) (dom (sf_informers g))"
    using inv a by (auto simp: g factory_inv_def inj_on_def)
  moreover have "\<forall>i \<in> ran (sf_informers g). i < length (sf_store g)"
    using inv None g(4) by (auto simp: g(1) factory_inv_def a_def less_Suc_eq)
  moreover have "sf_informers g ` sf_startedInformers g = sf_informers f ` sf_startedInformers f"
    by (rule image_cong) (use t in \<open>auto simp: g\<close>)
  ultimately have "factory_inv g"
    using inv by (auto simp: g(2,3) factory_inv_def) (auto simp: g(1))
  moreover have "grows f g"
    using None g by (auto simp: grows_def map_le_def)
  ultimately show ?thesis by (simp add: g_def)
qed (simp add: InformerFor_def inv)

lemma factory_inv_step: "factory_step f g \<Longrightarrow> factory_inv f \<Longrightarrow> factory_inv g \<and> grows f g"
  by (cases rule: factory_step.cases) (auto dest: factory_inv_Start factory_inv_InformerFor)

lemma factory_inv_new: "new_factory f \<Longrightarrow> factory_inv f"
proof -
  have "factory_inv (foldl apply_option f0 options)" if "factory_inv f0" for f0 options
    using that
  proof (induction options arbitrary: f0)
    case (Cons op options)
    from Cons.prems have "factory_inv (apply_option f0 op)"
      by (cases op) (simp_all add: factory_inv_def)
    with Cons.IH show ?case by simp
  qed simp
  moreover have "factory_inv (NewSharedInformerFactoryWithOptions client resync [])" for client resync
    by (simp add: NewSharedInformerFactoryWithOptions_def factory_inv_def)
  ultimately show "new_factory f \<Longrightarrow> factory_inv f"
    unfolding new_factory_def NewSharedInformerFactoryWithOptions_def by auto
qed

interpretation factory: kept_invariant new_factory factory_step factory_inv
  by unfold_locales (auto dest: factory_inv_new factory_inv_step)

lemma factory_grows: "rtranclp factory_step f g \<Longrightarrow> factory_inv f \<Longrightarrow> factory_inv g \<and> grows f g"
  by (induction rule: rtranclp_induct) (auto dest: factory_inv_step intro: grows_trans)

lemma running_started:
  assumes inv: "factory_inv f" and i: "sf_informers f t = Some i"
  shows "i \<in> set (sf_running f) \<longleftrightarrow> t \<in> sf_startedInformers f"
proof -
  have "i \<in> set (sf_running f) \<longleftrightarrow> Some i \<in> Some ` set (sf_running f)" by auto
  also have "\<dots> \<longleftrightarrow> sf_informers f t \<in> sf_informers f ` sf_startedInformers f"
    using inv by (simp add: factory_inv_def i)
  also have "\<dots> \<longleftrightarrow> t \<in> sf_startedInformers f"
    using inv i by (intro inj_on_image_mem_iff) (auto simp: factory_inv_def)
  finally show ?thesis .
qed

text \<open>
  Informers are shared and run once. Whatever callers do to a factory, in any order: no informer is started twice, those
  that run are those of the types marked as started, and once a type has an informer, everybody who asks for that type gets this one, made from what the
  first caller made it from.
\<close>

theorem informers_shared:
  assumes "reachable new_factory factory_step f"
    and "rtranclp factory_step f g"
    and "sf_informers f t = Some i"
  shows "InformerFor t newFunc g = (i, g) \<and> i < length (sf_store f) \<and> sf_store g ! i = sf_store f ! i
    \<and> distinct (sf_running g) \<and> (i \<in> set (sf_running g) \<longleftrightarrow> t \<in> sf_startedInformers g)"
proof -
  have inv: "factory_inv f" using assms(1) by (rule factory.inv_reachable)
  then have g: "factory_inv g" "grows f g" using factory_grows [OF assms(2)] by auto
  then have t: "sf_informers g t = Some i" using assms(3) unfolding grows_def map_le_def by (metis domI)
  have "i < length (sf_store f)" using inv assms(3) by (auto simp: factory_inv_def ran_def)
  with g t running_started [OF g(1) t] show ?thesis
    by (auto simp: InformerFor_def grows_def factory_inv_def nth_append)
qed

definition sample_factory :: sharedInformerFactory where
  "sample_factory = NewSharedInformerFactoryWithOptions (Clientset_New (OwnClient 0)) 30 [WithNamespace ''apps'']"

lemma sample_reachable: "reachable new_factory factory_step sample_factory"
  by (rule reachable_init) (auto simp: new_factory_def sample_factory_def)

lemma sample_asked:
  "CliApps_Informer sample_factory = (0, snd (CliApps_Informer sample_factory))"
  "sf_informers (snd (CliApps_Informer sample_factory)) = [''CliApp'' \<mapsto> 0]"
  "sf_informers sample_factory = Map.empty" "sf_namespace (snd (CliApps_Informer sample_factory)) = ''apps''"
  by (simp_all add: sample_factory_def NewSharedInformerFactoryWithOptions_def CliApps_Informer_def informer_path InformerFor_def Let_def)

lemma sample_running: "sf_running (factory_Start [''CliApp''] (snd (CliApps_Informer sample_factory))) = [0]"
  by (simp add: sample_factory_def NewSharedInformerFactoryWithOptions_def CliApps_Informer_def informer_path InformerFor_def Let_def
      factory_Start_def start_type_def)

theorem informers_shared_witness:
  "\<exists>f g. f = snd (CliApps_Informer sample_factory) \<and> sf_running g = [0] \<and> CliApps_Informer g = (0, g)
     \<and> sf_store g ! 0 = sf_store f ! 0"
proof (intro exI conjI)
  define f where "f = snd (CliApps_Informer sample_factory)"
  define g where "g = factory_Start [''CliApp''] f"
  have "factory_step sample_factory f" unfolding f_def CliApps_Informer_def cliAppInformer_Informer_def by (rule factory_step.Ask)
  with sample_reachable have r: "reachable new_factory factory_step f" by (rule reachable_step)
  have "factory_step f g"
    unfolding g_def by (rule factory_step.Run) (simp_all add: f_def sample_asked(2-))
  then have s: "factory_step\<^sup>*\<^sup>* f g" ..
  have "sf_informers f ''CliApp'' = Some 0" by (simp add: f_def sample_asked(2-))
  note shared = informers_shared [OF r s this]
  show "f = snd (CliApps_Informer sample_factory)" by (rule f_def)
  show "sf_running g = [0]" unfolding g_def f_def by (rule sample_running)
  show "CliApps_Informer g = (0, g)" unfolding CliApps_Informer_def cliAppInformer_Informer_def using shared by (rule conjunct1)
  show "sf_store g ! 0 = sf_store f ! 0" by (rule conjunct1 [OF conjunct2 [OF conjunct2 [OF shared]]])
qed

section \<open>Starting\<close>

lemma Start_informers: "sf_informers (factory_Start types f) = sf_informers f"
  by (induction types arbitrary: f) (simp_all add: factory_Start_def start_type_fields)

lemma Start_started: "sf_startedInformers (factory_Start types f) = sf_startedInformers f \<union> (set types \<inter> dom (sf_informers f))"
  by (induction types arbitrary: f) (auto simp: factory_Start_def start_type_fields)

lemma Start_idle: "set types \<inter> dom (sf_informers f) \<subseteq> sf_startedInformers f \<Longrightarrow> factory_Start types f = f"
proof (induction types)
  case (Cons t types)
  then have "start_type f t = f" by (auto simp: start_type_def split: option.splits)
  with Cons show ?case by (auto simp: factory_Start_def)
qed (simp add: factory_Start_def)

text \<open>
  \<open>Start\<close> starts every informer that was asked for, in whatever order the loop meets them, and calling it again changes
  nothing; \<open>WaitForCacheSync\<close> then reports on every type that has an informer. The informer of apps lists and watches the
  namespace of the factory, with the factory's changes to the options, and resyncs after the period set for its type, or else the factory's.
\<close>

theorem start_runs_all:
  assumes "reachable new_factory factory_step f0"
    and "CliApps_Informer f0 = (i, f)" and "sf_informers f0 ''CliApp'' = None"
    and "set types = dom (sf_informers f)"
  shows "Some ` set (sf_running (factory_Start types f)) = sf_informers f ` dom (sf_informers f)
    \<and> i \<in> set (sf_running (factory_Start types f))
    \<and> factory_Start types' (factory_Start types f) = factory_Start types f
    \<and> WaitForCacheSync synced (factory_Start types f) = map_option synced \<circ> sf_informers f
    \<and> (let inf = sf_store f ! i; tw = (\<lambda>opts. case sf_tweakListOptions f of Some tw \<Rightarrow> tw opts | None \<Rightarrow> opts) in
        shi_resync inf = (case sf_customResync f ''CliApp'' of Some d \<Rightarrow> d | None \<Rightarrow> sf_defaultResync f)
        \<and> (\<forall>opts. rq_namespace (ListFunc inf opts) = sf_namespace f \<and> rq_params (ListFunc inf opts) = ListParams (tw opts)
            \<and> rq_namespace (WatchFunc inf opts) = sf_namespace f
            \<and> rq_params (WatchFunc inf opts) = ListParams ((tw opts)\<lparr>lo_Watch := True\<rparr>)))"
proof -
  let ?g = "factory_Start types f"
  have inv0: "factory_inv f0" using assms(1) by (rule factory.inv_reachable)
  have f: "f = snd (CliApps_Informer f0)" "sf_informers f ''CliApp'' = Some i" "i = length (sf_store f0)"
    and same: "sf_namespace f = sf_namespace f0" "sf_tweakListOptions f = sf_tweakListOptions f0"
      "sf_customResync f = sf_customResync f0" "sf_defaultResync f = sf_defaultResync f0"
    and inf: "sf_store f ! i = defaultInformer (version_CliApps (group_V1 (factory_Cliapp f0))) (sf_client f0)
      (case sf_customResync f0 ''CliApp'' of Some d \<Rightarrow> d | None \<Rightarrow> sf_defaultResync f0)"
    using assms(2,3) by (auto simp: CliApps_Informer_def informer_path InformerFor_def Let_def)
  have "factory_inv f"
    using factory_inv_InformerFor [OF inv0] by (simp add: f(1) CliApps_Informer_def cliAppInformer_Informer_def)
  then have g: "factory_inv ?g" and sub: "sf_startedInformers f \<subseteq> dom (sf_informers f)"
    using factory_inv_Start by (auto simp: factory_inv_def)
  have started: "sf_startedInformers ?g = dom (sf_informers f)"
    using sub by (auto simp: Start_started assms(4))
  have run: "Some ` set (sf_running ?g) = sf_informers f ` dom (sf_informers f)"
    using g by (simp add: factory_inv_def started Start_informers)
  moreover have "i \<in> set (sf_running ?g)"
    using running_started [OF g, of "''CliApp''" i] f(2) by (auto simp: started Start_informers)
  moreover have "factory_Start types' ?g = ?g"
    by (rule Start_idle) (simp add: started Start_informers)
  moreover have "WaitForCacheSync synced ?g = map_option synced \<circ> sf_informers f"
    by (auto simp: WaitForCacheSync_def started Start_informers domIff)
  ultimately show ?thesis
    unfolding Let_def inf same
    by (auto simp: defaultInformer_def informer_path NewFilteredCliAppInformer_def ListFunc_def WatchFunc_def newCliApps_def
        cliApps_defs Let_def split: option.splits)
qed

theorem start_runs_all_witness:
  "0 \<in> set (sf_running (factory_Start [''CliApp''] (snd (CliApps_Informer sample_factory))))
   \<and> shi_resync (sf_store (snd (CliApps_Informer sample_factory)) ! 0) =
      sf_defaultResync (snd (CliApps_Informer sample_factory))"
proof -
  have none: "sf_informers sample_factory ''CliApp'' = None"
    and dom: "set [''CliApp''] = dom (sf_informers (snd (CliApps_Informer sample_factory)))"
    by (simp_all add: sample_asked(2-))
  have "sf_customResync (snd (CliApps_Informer sample_factory)) = Map.empty"
    by (simp add: sample_factory_def NewSharedInformerFactoryWithOptions_def CliApps_Informer_def informer_path InformerFor_def Let_def)
  moreover note runs = start_runs_all [OF sample_reachable sample_asked(1) none dom, unfolded Let_def]
  ultimately show ?thesis
    using conjunct1 [OF conjunct2 [OF runs]] conjunct1 [OF conjunct2 [OF conjunct2 [OF conjunct2 [OF conjunct2 [OF runs]]]]]
    by simp
qed

end
