(* ===== verification/Listers.thy ===== *)
theory Listers
  imports Informers "HOL-Library.Multiset"
begin

text \<open>
  pkg/listers/cliapp/v1/cliapp.go, and what leads to it: the lister of an informer of apps (informers/externalversions/cliapp/v1/cliapp.go) and the
  generic informers (generic.go). The indexer of an informer is client-go's; here it is of any type, with the functions that read
  it as arguments.
\<close>

section \<open>Listers\<close>

record 'ix cliAppLister =
  cl_indexer :: 'ix

record 'ix cliAppNamespaceLister =
  nl_indexer :: 'ix
  nl_namespace :: string

definition NewCliAppLister :: "'ix \<Rightarrow> 'ix cliAppLister" where
  "NewCliAppLister indexer = \<lparr>cl_indexer = indexer\<rparr>"

text \<open>
  \<open>List\<close>: the argument is \<open>cache.ListAll\<close>, which gives the apps that it calls the function for, in order, and an error.
\<close>

definition appended :: "CliApp list \<Rightarrow> CliApp list" where
  "appended visited = foldl (\<lambda>ret m. ret @ [m]) [] visited"

definition cliAppLister_List ::
  "('ix \<Rightarrow> (labels \<Rightarrow> bool) \<Rightarrow> CliApp list \<times> goerror option) \<Rightarrow> 'ix cliAppLister \<Rightarrow> (labels \<Rightarrow> bool)
     \<Rightarrow> CliApp list \<times> goerror option" where
  "cliAppLister_List listAll s selector =
     (case listAll (cl_indexer s) selector of (visited, err) \<Rightarrow> (appended visited, err))"

definition cliAppLister_CliApps :: "'ix cliAppLister \<Rightarrow> string \<Rightarrow> 'ix cliAppNamespaceLister" where
  "cliAppLister_CliApps s namespace = \<lparr>nl_indexer = cl_indexer s, nl_namespace = namespace\<rparr>"

definition lister_List ::
  "('ix \<Rightarrow> string \<Rightarrow> (labels \<Rightarrow> bool) \<Rightarrow> CliApp list \<times> goerror option) \<Rightarrow> 'ix cliAppNamespaceLister \<Rightarrow> (labels \<Rightarrow> bool)
     \<Rightarrow> CliApp list \<times> goerror option" where
  "lister_List listAllByNamespace s selector =
     (case listAllByNamespace (nl_indexer s) (nl_namespace s) selector of (visited, err) \<Rightarrow> (appended visited, err))"

text \<open>\<open>Get\<close>: the argument is \<open>GetByKey\<close> of the indexer, which may find nothing.\<close>

definition lister_Get :: "('ix \<Rightarrow> string \<Rightarrow> goerror + CliApp option) \<Rightarrow> 'ix cliAppNamespaceLister \<Rightarrow> string \<Rightarrow> goerror + CliApp" where
  "lister_Get getByKey s name =
     (case getByKey (nl_indexer s) (nl_namespace s @ ''/'' @ name) of
        Inl err \<Rightarrow> Inl err
      | Inr None \<Rightarrow>
          Inl (ApiError NotFound (snd (ApiResource ''cliapp'') @ ''.'' @ fst (ApiResource ''cliapp'') @ '' \"'' @ name @ ''\" not found''))
      | Inr (Some app) \<Rightarrow> Inr app)"

section \<open>From the factory to a lister\<close>

definition cliAppInformer_Lister ::
  "(nat \<Rightarrow> 'ix) \<Rightarrow> cliAppInformer \<Rightarrow> sharedInformerFactory \<Rightarrow> 'ix cliAppLister \<times> sharedInformerFactory" where
  "cliAppInformer_Lister getIndexer ci f =
     (case cliAppInformer_Informer ci f of (i, f') \<Rightarrow> (NewCliAppLister (getIndexer i), f'))"

record genericInformer =
  gi_informer :: nat
  gi_resource :: "string \<times> string"

definition genericInformer_Informer :: "genericInformer \<Rightarrow> nat" where
  "genericInformer_Informer g = gi_informer g"

definition genericInformer_Lister :: "(nat \<Rightarrow> 'ix) \<Rightarrow> ('ix \<Rightarrow> string \<times> string \<Rightarrow> 'l) \<Rightarrow> genericInformer \<Rightarrow> 'l" where
  "genericInformer_Lister getIndexer newGenericLister g = newGenericLister (getIndexer (genericInformer_Informer g)) (gi_resource g)"

definition ForResource ::
  "string \<times> string \<times> string \<Rightarrow> sharedInformerFactory \<Rightarrow> (goerror + genericInformer) \<times> sharedInformerFactory" where
  "ForResource gvr f =
     (case gvr of (grp, version, resource) \<Rightarrow>
       if (grp, version) = SchemeGroupVersion \<and> resource = ''cliapps'' then
         (case CliApps_Informer f of (i, f') \<Rightarrow> (Inr \<lparr>gi_informer = i, gi_resource = (grp, resource)\<rparr>, f'))
       else (Inl (Errorf (''no informer found for '' @ grp @ ''/'' @ version @ '', Resource='' @ resource)), f))"

section \<open>What listers find\<close>

text \<open>\<open>cache.MetaNamespaceKeyFunc\<close>, as documented, and the index of a list of apps by it.\<close>

definition app_key :: "CliApp \<Rightarrow> string" where
  "app_key app = (if app_Namespace app = [] then app_Name app else app_Namespace app @ ''/'' @ app_Name app)"

definition app_index :: "CliApp list \<Rightarrow> (string \<rightharpoonup> CliApp)" where
  "app_index apps = map_of (map (\<lambda>app. (app_key app, app)) apps)"

lemma slash_inject:
  assumes "CHR ''/'' \<notin> set a" "CHR ''/'' \<notin> set c" and eq: "a @ ''/'' @ b = c @ ''/'' @ d"
  shows "a = c \<and> b = d"
proof -
  have "takeWhile (\<lambda>x. x \<noteq> CHR ''/'') (xs @ ''/'' @ ys) = xs" if "CHR ''/'' \<notin> set xs" for xs ys :: string
    using that by (induction xs) auto
  with assms have "a = c" by metis
  with eq show ?thesis by simp
qed

lemma appended_id [simp]: "appended visited = visited"
proof -
  have "foldl (\<lambda>ret m. ret @ [m]) acc xs = acc @ xs" for acc and xs :: "CliApp list"
    by (induction xs arbitrary: acc) simp_all
  then show ?thesis by (simp add: appended_def)
qed

lemma app_key_inject:
  assumes "CHR ''/'' \<notin> set (app_Namespace a)" "CHR ''/'' \<notin> set ns" "app_Namespace a \<noteq> []"
  shows "app_key a = ns @ ''/'' @ name \<longleftrightarrow> app_Namespace a = ns \<and> app_Name a = name"
  using assms slash_inject [of "app_Namespace a" ns "app_Name a" name] by (auto simp: app_key_def)

text \<open>An index finds an app under its key, if no two apps have the same namespace and name.\<close>

lemma app_index_find:
  assumes "distinct (map (\<lambda>app. (app_Namespace app, app_Name app)) apps)"
    and "\<forall>app \<in> set apps. app_Namespace app \<noteq> [] \<and> CHR ''/'' \<notin> set (app_Namespace app)"
    and "CHR ''/'' \<notin> set ns"
  shows "app_index apps (ns @ ''/'' @ name) = Some app \<longleftrightarrow> app \<in> set apps \<and> app_Namespace app = ns \<and> app_Name app = name"
proof -
  have "inj_on app_key (set apps)"
  proof (rule inj_onI)
    fix a b assume ab: "a \<in> set apps" "b \<in> set apps" "app_key a = app_key b"
    then have "app_Namespace a = app_Namespace b \<and> app_Name a = app_Name b"
      using assms(2) app_key_inject [of a "app_Namespace b" "app_Name b"] by (auto simp: app_key_def)
    with ab assms(1) show "a = b" by (auto simp: distinct_map inj_on_def)
  qed
  with assms(1) have "distinct (map app_key apps)" by (simp add: distinct_map)
  then have "app_index apps k = Some app \<longleftrightarrow> app \<in> set apps \<and> app_key app = k" for k
    unfolding app_index_def by (subst map_of_eq_Some_iff) (auto simp: comp_def)
  then show ?thesis using app_key_inject [of app ns name] assms(2,3) by auto
qed

text \<open>
  The listers agree, for an indexer that holds apps as client-go documents it: the lister of a namespace lists what the lister of all
  namespaces lists there, \<open>Get\<close> answers an app if and only if the lister of its namespace lists it under this name, and a "not found" that
  \<open>IgnoreNotFound\<close> recognises otherwise. Everybody who asks the factory for a lister reads the same indexer, the one of the informer of apps.
\<close>

theorem listers_agree:
  assumes "distinct (map (\<lambda>app. (app_Namespace app, app_Name app)) apps)"
    and "\<forall>app \<in> set apps. app_Namespace app \<noteq> [] \<and> CHR ''/'' \<notin> set (app_Namespace app)"
    and ns: "ns \<noteq> []" "CHR ''/'' \<notin> set ns"
    and asked: "cliAppInformer_Lister getIndexer ci f = (l, f')"
    and getByKey: "\<And>key. getByKey (cl_indexer l) key = Inr (app_index apps key)"
    and listAll: "\<And>sel. snd (listAll (cl_indexer l) sel) = None
      \<and> mset (fst (listAll (cl_indexer l) sel)) = mset (filter (\<lambda>app. sel (labels_of app)) apps)"
    and byNamespace: "\<And>sel. snd (listAllByNamespace (cl_indexer l) ns sel) = None
      \<and> mset (fst (listAllByNamespace (cl_indexer l) ns sel)) = mset (filter (\<lambda>app. app_Namespace app = ns \<and> sel (labels_of app)) apps)"
  shows "mset (fst (lister_List listAllByNamespace (cliAppLister_CliApps l ns) sel))
       = filter_mset (\<lambda>app. app_Namespace app = ns) (mset (fst (cliAppLister_List listAll l sel)))
    \<and> (lister_Get getByKey (cliAppLister_CliApps l ns) name = Inr app \<longleftrightarrow>
         app \<in> set (fst (lister_List listAllByNamespace (cliAppLister_CliApps l ns) (\<lambda>_. True))) \<and> app_Name app = name)
    \<and> ((\<forall>app \<in> set (fst (lister_List listAllByNamespace (cliAppLister_CliApps l ns) (\<lambda>_. True))). app_Name app \<noteq> name) \<longrightarrow>
         (\<exists>err. lister_Get getByKey (cliAppLister_CliApps l ns) name = Inl err \<and> IgnoreNotFound err = None))
    \<and> cliAppInformer_Lister getIndexer ci' f' = (l, f')"
proof -
  let ?ns = "cliAppLister_CliApps l ns"
  have lists: "mset (fst (lister_List listAllByNamespace ?ns sel)) = mset (filter (\<lambda>app. app_Namespace app = ns \<and> sel (labels_of app)) apps)"
    "mset (fst (cliAppLister_List listAll l sel)) = mset (filter (\<lambda>app. sel (labels_of app)) apps)" for sel
    using listAll byNamespace
    by (simp_all add: lister_List_def cliAppLister_List_def cliAppLister_CliApps_def split: prod.splits)
  have in_ns: "set (fst (lister_List listAllByNamespace ?ns (\<lambda>_. True))) = {app \<in> set apps. app_Namespace app = ns}"
    using mset_eq_setD [OF lists(1)] by simp
  note found = app_index_find [OF assms(1,2) ns(2)]
  have get: "lister_Get getByKey ?ns name = Inr app \<longleftrightarrow> app \<in> set apps \<and> app_Namespace app = ns \<and> app_Name app = name" for app
    unfolding found [symmetric] by (simp add: lister_Get_def cliAppLister_CliApps_def getByKey split: option.splits)
  have none: "\<exists>err. lister_Get getByKey ?ns name = Inl err \<and> IgnoreNotFound err = None"
    if "\<forall>app \<in> set apps. app_Namespace app = ns \<longrightarrow> app_Name app \<noteq> name"
  proof -
    have "app_index apps (ns @ ''/'' @ name) = None" using found that by (metis not_None_eq)
    then show ?thesis by (simp add: lister_Get_def cliAppLister_CliApps_def getByKey)
  qed
  have again: "cliAppInformer_Lister getIndexer ci' f' = (l, f')"
    using asked by (auto simp: cliAppInformer_Lister_def cliAppInformer_Informer_def InformerFor_def Let_def split: option.splits)
  show ?thesis
    using get none again by (auto simp: in_ns lists filter_filter_mset conj_commute)
qed

definition listed_app :: "string \<Rightarrow> CliApp" where
  "listed_app name =
     \<lparr>app_APIVersion = ''core.cliapp.warm-metal.tech/v1'', app_Kind = ''CliApp'', app_Name = name, app_Namespace = ''apps'', app_UID = name,
      app_Spec = \<lparr>spec_Fork = None, spec_Image = ''alpine'', spec_Dockerfile = [], spec_Command = [], spec_HostPath = [],
        spec_Env = [], spec_Distro = [], spec_Shell = [], spec_TargetPhase = CliAppPhaseRest, spec_UninstallUnlessLive = False\<rparr>,
      app_Status = \<lparr>status_Phase = CliAppPhaseRest, status_LastPhaseTransition = 0, status_PodName = [], status_Error = []\<rparr>\<rparr>"

definition listed_apps :: "CliApp list" where
  "listed_apps = [listed_app ''ctr'', (listed_app ''ctr'')\<lparr>app_Namespace := ''other''\<rparr>, listed_app ''mysql'']"

theorem listers_agree_witness:
  "lister_Get (\<lambda>apps key. Inr (app_index apps key)) \<lparr>nl_indexer = listed_apps, nl_namespace = ''apps''\<rparr> ''mysql'' = Inr (listed_app ''mysql'')"
proof -
  have asked: "cliAppInformer_Lister (\<lambda>i. listed_apps) ci sample_factory
      = (\<lparr>cl_indexer = listed_apps\<rparr>, snd (cliAppInformer_Lister (\<lambda>i. listed_apps) ci sample_factory))" for ci
    by (simp add: cliAppInformer_Lister_def NewCliAppLister_def split: prod.split)
  show ?thesis
    using conjunct1 [OF conjunct2 [OF listers_agree [OF _ _ _ _ asked, where apps = listed_apps and ns = "''apps''"
        and getByKey = "\<lambda>apps key. Inr (app_index apps key)" and labels_of = "\<lambda>app. Map.empty"
        and listAll = "\<lambda>apps sel. (filter (\<lambda>app. sel Map.empty) apps, None)"
        and listAllByNamespace = "\<lambda>apps ns sel. (filter (\<lambda>app. app_Namespace app = ns \<and> sel Map.empty) apps, None)"
        and name = "''mysql''" and app = "listed_app ''mysql''"]]]
    by (simp add: listed_apps_def listed_app_def cliAppLister_CliApps_def lister_List_def)
qed

end
