(* ===== verification/GateStart.thy ===== *)
theory GateStart
  imports Client GoStrings
begin

text \<open>
  The start of the session gate: cmd/session-gate/session-gate.go and, of pkg/gate/gate.go, \<open>PrepareGate\<close>, \<open>init\<close> and
  \<open>timeoutContext\<close>. Flags and logging are left out. What the code does to the outside is a list of actions, in order.
\<close>

section \<open>The gate\<close>

text \<open>The gate at its start: its clients, and a map without sessions. The Kubernetes client is the configuration it was made from.\<close>

record gate_parts =
  gp_config :: "rest_config option"
  gp_clientset :: "rest_config option"
  gp_appClient :: "Clientset option"
  gp_sessionMap :: "string \<times> string \<rightharpoonup> nat"

datatype start_action =
    AddToScheme
  | NewKubernetesClient
  | ListAllApps request
  | RegisterGate gate_parts
  | Listen string
  | ServeGate

text \<open>
  The answers: of \<open>AddToScheme\<close>, of \<open>rest.InClusterConfig\<close>, of \<open>kubernetes.NewForConfig\<close>, of client-go for the client of the API
  group, of the API server for the list, of \<open>net.Listen\<close> and, when serving ends, of \<open>Serve\<close>.
\<close>

record gate_start_env =
  gs_addToScheme :: "goerror option"
  gs_inClusterConfig :: "goerror + rest_config"
  gs_kubernetes :: "rest_config \<Rightarrow> goerror option"
  gs_lib :: rest_lib
  gs_list :: "request \<Rightarrow> goerror option"
  gs_listen :: "string \<Rightarrow> goerror option"
  gs_serve :: "goerror option"

definition start_act :: "start_action \<Rightarrow> (start_action list, unit) go" where
  "start_act a = (\<lambda>s. (Done (), s @ [a]))"

lemma wp_start_act [wp_simps, simp]: "wp (start_act a) Q E s = Q () (s @ [a])"
  by (simp add: wp_def start_act_def)

definition zero_ListOptions :: ListOptions where
  "zero_ListOptions = \<lparr>lo_LabelSelector = [], lo_FieldSelector = [], lo_Watch = False, lo_ResourceVersion = [],
     lo_TimeoutSeconds = None\<rparr>"

definition gate_init :: "gate_start_env \<Rightarrow> gate_parts \<Rightarrow> (start_action list, gate_parts) go" where
  "gate_init env t =
     bnd (start_act AddToScheme) (\<lambda>_.
     case gs_addToScheme env of
       Some err \<Rightarrow> throw (ErrorText err)
     | None \<Rightarrow>
     (case gs_inClusterConfig env of
       Inl err \<Rightarrow> throw (ErrorText err)
     | Inr config \<Rightarrow>
     bnd (start_act NewKubernetesClient) (\<lambda>_.
     case gs_kubernetes env config of
       Some err \<Rightarrow> throw (ErrorText err)
     | None \<Rightarrow>
       let t = t\<lparr>gp_config := Some config, gp_clientset := Some config\<rparr>
       in case NewForConfig (gs_lib env) config of
            Inl err \<Rightarrow> ret (t\<lparr>gp_appClient := None\<rparr>)
          | Inr appClient \<Rightarrow>
              let t = t\<lparr>gp_appClient := Some appClient\<rparr>
              in case Clientset_CliappV1 (gp_appClient t) of
                   Panic p \<Rightarrow> throw p
                 | Done cliappV1 \<Rightarrow>
                     let rq = cliApps_List (newCliApps (Some cliappV1) []) zero_ListOptions
                     in bnd (start_act (ListAllApps rq)) (\<lambda>_.
                        case gs_list env rq of Some err \<Rightarrow> throw (ErrorText err) | None \<Rightarrow> ret t))))"

definition PrepareGate :: "gate_start_env \<Rightarrow> (start_action list, unit) go" where
  "PrepareGate env =
     bnd (gate_init env \<lparr>gp_config = None, gp_clientset = None, gp_appClient = None, gp_sessionMap = Map.empty\<rparr>)
       (\<lambda>gate. start_act (RegisterGate gate))"

section \<open>main\<close>

definition session_gate_main :: "gate_start_env \<Rightarrow> string \<Rightarrow> (start_action list, unit) go" where
  "session_gate_main env addr =
     bnd (PrepareGate env) (\<lambda>_.
     bnd (start_act (Listen addr)) (\<lambda>_.
     case gs_listen env addr of
       Some err \<Rightarrow> throw (ErrorText err)
     | None \<Rightarrow>
         bnd (start_act ServeGate) (\<lambda>_.
         case gs_serve env of Some err \<Rightarrow> throw (ErrorText err) | None \<Rightarrow> ret ())))"

section \<open>timeoutContext\<close>

text \<open>
  The variadic \<open>parent\<close> is the list of the contexts given; the result names the parent of the new context (\<open>None\<close> for
  \<open>context.TODO()\<close>) and its timeout.
\<close>

definition timeoutContext :: "'c list \<Rightarrow> ('c option \<times> dur) outcome" where
  "timeoutContext parent =
     (if length parent > 1 then Panic (show_nat (length parent))
      else if length parent > 0 then Done (Some (parent ! 0), 5 * Second)
      else Done (None, 5 * Second))"

section \<open>Properties\<close>

text \<open>
  The gate listens and serves only once it is prepared. If \<open>main\<close> gets so far as to serve, then the calls before it were, in
  this order, the registration of the types, the Kubernetes client, the list of all apps, the registration of a
  gate without sessions, and the listening; and each of them was answered without an error. The one exception: when the client of the
  API group could not be made, the gate is registered and serves without a list, and every use of its client is a panic. If
  \<open>main\<close> does not get so far, it panics.
\<close>

theorem session_gate_serves:
  "case session_gate_main env addr [] of (out, acts) \<Rightarrow>
     (ServeGate \<in> set acts \<longrightarrow>
        (\<exists>config g. gs_inClusterConfig env = Inr config \<and> gs_kubernetes env config = None \<and> gs_addToScheme env = None
          \<and> gs_listen env addr = None \<and> gp_config g = Some config \<and> gp_clientset g = Some config \<and> gp_sessionMap g = Map.empty
          \<and> (case NewForConfig (gs_lib env) config of
               Inl err \<Rightarrow> acts = [AddToScheme, NewKubernetesClient, RegisterGate g, Listen addr, ServeGate]
                 \<and> Clientset_CliappV1 (gp_appClient g) = Panic ''nil pointer dereference''
             | Inr cs \<Rightarrow> gp_appClient g = Some cs
                 \<and> (\<exists>rq. rq_verb rq = GET \<and> rq_namespace rq = [] \<and> rq_resource rq = ''cliapps'' \<and> rq_name rq = None
                     \<and> gs_list env rq = None
                     \<and> acts = [AddToScheme, NewKubernetesClient, ListAllApps rq, RegisterGate g, Listen addr, ServeGate]))))
     \<and> (ServeGate \<notin> set acts \<longrightarrow> (\<exists>p. out = Panic p))"
  unfolding session_gate_main_def PrepareGate_def gate_init_def
  by (cases "gs_addToScheme env"; cases "gs_inClusterConfig env"; cases "gs_kubernetes env (projr (gs_inClusterConfig env))";
      cases "NewForConfig (gs_lib env) (projr (gs_inClusterConfig env))"; cases "gs_listen env addr"; cases "gs_serve env")
    (auto simp: bnd_def start_act_def ret_def throw_def Clientset_CliappV1_def newCliApps_def cliApps_defs Let_def split: option.splits)

definition clientless_start :: gate_start_env where
  "clientless_start =
     \<lparr>gs_addToScheme = None, gs_inClusterConfig = Inr plain_config, gs_kubernetes = (\<lambda>_. None),
      gs_lib = plain_lib\<lparr>rl_NewDiscoveryClient := (\<lambda>_. Some (Errorf ''no discovery''))\<rparr>,
      gs_list = (\<lambda>_. None), gs_listen = (\<lambda>_. None), gs_serve = None\<rparr>"

lemma clientless_config:
  "NewForConfig (gs_lib clientless_start) plain_config = Inl (Errorf ''no discovery'')"
  "gs_inClusterConfig clientless_start = Inr plain_config"
  by (simp_all add: NewForConfig_def cliappv1_NewForConfig_def clientless_start_def plain_lib_def plain_config_def
      setConfigDefaults_def Let_def)

theorem session_gate_serves_witness:
  "\<exists>g. snd (session_gate_main clientless_start '':8001'' []) =
       [AddToScheme, NewKubernetesClient, RegisterGate g, Listen '':8001'', ServeGate]
     \<and> Clientset_CliappV1 (gp_appClient g) = Panic ''nil pointer dereference''"
proof -
  have "ServeGate \<in> set (snd (session_gate_main clientless_start '':8001'' []))"
    using clientless_config
    by (simp add: session_gate_main_def PrepareGate_def gate_init_def bnd_def start_act_def ret_def throw_def clientless_start_def)
  with session_gate_serves [of clientless_start "'':8001''"] clientless_config show ?thesis
    by (auto split: prod.splits)
qed

text \<open>A context with a timeout has at most one parent.\<close>

lemma timeoutContext_parents: "(\<exists>c d. timeoutContext parent = Done (c, d)) \<longleftrightarrow> length parent \<le> 1"
  by (auto simp: timeoutContext_def)

end
