(* ===== verification/GateSystem.thy ===== *)
theory GateSystem
  imports Gate
begin

text \<open>
  The gate with all its sessions (pkg/gate/gate.go, pkg/gate/session.go): the handlers of all shells look their session up in the one registry, and
  each then acts on the session that it was given. A panic in one of them ends the process, and with it every shell.
\<close>

section \<open>Handlers and sessions\<close>

text \<open>
  A handler is named by a number, as the clients of a session are. \<open>gs_handler\<close> holds, for a handler that is past the registry, the key of its app and the
  session that it was given; \<open>gs_sessions\<close> holds what is at the address of a session.
\<close>

record gate_state =
  gs_gate :: terminalGate
  gs_sessions :: "nat \<Rightarrow> session"
  gs_handler :: "nat \<rightharpoonup> (string \<times> string) \<times> nat"
  gs_down :: bool

definition empty_gate :: terminalGate where
  "empty_gate = \<lparr>tg_sessionMap = Map.empty, tg_next = 0, tg_actions = []\<rparr>"

definition gate_start :: gate_state where
  "gate_start = \<lparr>gs_gate = empty_gate, gs_sessions = (\<lambda>_. new_session), gs_handler = Map.empty, gs_down = False\<rparr>"

text \<open>A handler finds its session, or what a session does: a step of one of its clients or of one of its goroutines.\<close>

datatype gate_event = Lookup nat "string \<times> string" | InSession nat event

fun client_of :: "event \<Rightarrow> nat option" where
  "client_of (CountIn c) = Some c"
| "client_of (CheckOpen c) = Some c"
| "client_of (RemoteOpen c) = Some c"
| "client_of (ReadApp c) = Some c"
| "client_of (Attach c) = Some c"
| "client_of (CountOut c) = Some c"
| "client_of (RemoteClose c) = Some c"
| "client_of (Receive c) = Some c"
| "client_of _ = None"

definition look_up :: "nat \<Rightarrow> string \<times> string \<Rightarrow> gate_state \<Rightarrow> gate_state option" where
  "look_up c key st =
     (case session_of key (gs_gate st) of
        (Done i, g) \<Rightarrow>
          if gs_handler st c = None then Some (st\<lparr>gs_gate := g, gs_handler := (gs_handler st)(c \<mapsto> (key, i))\<rparr>) else None
      | (Panic p, g) \<Rightarrow> None)"

definition in_session :: "nat \<Rightarrow> event \<Rightarrow> gate_state \<Rightarrow> gate_state option" where
  "in_session i ev st =
     (if (case client_of ev of None \<Rightarrow> True | Some c \<Rightarrow> map_option snd (gs_handler st c) = Some i)
      then map_option (\<lambda>s. st\<lparr>gs_sessions := (gs_sessions st)(i := s), gs_down := s_crash s \<noteq> None\<rparr>)
             (gate_step ev (gs_sessions st i))
      else None)"

definition serve :: "gate_event \<Rightarrow> gate_state \<Rightarrow> gate_state option" where
  "serve ev st =
     (if gs_down st then None
      else case ev of Lookup c key \<Rightarrow> look_up c key st | InSession i ev \<Rightarrow> in_session i ev st)"

fun serve_run :: "gate_event list \<Rightarrow> gate_state \<Rightarrow> gate_state option" where
  "serve_run [] st = Some st"
| "serve_run (ev # evs) st = (case serve ev st of None \<Rightarrow> None | Some st' \<Rightarrow> serve_run evs st')"

fun served_ok :: "gate_event \<Rightarrow> bool" where
  "served_ok (Lookup c key) = True"
| "served_ok (InSession i ev) = event_ok ev"

inductive serve_step :: "gate_state \<Rightarrow> gate_state \<Rightarrow> bool" where
  "served_ok ev \<Longrightarrow> serve ev st = Some st' \<Longrightarrow> serve_step st st'"

inductive_cases serve_stepE: "serve_step st st'"

section \<open>One session in the gate\<close>

text \<open>The events of one session.\<close>

fun events_of :: "nat \<Rightarrow> gate_event list \<Rightarrow> event list" where
  "events_of i [] = []"
| "events_of i (InSession j ev # evs) = (if j = i then ev # events_of i evs else events_of i evs)"
| "events_of i (Lookup c key # evs) = events_of i evs"

lemma serve_cases:
  assumes "serve ev st = Some st'"
  obtains (look) c key i where "ev = Lookup c key" "\<not> gs_down st" "gs_handler st c = None" "fst (session_of key (gs_gate st)) = Done i"
      "st' = st\<lparr>gs_gate := snd (session_of key (gs_gate st)), gs_handler := (gs_handler st)(c \<mapsto> (key, i))\<rparr>"
  | (step) i e s where "ev = InSession i e" "\<not> gs_down st" "gate_step e (gs_sessions st i) = Some s"
      "\<And>c. client_of e = Some c \<Longrightarrow> \<exists>key. gs_handler st c = Some (key, i)"
      "st' = st\<lparr>gs_sessions := (gs_sessions st)(i := s), gs_down := s_crash s \<noteq> None\<rparr>"
proof (cases ev)
  case (Lookup c key)
  with assms show thesis
    by (auto simp: serve_def look_up_def split: if_splits prod.splits outcome.splits intro!: look)
next
  case (InSession i e)
  with assms show thesis
    by (auto simp: serve_def in_session_def split: if_splits option.splits intro!: step)
qed

lemma session_of_simps [simp]:
  "fst (session_of key g) = Done (case tg_sessionMap g key of Some i \<Rightarrow> i | None \<Rightarrow> tg_next g)"
  "tg_sessionMap (snd (session_of key g)) =
     (tg_sessionMap g)(key \<mapsto> (case tg_sessionMap g key of Some i \<Rightarrow> i | None \<Rightarrow> tg_next g))"
  "tg_next (snd (session_of key g)) = (if tg_sessionMap g key = None then Suc (tg_next g) else tg_next g)"
  by (auto simp: session_of_def split: option.split)

lemma gate_step_client:
  assumes "event_ok ev" and "gate_step ev s = Some t" and "s_clients t c \<noteq> s_clients s c"
  shows "client_of ev = Some c"
  using assms
  by (cases ev) (auto simp: gate_step_def client_step_def change_step_def count_in_def check_open_def remoteOpen_def remoteClose_def
      count_out_def Let_def dest!: received_clients split: if_splits option.splits client.splits)

lemma serve_run_alone:
  "serve_run evs st = Some st' \<Longrightarrow> gate_run (events_of i evs) (gs_sessions st i) = Some (gs_sessions st' i)"
proof (induction evs arbitrary: st)
  case (Cons ev evs)
  from Cons.prems obtain st1 where "serve ev st = Some st1" and rest: "serve_run evs st1 = Some st'"
    by (auto split: option.splits)
  from this(1) show ?case by (cases rule: serve_cases) (use Cons.IH [OF rest] in auto)
qed simp

section \<open>Invariant\<close>

definition registry_ok :: "terminalGate \<Rightarrow> bool" where
  "registry_ok g \<longleftrightarrow> (\<forall>k i. tg_sessionMap g k = Some i \<longrightarrow> i < tg_next g)
     \<and> (\<forall>k k' i. tg_sessionMap g k = Some i \<longrightarrow> tg_sessionMap g k' = Some i \<longrightarrow> k = k')"

definition handlers_ok :: "gate_state \<Rightarrow> bool" where
  "handlers_ok st \<longleftrightarrow> (\<forall>c k i. gs_handler st c = Some (k, i) \<longrightarrow> tg_sessionMap (gs_gate st) k = Some i)
     \<and> (\<forall>i c. s_clients (gs_sessions st i) c \<noteq> Outside \<longrightarrow> (\<exists>k. gs_handler st c = Some (k, i)))"

definition sessions_ok :: "gate_state \<Rightarrow> bool" where
  "sessions_ok st \<longleftrightarrow> (\<forall>i. reachable (\<lambda>s. s = new_session) session_step (gs_sessions st i))
     \<and> (gs_down st \<longleftrightarrow> (\<exists>i. s_crash (gs_sessions st i) \<noteq> None))"

lemma registry_ok_session_of: "registry_ok g \<Longrightarrow> registry_ok (snd (session_of key g))"
proof (cases "tg_sessionMap g key")
  case None
  assume "registry_ok g"
  with None show ?thesis
    unfolding registry_ok_def by (auto intro: less_SucI)
qed (simp add: session_of_def)

lemma handlers_ok_serve:
  assumes "served_ok ev" and "serve ev st = Some st'" and "handlers_ok st"
  shows "handlers_ok st'"
  using assms(2)
proof (cases rule: serve_cases)
  case (look c key i)
  with assms(3) show ?thesis unfolding handlers_ok_def by (auto split: option.splits) fastforce+
next
  case (step i e s)
  then have "event_ok e" using assms(1) by simp
  from gate_step_client [OF this step(3)] step(4) assms(3) show ?thesis
    unfolding handlers_ok_def step(5) by (auto split: if_splits) metis
qed

lemma sessions_ok_serve:
  assumes "served_ok ev" and "serve ev st = Some st'" and "sessions_ok st"
  shows "sessions_ok st'"
  using assms(2)
proof (cases rule: serve_cases)
  case (look c key i)
  with assms(3) show ?thesis by (simp add: sessions_ok_def)
next
  case (step i e s)
  then have "session_step (gs_sessions st i) s" using assms(1) by (intro session_step.intros) simp_all
  with assms(3) step(2) show ?thesis
    unfolding sessions_ok_def step(5) by (auto intro: reachable_step)
qed

interpretation gate_system: kept_invariant "\<lambda>st. st = gate_start" serve_step
  "\<lambda>st. registry_ok (gs_gate st) \<and> handlers_ok st \<and> sessions_ok st"
proof
  fix st :: gate_state assume "st = gate_start"
  then show "registry_ok (gs_gate st) \<and> handlers_ok st \<and> sessions_ok st"
    by (auto simp: gate_start_def empty_gate_def registry_ok_def handlers_ok_def sessions_ok_def new_session_def intro: reachable_init)
next
  fix st st' assume inv: "registry_ok (gs_gate st) \<and> handlers_ok st \<and> sessions_ok st" and "serve_step st st'"
  from this(2) obtain ev where ev: "served_ok ev" "serve ev st = Some st'" by (rule serve_stepE)
  have "registry_ok (gs_gate st')" using ev(2) inv by (cases rule: serve_cases) (auto intro: registry_ok_session_of)
  with handlers_ok_serve [OF ev] sessions_ok_serve [OF ev] inv
  show "registry_ok (gs_gate st') \<and> handlers_ok st' \<and> sessions_ok st'" by blast
qed

section \<open>Properties\<close>

text \<open>
  C16. The gate keeps its apps apart. Whatever the shells of all apps and the API do, and however their steps interleave: a shell that acts on a session has looked
  it up for its own app, so that the shells of one app share one session and those of two apps never do; the counter of the session of an app is the number
  of the shells of this app that are inside; every session is in a state that it reaches alone, with the clients of its app; and the process is down exactly
  when one session panicked.
\<close>

theorem gate_keeps_apps_apart:
  assumes "reachable (\<lambda>st. st = gate_start) serve_step st" and "tg_sessionMap (gs_gate st) key = Some i"
  shows "(\<forall>c. s_clients (gs_sessions st i) c \<noteq> Outside \<longrightarrow> gs_handler st c = Some (key, i))
    \<and> (\<forall>c j. gs_handler st c = Some (key, j) \<longrightarrow> j = i)
    \<and> (\<forall>c j. gs_handler st c = Some (key, i) \<longrightarrow> j \<noteq> i \<longrightarrow> s_clients (gs_sessions st j) c = Outside)
    \<and> s_active (gs_sessions st i) =
        int (card {c. gs_handler st c = Some (key, i) \<and> inside (s_clients (gs_sessions st i) c)})
    \<and> reachable (\<lambda>s. s = new_session) session_step (gs_sessions st i)
    \<and> (gs_down st \<longleftrightarrow> (\<exists>j. s_crash (gs_sessions st j) \<noteq> None))"
proof -
  have inv: "registry_ok (gs_gate st)" "handlers_ok st" "sessions_ok st"
    using gate_system.inv_reachable [OF assms(1)] by simp_all
  have own: "gs_handler st c = Some (key, i)" if "s_clients (gs_sessions st i) c \<noteq> Outside" for c
  proof -
    from that inv(2) obtain k where k: "gs_handler st c = Some (k, i)" unfolding handlers_ok_def by blast
    then have "tg_sessionMap (gs_gate st) k = Some i" using inv(2) unfolding handlers_ok_def by blast
    with assms(2) inv(1) have "k = key" unfolding registry_ok_def by blast
    with k show ?thesis by simp
  qed
  have alone: "reachable (\<lambda>s. s = new_session) session_step (gs_sessions st i)" using inv(3) by (simp add: sessions_ok_def)
  have count: "s_active (gs_sessions st i) = int (card {c. inside (s_clients (gs_sessions st i) c)})"
    using session.inv_reachable [OF alone] by (simp add: session_inv_def count_inv_def)
  have within: "gs_handler st c = Some (key, i)" if "inside (s_clients (gs_sessions st i) c)" for c
    by (rule own) (use that in auto)
  then have "{c. inside (s_clients (gs_sessions st i) c)} =
      {c. gs_handler st c = Some (key, i) \<and> inside (s_clients (gs_sessions st i) c)}" by blast
  with count have count: "s_active (gs_sessions st i) =
      int (card {c. gs_handler st c = Some (key, i) \<and> inside (s_clients (gs_sessions st i) c)})" by (rule back_subst)
  have given: "j = i" if "gs_handler st c = Some (key, j)" for c j
  proof -
    have "tg_sessionMap (gs_gate st) key = Some j" using that inv(2) unfolding handlers_ok_def by blast
    with assms(2) show ?thesis by simp
  qed
  have elsewhere: "s_clients (gs_sessions st j) c = Outside" if "gs_handler st c = Some (key, i)" "j \<noteq> i" for c j
  proof (rule ccontr)
    assume "s_clients (gs_sessions st j) c \<noteq> Outside"
    then obtain k where "gs_handler st c = Some (k, j)" using inv(2) unfolding handlers_ok_def by blast
    with that show False by simp
  qed
  have "gs_down st \<longleftrightarrow> (\<exists>j. s_crash (gs_sessions st j) \<noteq> None)" using inv(3) by (simp only: sessions_ok_def)
  with own given elsewhere count alone show ?thesis by (intro conjI allI impI) (assumption | blast)+
qed

text \<open>
  Sessions do not interfere. In every run of the gate, the session at an address is in the state to which the events of this session lead alone, in their order and
  whatever happens in between at other sessions and in the registry; if the run continues, none of them has panicked.
\<close>

theorem sessions_run_alone:
  assumes "serve_run evs gate_start = Some st"
  shows "gate_run (events_of i evs) new_session = Some (gs_sessions st i)"
  using serve_run_alone [OF assms, of i] by (simp add: gate_start_def)

text \<open>Two shells of one app and one of another, whose session is the second: each finds its own.\<close>

definition two_apps :: "gate_event list" where
  "two_apps = [Lookup 1 (''default'', ''box''), Lookup 2 (''default'', ''vim''), InSession 0 (CountIn 1), InSession 1 (CountIn 2),
     InSession 1 (CheckOpen 2), Lookup 3 (''default'', ''box''), InSession 0 (CountIn 3)]"

lemma serve_run_reachable:
  "serve_run evs st = Some st' \<Longrightarrow> list_all served_ok evs \<Longrightarrow> reachable (\<lambda>st. st = gate_start) serve_step st \<Longrightarrow>
     reachable (\<lambda>st. st = gate_start) serve_step st'"
proof (induction evs arbitrary: st)
  case (Cons ev evs)
  from Cons.prems(1) obtain u where "serve ev st = Some u" "serve_run evs u = Some st'"
    by (auto split: option.splits)
  with Cons.prems show ?case
    by (intro Cons.IH [of u]) (auto intro: reachable_step serve_step.intros)
qed simp

lemma two_apps_run:
  "\<exists>st. serve_run two_apps gate_start = Some st \<and> tg_sessionMap (gs_gate st) (''default'', ''box'') = Some 0"
  by (simp add: two_apps_def serve_def look_up_def in_session_def session_of_def gate_start_def empty_gate_def gate_step_def
      client_step_def count_in_def check_open_def client_to_def new_session_def Let_def)

lemma gate_keeps_apps_apart_witness:
  "\<exists>st. serve_run two_apps gate_start = Some st \<and> reachable (\<lambda>s. s = new_session) session_step (gs_sessions st 0)
     \<and> (\<forall>c. s_clients (gs_sessions st 0) c = Outside \<or> gs_handler st c = Some ((''default'', ''box''), 0))"
proof -
  obtain st where run: "serve_run two_apps gate_start = Some st"
    and box: "tg_sessionMap (gs_gate st) (''default'', ''box'') = Some 0"
    using two_apps_run by blast
  have "reachable (\<lambda>st. st = gate_start) serve_step st"
    by (rule serve_run_reachable [OF run _ reachable_init]) (simp_all add: two_apps_def)
  from gate_keeps_apps_apart [OF this box] run show ?thesis by blast
qed

lemma sessions_run_alone_witness:
  "\<exists>st. serve_run two_apps gate_start = Some st \<and> gate_run [CountIn 2, CheckOpen 2] new_session = Some (gs_sessions st 1)"
proof -
  obtain st where run: "serve_run two_apps gate_start = Some st" using two_apps_run by blast
  from sessions_run_alone [OF run, of 1] run show ?thesis by (simp add: two_apps_def)
qed

end
