(* ===== verification/Spec2Isabelle.thy ===== *)
theory Spec2Isabelle
  imports Converge ImageProps OnePod EndToEnd ComesUp GoesDown Wakeups ForkProps Building SessionDrain ShellPipe Descriptor FakeClientset ConfigCopy DeepCopy Listers GateStart GateSystem
begin

text \<open>
  A verification library for cliapp: a Kubernetes controller that runs command line apps in pods, a session gate that
  opens shells in these pods, and a client library.

  The program. An app is a custom resource, \<open>CliApp\<close> (pkg/apis/cliapp/v1), whose spec says what to run and whether it
  shall be live (\<open>TargetPhase\<close>), and whose status holds the phase it is in. The controller (controllers, started by
  cmd/manager) moves the phase of an app towards its target phase, one transition for each run of \<open>Reconcile\<close>: it builds
  the image of the app with buildkit, creates, claims and deletes its pods, and reports errors in the status. The gate
  (pkg/gate, started by cmd/session-gate) serves one gRPC stream for each shell: the first client of an app sets its
  target phase to Live and waits until the controller reports it live, the last one sets it back to Rest. The client
  (pkg/libcli) finds the gate, dials it, and copies between a terminal and the stream. Controller and gate interact
  through the stored app only.

  The model. A piece of Go code is a function from a state to an outcome and a new state (\<open>go\<close> in Prelude); a panic
  is an outcome. Everything that leaves the program is a call (\<open>call\<close> in Cluster) that is recorded in the state, in
  order, and answered by an environment, which is a function of the calls made so far. Nothing is
  assumed of it, except where a theorem names a condition: \<open>orderly\<close> (Runs) is what Kubernetes validates: stored pods have
  names, pod templates containers; \<open>consistent\<close> (Store) is an API server that stores the app. So a theorem about all
  environments covers other clients, failures and conflicts at any moment.

  The theories, in the order of their dependence:
    Prelude: errors, \<open>go\<close> with its weakest preconditions and triples, durations as 64-bit words, transition systems;
      the locales \<open>go_rules\<close> and \<open>kept_invariant\<close>.
    GoStrings: the functions of strings and path/filepath that the program uses, with their laws.
    UrlParse: what \<open>url.Parse\<close> of net/url refuses, and the scheme that it finds.
    Json: the text that encoding/json makes of a value, and that it determines the value; SpecJson: the JSON text of a spec.
      JsonDecode: the decoder of encoding/json, which reads back what the encoder writes; ImageInfo: the configuration of an image.
    ApiTypes (cliapp_types.go) and KubeTypes (the part of the pod types that the program reads and writes).
    Utils (pkg/utils/utils.go): readiness of a pod.
    Cluster: calls, environments, the state of the controller; the interpretation of \<open>go_rules\<close> for what is called.
    Common (cliapp_common.go), Builder (cliapp_build.go), Rest (cliapp_rest.go), Fork (cliapp_fork.go),
      Workload (cliapp_workload.go), Live (cliapp_live.go), Reconcile (cliapp_controller.go): one definition for each
      function, and for each part of a function that a theorem speaks about.
    Reconcile holds besides the contract of the controller, \<open>reconcile_call_ok\<close>: the calls that it may make for an app,
      with \<open>phase_edge\<close>, the edges of its state machine. Contract proves the triples by which the code refines it, Runs those by which
      it panics in the known ways only (\<open>known_panic\<close>); Runs has the locale \<open>rest_client_getter\<close>, interpreted in Manager.
    Store: the app that the calls leave stored. Converge and ConvergeLive: repeated runs (\<open>run_once\<close>) lead to the target
      phase; the locale \<open>progress\<close> composes the steps of such an argument.
    ReconcileProps, ClaimProps, RestProps, WorkloadProps, ImageProps, ForkProps, BuilderProps: the properties of these parts.
    OnePod: the pods of an app over any number of runs.
    ComesUp: the controller and the cluster as a closed loop (\<open>cluster_pods\<close> are the pods that the calls leave), with the app of the controller's test.
    EndToEnd: the gate opens an app in this loop, and gets it live.
    GoesDown: the same loop with pods that terminate for a while after they were deleted (\<open>pods_left\<close>, \<open>terminates_pods\<close>).
    Wakeups: the work queue of the controller. A run is \<open>followed\<close> by another one when it asked for it or when a call of it lets a watch see an event;
      \<open>work_once\<close> runs the controller only then, where \<open>run_once\<close> runs it always.
    Building: the reconciler and the goroutines of the builder over any number of runs: builds that never end, and an app whose
      build ends and that comes up.
    DeepCopy (cliapp/v1/zz_generated.deepcopy.go): the copies of an app, on a heap with addresses; ConfigCopy: those of the configuration.
    Client (clientset.go, cliapp_client.go, typed/cliapp/v1/cliapp.go), FakeClient (fake/fake_cliapp.go), FakeClientset
      (fake/clientset_generated.go), Informers and Listers (pkg/informers/externalversions, pkg/listers): the client library of the API; the
      factory of the informers is a transition system with one step for each method, since a lock guards them.
    Setup: the types that each program registers (groupversion_info.go, register.go, the init functions), and SetupWithManager with
      what wakes the reconciler.
    SessionApp and Session (pkg/gate/session.go): the remote operations of a session; and its shared state, with one step
      for each piece of code that no other goroutine can interrupt (\<open>gate_step\<close>). SessionProps: invariants of every
      interleaving, and what holds when clients come one after the other. SessionDrain: a session ends its work when no more clients come.
    Messages (pkg/session/rpc.pb.go): the messages and stubs of gRPC; Descriptor: the descriptor that the file embeds, decoded, against
      pkg/session/rpc.proto.
    GateSystem: the gate with all its sessions and their handlers, one step of one of them at a time (\<open>serve_step\<close>).
    Gate (gate.go, io.go), GateStart (the start of the gate: gate.go and cmd/session-gate), LibCli (pkg/libcli/api.go), Manager (cmd/manager/manager.go, cliappdefault_types.go).
    Goroutines: runs of a program of goroutines, one step of one of them at a time, and the locale \<open>draining\<close> for programs that run down. Streams: io.go as such a program, the loop of the
      reader, the senders of window sizes, the command that reads, and the handler; ClientRun: ExecCliApp as one, its two
      reading goroutines, the main loop with its select, the signals and the deferred functions. The functions of Gate and LibCli say what
      such a run computes. ShellPipe: client and gate, joined by a stream in each direction.

  What is shown. Of the controller: refinement of the contract, the causes of every panic, convergence
  to Rest and to Live, that an app comes up from nothing with one pod and goes down to none, that no unfinished run is the last one and which wake-ups suffice, at most one pod for the current spec, and for each branch what it does. Of the pod manifest: what it keeps, what it adds, and that
  volumes and mounts fit. Of the builder: its invariant, soundness of success, that every build ends, and what becomes of an app that waits for one. Of the gate: mutual
  exclusion of opening and closing, the counter, liveness of the app that a client gets, when exactly a session panics, that no client or goroutine of a session is left waiting, the handler's use of sessions,
  and that the sessions of two apps have nothing in common.
  Of gate and controller together: an app that a client opens comes up, and the client gets it. Of the client: the terminal, the way of
  the exit code, that it copies in order. Of client and gate together: a shell is transparent. Of the messages: that the embedded
  descriptor is the one of rpc.proto and of the Go structs. Of the client library: that copies are independent, that informers are shared and run once,
  that listers agree, that the fake client asks for what the real one asks for. Of the claims, these describe defects:
  two options of a fork do not do what the API documents (C24),
  an app whose builds take longer than the time between two polls never comes up (C26), an error that repeats itself puts the controller to
  sleep (C27), an old error fails the next opening (C28), a window size that comes too late ends
  the gate (C34), the client panics when an error or a signal comes while it returns (C36), and the clients of an app can make its session panic (C40); C2 names the
  panics of the controller that are left, and C12 and C35 the bytes that are lost.
  The theorem \<open>dockerfile_kinds\<close> of BuilderProps says which Dockerfiles are refused because they look like URLs.

  Bounds. \<open>RetryOnConflict\<close> runs at most \<open>e_retrySteps\<close> times; the theorems hold for every number. The watch loop, the reader
  loop and the main loop of the client are functions of the list of what their channels yield, so they end with that list
  and have a result that says whether the code would go on. An interleaving is a list of steps of any length
  (\<open>gate_run\<close>) or a reachable state. \<open>run_once\<close> is iterated a number of times that the convergence theorems show to exist.
  The goroutine of a build is three steps, one for each of its writes, and \<open>e_early\<close> decides the race of the first one with the poll that started it. Durations are 64-bit words and wrap, FNV and ports are 32-bit words, window sizes 16-bit ones. The counter of a session,
  an \<open>int32\<close>, is an \<open>int\<close>: each count is a live goroutine.

  In Streams and ClientRun a channel without a buffer is no state of its own: a value goes over in one step of its sender and its receiver. A
  step is one statement that others can see, and every order of the steps is a run, so that races show.

  Not modelled. Contexts of requests (that of a stream, in which \<open>OpenShell\<close> opens and closes the session, shows as errors of the calls made in it), deadlines, logging and colours; the metadata
  of an app in a deep copy, but for its strings. The test of \<open>t.app\<close> and its assignment, at the end of an opening, are one step.
  Further: flags, the codecs of the schemes, and the wiring of gRPC and
  TLS; the set-up of the API server for the tests of the controller. Parameters, because their code is not part
  of the repository: the printed dump of spew, the wording of a decoding error, \<open>rand\<close>,
  buildkit, the container runtime, the runtimes of protobuf and gRPC, client-go, controller-runtime and the Kubernetes API.
\<close>

end
